(* ===== verification/Prelude.thy ===== *)
theory Prelude
  imports Main "HOL-Library.Word"
begin

text \<open>
  Shared vocabulary of the development: the machine integers of the kernel, the byte order
  conversions of Rust's \<open>to_be_bytes\<close>/\<open>from_be_bytes\<close> and their little-endian twins, slices
  and slice assignment, the rounding of an address to a power of two, and the generic lemmas
  about them that the component theories use.
\<close>

unbundle bit_operations_syntax

section \<open>Machine integers\<close>

type_synonym u8 = "8 word"
type_synonym u16 = "16 word"
type_synonym u32 = "32 word"
type_synonym u64 = "64 word"

text \<open>
  \<open>slice_simps\<close> collects the reading and writing of byte slices, \<open>byte_simps\<close> the byte order
  conversions and \<open>wf_simps\<close> the well-formedness predicates of the components.
\<close>

named_theorems slice_simps "slices and slice assignment"
named_theorems byte_simps "byte order conversions"
named_theorems wf_simps "well-formedness predicates"

section \<open>Slices\<close>

text \<open>\<open>slc a b xs\<close> is Rust's \<open>&xs[a..b]\<close>, \<open>patch xs a ys\<close> the effect of
  \<open>xs[a..a + ys.len()].copy_from_slice(ys)\<close>. Both are used where the code has checked
  the bounds; the lemmas below carry these bounds.\<close>

definition slc :: "nat \<Rightarrow> nat \<Rightarrow> 'a list \<Rightarrow> 'a list" where
  "slc a b xs = take (b - a) (drop a xs)"

definition patch :: "'a list \<Rightarrow> nat \<Rightarrow> 'a list \<Rightarrow> 'a list" where
  "patch xs a ys = take a xs @ ys @ drop (a + length ys) xs"

lemma length_slice [simp]: "b \<le> length xs \<Longrightarrow> length (slc a b xs) = b - a"
  by (simp add: slc_def)

lemma nth_slice [slice_simps]: "i < b - a \<Longrightarrow> b \<le> length xs \<Longrightarrow> slc a b xs ! i = xs ! (a + i)"
  by (simp add: slc_def)

lemma slice_full [simp]: "slc 0 (length xs) xs = xs"
  by (simp add: slc_def)

lemma slice_empty [simp]: "slc a a xs = []"
  by (simp add: slc_def)

lemma length_patch [simp]:
  "a + length ys \<le> length xs \<Longrightarrow> length (patch xs a ys) = length xs"
  by (simp add: patch_def)

lemma nth_patch [slice_simps]:
  "a + length ys \<le> length xs \<Longrightarrow> i < length xs \<Longrightarrow>
   patch xs a ys ! i = (if a \<le> i \<and> i < a + length ys then ys ! (i - a) else xs ! i)"
  by (auto simp: patch_def nth_append min_def)

lemma slice_patch_same:
  "a + length ys \<le> length xs \<Longrightarrow> b = a + length ys \<Longrightarrow> slc a b (patch xs a ys) = ys"
  by (simp add: slc_def patch_def)

lemma slice_patch_other:
  assumes "a + length ys \<le> length xs" "d \<le> length xs" "d \<le> a \<or> a + length ys \<le> c"
  shows "slc c d (patch xs a ys) = slc c d xs"
  using assms by (intro nth_equalityI) (auto simp: slice_simps)

lemma take_patch:
  assumes "a + length ys \<le> length xs" "n = a + length ys"
  shows "take n (patch xs a ys) = take a xs @ ys"
  using assms by (simp add: patch_def)

lemma patch_zero [simp]: "length ys = length xs \<Longrightarrow> patch xs 0 ys = ys"
  by (simp add: patch_def)

section \<open>Byte order\<close>

definition be16 :: "u16 \<Rightarrow> u8 list" where
  "be16 w = [ucast (drop_bit 8 w), ucast w]"

definition of_be16 :: "u8 \<Rightarrow> u8 \<Rightarrow> u16" where
  "of_be16 a b = push_bit 8 (ucast a) OR ucast b"

definition be32 :: "u32 \<Rightarrow> u8 list" where
  "be32 w = [ucast (drop_bit 24 w), ucast (drop_bit 16 w), ucast (drop_bit 8 w), ucast w]"

definition of_be32 :: "u8 \<Rightarrow> u8 \<Rightarrow> u8 \<Rightarrow> u8 \<Rightarrow> u32" where
  "of_be32 a b c d = push_bit 24 (ucast a) OR push_bit 16 (ucast b) OR push_bit 8 (ucast c) OR ucast d"

definition le16 :: "u16 \<Rightarrow> u8 list" where
  "le16 w = [ucast w, ucast (drop_bit 8 w)]"

definition of_le16 :: "u8 \<Rightarrow> u8 \<Rightarrow> u16" where
  "of_le16 a b = of_be16 b a"

definition le32 :: "u32 \<Rightarrow> u8 list" where
  "le32 w = [ucast w, ucast (drop_bit 8 w), ucast (drop_bit 16 w), ucast (drop_bit 24 w)]"

definition of_le32 :: "u8 \<Rightarrow> u8 \<Rightarrow> u8 \<Rightarrow> u8 \<Rightarrow> u32" where
  "of_le32 a b c d = of_be32 d c b a"

lemma length_be [simp, byte_simps]:
  "length (be16 w) = 2" "length (be32 x) = 4" "length (le16 w) = 2" "length (le32 x) = 4"
  by (simp_all add: be16_def be32_def le16_def le32_def)

lemma of_be16_nth [simp, byte_simps]: "of_be16 (be16 w ! 0) (be16 w ! Suc 0) = w"
  by (intro bit_word_eqI) (auto simp: be16_def of_be16_def bit_simps)

lemma of_be32_nth [simp, byte_simps]:
  "of_be32 (be32 w ! 0) (be32 w ! Suc 0) (be32 w ! 2) (be32 w ! 3) = w"
proof (rule bit_word_eqI)
  fix n assume "n < LENGTH(32)"
  then consider "n < 8" | "8 \<le> n" "n < 16" | "16 \<le> n" "n < 24" | "24 \<le> n" "n < 32"
    by force
  then show "bit (of_be32 (be32 w ! 0) (be32 w ! Suc 0) (be32 w ! 2) (be32 w ! 3)) n = bit w n"
    by cases (auto simp: be32_def of_be32_def bit_simps)
qed

lemma of_le16_nth [simp, byte_simps]: "of_le16 (le16 w ! 0) (le16 w ! Suc 0) = w"
  by (intro bit_word_eqI) (auto simp: le16_def of_le16_def of_be16_def bit_simps)

lemma of_le32_nth [simp, byte_simps]:
  "of_le32 (le32 w ! 0) (le32 w ! Suc 0) (le32 w ! 2) (le32 w ! 3) = w"
  using of_be32_nth [of w] by (simp add: le32_def of_le32_def be32_def)

lemma u8_less: "unat (a :: u8) < 256"
  using unsigned_less [of a, where 'a = nat] by simp

lemma u16_less: "unat (a :: u16) < 65536"
  using unsigned_less [of a, where 'a = nat] by simp

lemma u32_less: "unat (a :: u32) < 4294967296"
  using unsigned_less [of a, where 'a = nat] by simp

lemma not_bit_u8 [simp]: "8 \<le> n \<Longrightarrow> \<not> bit (a :: u8) n"
  using bit_imp_le_length [of a n] by auto

lemma be16_of_be16 [byte_simps]: "be16 (of_be16 a b) = [a, b]"
  by (auto simp: be16_def of_be16_def intro!: bit_word_eqI simp: bit_simps)

lemma be32_of_be32 [byte_simps]: "be32 (of_be32 a b c d) = [a, b, c, d]"
  by (auto simp: be32_def of_be32_def intro!: bit_word_eqI simp: bit_simps)

lemma unat_ucast_u8_u16 [simp]: "unat (ucast (b :: u8) :: u16) = unat b"
  using u8_less [of b] by (simp add: unsigned_ucast_eq take_bit_nat_eq_self)

lemma unat_of_be16: "unat (of_be16 a b) = 256 * unat a + unat b"
proof -
  have "of_be16 a b = push_bit 8 (ucast a) + ucast b"
    unfolding of_be16_def
    by (rule disjunctive_add [symmetric]) (auto simp: bit_simps)
  moreover have "unat (push_bit 8 (ucast a) :: u16) = 256 * unat a"
    using u8_less [of a] by (simp add: push_bit_eq_mult unat_word_ariths)
  ultimately show ?thesis
    using u8_less [of a] u8_less [of b] by (simp add: unat_word_ariths)
qed


lemma take_bit_word_small: "unat (x :: 'a :: len word) < 2 ^ n \<Longrightarrow> take_bit n x = x"
  by (rule unsigned_word_eqI [where ?'a = nat]) (simp add: unsigned_take_bit_eq take_bit_nat_eq_self)

end
