(* ===== verification/Interfaces.thy ===== *)
theory Interfaces
  imports Prelude "HOL-Library.Char_ord" "HOL-Library.List_Lexorder"
begin

text \<open>
  The contracts between the components, one locale each, with the lemmas every client of
  the contract shares. \<open>bit_store\<close> and its extension \<open>first_fit\<close> are what a bitmap
  allocator promises (the frame bitmap of \<^verbatim>\<open>memory/paging.rs\<close> and the block and inode
  bitmaps of \<^verbatim>\<open>fs/ext3.rs\<close> both provide it); \<open>bounded_fifo\<close> is what an event ring
  promises (\<^verbatim>\<open>keyboard.rs\<close>, \<^verbatim>\<open>mouse.rs\<close>); \<open>file_store\<close> is the trait \<open>FileSystem\<close> of
  \<^verbatim>\<open>fs/vfs.rs\<close>.
\<close>

section \<open>Bit stores and first-fit allocation\<close>

definition bit_set :: "(nat \<Rightarrow> bool) \<Rightarrow> nat \<Rightarrow> nat set" where
  "bit_set p n = {i. i < n \<and> p i}"

lemma finite_bit_set [simp]: "finite (bit_set p n)"
  by (simp add: bit_set_def)

lemma card_bit_set_le: "card (bit_set p n) \<le> n"
proof -
  have "bit_set p n \<subseteq> {..<n}" by (auto simp: bit_set_def)
  then have "card (bit_set p n) \<le> card {..<n}" by (rule card_mono [rotated]) simp
  then show ?thesis by simp
qed

lemma card_bit_set_complement: "card (bit_set p n) + card (bit_set (\<lambda>i. \<not> p i) n) = n"
proof -
  have "bit_set p n \<union> bit_set (\<lambda>i. \<not> p i) n = {..<n}" "bit_set p n \<inter> bit_set (\<lambda>i. \<not> p i) n = {}"
    by (auto simp: bit_set_def)
  then show ?thesis
    by (metis card_Un_disjoint card_lessThan finite_bit_set)
qed

text \<open>\<open>alloc_many f n s\<close> runs an allocation \<open>n\<close> times and collects what it returned.\<close>

fun alloc_many :: "('s \<Rightarrow> (nat \<times> 's) option) \<Rightarrow> nat \<Rightarrow> 's \<Rightarrow> (nat list \<times> 's) option" where
  "alloc_many f 0 s = Some ([], s)"
| "alloc_many f (Suc n) s =
     (case f s of None \<Rightarrow> None
      | Some (i, s') \<Rightarrow>
          (case alloc_many f n s' of None \<Rightarrow> None | Some (is, t) \<Rightarrow> Some (i # is, t)))"

locale bit_store =
  fixes tst :: "'s \<Rightarrow> nat \<Rightarrow> bool"
    and put :: "'s \<Rightarrow> nat \<Rightarrow> bool \<Rightarrow> 's"
    and ok :: "'s \<Rightarrow> bool"
    and cap :: nat
  assumes tst_put: "ok s \<Longrightarrow> i < cap \<Longrightarrow> j < cap \<Longrightarrow> tst (put s i v) j = (if j = i then v else tst s j)"
    and ok_put: "ok s \<Longrightarrow> i < cap \<Longrightarrow> ok (put s i v)"
begin

lemma bit_set_put_True:
  "ok s \<Longrightarrow> i < cap \<Longrightarrow> bit_set (tst (put s i True)) cap = insert i (bit_set (tst s) cap)"
  by (auto simp: bit_set_def tst_put)

lemma bit_set_put_False:
  "ok s \<Longrightarrow> i < cap \<Longrightarrow> bit_set (tst (put s i False)) cap = bit_set (tst s) cap - {i}"
  by (auto simp: bit_set_def tst_put split: if_splits)

lemma put_put_restores:
  assumes "ok s" "i < cap" "tst s i"
  shows "bit_set (tst (put (put s i False) i True)) cap = bit_set (tst s) cap"
proof -
  have "i \<in> bit_set (tst s) cap" using assms by (simp add: bit_set_def)
  then show ?thesis
    using assms by (simp add: bit_set_put_True bit_set_put_False ok_put insert_absorb)
qed

end

locale first_fit = bit_store +
  fixes alloc :: "'a \<Rightarrow> (nat \<times> 'a) option"
  assumes alloc_Some: "ok s \<Longrightarrow> alloc s = Some (i, s') \<Longrightarrow>
      i < cap \<and> tst s i \<and> (\<forall>j < i. \<not> tst s j) \<and> ok s'
      \<and> bit_set (tst s') cap = bit_set (tst s) cap - {i}"
    and alloc_None: "ok s \<Longrightarrow> alloc s = None \<longleftrightarrow> bit_set (tst s) cap = {}"
begin

lemma alloc_least:
  assumes "ok s" "bit_set (tst s) cap \<noteq> {}"
  shows "\<exists>s'. alloc s = Some (Min (bit_set (tst s) cap), s')"
proof -
  obtain i s' where a: "alloc s = Some (i, s')"
    using assms alloc_None by (cases "alloc s") auto
  then have i: "i < cap" "tst s i" "\<forall>j < i. \<not> tst s j"
    using alloc_Some assms(1) by blast+
  have "Min (bit_set (tst s) cap) = i"
    using i by (intro Min_eqI) (auto simp: bit_set_def not_less [symmetric])
  with a show ?thesis by blast
qed

text \<open>Repeated allocation hands out pairwise distinct free indices, in increasing order, and
  takes exactly these out of the store; it succeeds as often as there are free indices.\<close>

lemma alloc_many_sound:
  assumes "ok s" "alloc_many alloc n s = Some (is, t)"
  shows "ok t \<and> length is = n \<and> distinct is \<and> set is \<subseteq> bit_set (tst s) cap
     \<and> bit_set (tst t) cap = bit_set (tst s) cap - set is"
  using assms
proof (induction n arbitrary: s "is" t)
  case 0
  then show ?case by simp
next
  case (Suc n)
  obtain i s' where a: "alloc s = Some (i, s')"
    using Suc.prems(2) by (cases "alloc s") auto
  then obtain js where js: "alloc_many alloc n s' = Some (js, t)" "is = i # js"
    using Suc.prems(2) by (auto split: option.splits)
  have s': "ok s'" "i \<in> bit_set (tst s) cap" "bit_set (tst s') cap = bit_set (tst s) cap - {i}"
    using alloc_Some [OF Suc.prems(1) a] by (auto simp: bit_set_def)
  show ?case
    using Suc.IH [OF s'(1) js(1)] s' js(2) by auto
qed

lemma alloc_many_complete:
  assumes "ok s" "n \<le> card (bit_set (tst s) cap)"
  shows "\<exists>is t. alloc_many alloc n s = Some (is, t)"
  using assms
proof (induction n arbitrary: s)
  case 0
  then show ?case by simp
next
  case (Suc n)
  have "bit_set (tst s) cap \<noteq> {}" using Suc.prems(2) by auto
  then obtain i s' where a: "alloc s = Some (i, s')"
    using alloc_None [OF Suc.prems(1)] by (cases "alloc s") auto
  have s': "ok s'" "i \<in> bit_set (tst s) cap" "bit_set (tst s') cap = bit_set (tst s) cap - {i}"
    using alloc_Some [OF Suc.prems(1) a] by (auto simp: bit_set_def)
  have "n \<le> card (bit_set (tst s') cap)"
    using Suc.prems(2) s'(2,3) by simp
  then show ?case
    using Suc.IH [OF s'(1)] a by auto
qed

lemma alloc_many_exhausted:
  assumes "ok s" "alloc_many alloc n s = Some (is, t)"
  shows "n \<le> card (bit_set (tst s) cap)"
proof -
  have "length is = n" "distinct is" "set is \<subseteq> bit_set (tst s) cap"
    using alloc_many_sound [OF assms] by auto
  then show ?thesis
    by (metis card_mono distinct_card finite_bit_set)
qed

end

section \<open>Bounded event queues\<close>

datatype 'e fifo_op = FPush 'e | FPop

text \<open>\<open>fifo_run\<close> runs a sequence of operations on an implementation and collects what was
  popped, in order; \<open>fifo_spec\<close> is the same run on a list of at most \<open>n\<close> waiting events.\<close>

primrec fifo_run ::
  "('s \<Rightarrow> 'e \<Rightarrow> 's) \<Rightarrow> ('s \<Rightarrow> 'e option \<times> 's) \<Rightarrow> 'e fifo_op list \<Rightarrow> 's \<Rightarrow> 'e list \<times> 's" where
  "fifo_run push pop [] s = ([], s)"
| "fifo_run push pop (x # xs) s =
     (case x of
        FPush e \<Rightarrow> fifo_run push pop xs (push s e)
      | FPop \<Rightarrow> (case pop s of (r, s') \<Rightarrow>
          (case fifo_run push pop xs s' of (es, t) \<Rightarrow>
             ((case r of None \<Rightarrow> es | Some e \<Rightarrow> e # es), t))))"

primrec fifo_spec :: "nat \<Rightarrow> 'e fifo_op list \<Rightarrow> 'e list \<Rightarrow> 'e list \<times> 'e list" where
  "fifo_spec n [] q = ([], q)"
| "fifo_spec n (x # xs) q =
     (case x of
        FPush e \<Rightarrow> fifo_spec n xs (if length q < n then q @ [e] else q)
      | FPop \<Rightarrow> (case q of [] \<Rightarrow> fifo_spec n xs []
          | e # q' \<Rightarrow> (case fifo_spec n xs q' of (es, r) \<Rightarrow> (e # es, r))))"

locale bounded_fifo =
  fixes items :: "'s \<Rightarrow> 'e list"
    and ring_ok :: "'s \<Rightarrow> bool"
    and event_ok :: "'e \<Rightarrow> bool"
    and push :: "'s \<Rightarrow> 'e \<Rightarrow> 's"
    and pop :: "'s \<Rightarrow> 'e option \<times> 's"
    and limit :: nat
  assumes push_ok: "ring_ok s \<Longrightarrow> event_ok e \<Longrightarrow> ring_ok (push s e)"
    and pop_ok: "ring_ok s \<Longrightarrow> ring_ok (snd (pop s))"
    and items_push: "ring_ok s \<Longrightarrow> event_ok e \<Longrightarrow>
          items (push s e) = (if length (items s) < limit then items s @ [e] else items s)"
    and pop_empty: "ring_ok s \<Longrightarrow> items s = [] \<Longrightarrow> pop s = (None, s)"
    and pop_cons: "ring_ok s \<Longrightarrow> items s = e # es \<Longrightarrow>
          fst (pop s) = Some e \<and> items (snd (pop s)) = es"
    and items_limit: "ring_ok s \<Longrightarrow> length (items s) \<le> limit"
begin

lemma run_refines:
  "ring_ok s \<Longrightarrow> (\<forall>e. FPush e \<in> set xs \<longrightarrow> event_ok e) \<Longrightarrow>
   ring_ok (snd (fifo_run push pop xs s)) \<and>
   fifo_spec limit xs (items s) =
     (fst (fifo_run push pop xs s), items (snd (fifo_run push pop xs s)))"
proof (induction xs arbitrary: s)
  case Nil
  then show ?case by simp
next
  case (Cons x xs)
  have rest: "\<forall>e. FPush e \<in> set xs \<longrightarrow> event_ok e" using Cons.prems(2) by simp
  show ?case
  proof (cases x)
    case (FPush e)
    then have "event_ok e" using Cons.prems(2) by simp
    then show ?thesis
      using Cons.IH [OF push_ok [OF Cons.prems(1), of e] rest] items_push [OF Cons.prems(1), of e] FPush by simp
  next
    case FPop
    show ?thesis
    proof (cases "items s")
      case Nil
      then show ?thesis
        using FPop Cons.IH [OF Cons.prems(1) rest] pop_empty [OF Cons.prems(1)]
        by (simp split: prod.splits)
    next
      case (Cons e es)
      with pop_cons [OF \<open>ring_ok s\<close> Cons] pop_ok [OF \<open>ring_ok s\<close>] FPop Cons.IH [of "snd (pop s)"] rest
      show ?thesis
        by (cases "pop s") (auto split: prod.splits)
    qed
  qed
qed

end


section \<open>File stores\<close>

text \<open>The trait \<open>FileSystem\<close> of \<^verbatim>\<open>src/fs/vfs.rs\<close>: its errors, its five operations, and the
  run of a sequence of them that collects the answers. \<open>fs_spec\<close> is the same run on a finite
  map from keys to contents.\<close>

datatype FsError = NotFound | Exists | InvalidName | Io

datatype 'd fs_op = FRead string | FWrite string 'd | FCreate string | FDelete string | FList

datatype 'd fs_answer = Content 'd | Done | Listing "(string \<times> nat) list" | Failed FsError

record ('s, 'd) fs_impl =
  fs_read :: "'s \<Rightarrow> string \<Rightarrow> FsError + 'd"
  fs_write :: "'s \<Rightarrow> string \<Rightarrow> 'd \<Rightarrow> FsError + 's"
  fs_create :: "'s \<Rightarrow> string \<Rightarrow> FsError + 's"
  fs_delete :: "'s \<Rightarrow> string \<Rightarrow> FsError + 's"
  fs_list :: "'s \<Rightarrow> (string \<times> nat) list"

definition update_answer :: "'s \<Rightarrow> FsError + 's \<Rightarrow> 'd fs_answer \<times> 's" where
  "update_answer s r = (case r of Inl e \<Rightarrow> (Failed e, s) | Inr s' \<Rightarrow> (Done, s'))"

fun fs_do :: "('s, 'd) fs_impl \<Rightarrow> 'd fs_op \<Rightarrow> 's \<Rightarrow> 'd fs_answer \<times> 's" where
  "fs_do fs (FRead p) s = (case fs_read fs s p of Inl e \<Rightarrow> (Failed e, s) | Inr d \<Rightarrow> (Content d, s))"
| "fs_do fs (FWrite p d) s = update_answer s (fs_write fs s p d)"
| "fs_do fs (FCreate p) s = update_answer s (fs_create fs s p)"
| "fs_do fs (FDelete p) s = update_answer s (fs_delete fs s p)"
| "fs_do fs FList s = (Listing (fs_list fs s), s)"

fun fs_run :: "('s, 'd) fs_impl \<Rightarrow> 'd fs_op list \<Rightarrow> 's \<Rightarrow> 'd fs_answer list \<times> 's" where
  "fs_run fs [] s = ([], s)"
| "fs_run fs (op # ops) s =
     (case fs_do fs op s of (r, s') \<Rightarrow> (case fs_run fs ops s' of (rs, t) \<Rightarrow> (r # rs, t)))"

text \<open>The reference: \<open>key\<close> is the name a path stands for, if it is a legal one.\<close>

definition spec_fs :: "(string \<Rightarrow> string option) \<Rightarrow> ('d \<Rightarrow> nat) \<Rightarrow> 'd \<Rightarrow>
    (string \<rightharpoonup> 'd, 'd) fs_impl" where
  "spec_fs key size_of blank =
     \<lparr>fs_read = (\<lambda>m p. case key p of None \<Rightarrow> Inl InvalidName
        | Some k \<Rightarrow> (case m k of None \<Rightarrow> Inl NotFound | Some d \<Rightarrow> Inr d)),
      fs_write = (\<lambda>m p d. case key p of None \<Rightarrow> Inl InvalidName | Some k \<Rightarrow> Inr (m(k \<mapsto> d))),
      fs_create = (\<lambda>m p. case key p of None \<Rightarrow> Inl InvalidName
        | Some k \<Rightarrow> if m k \<noteq> None then Inl Exists else Inr (m(k \<mapsto> blank))),
      fs_delete = (\<lambda>m p. case key p of None \<Rightarrow> Inl InvalidName
        | Some k \<Rightarrow> if m k = None then Inl NotFound else Inr (m(k := None))),
      fs_list = (\<lambda>m. map (\<lambda>k. (k, size_of (the (m k)))) (sorted_list_of_set (dom m)))\<rparr>"


locale file_store =
  fixes fs :: "('s, 'd) fs_impl"
    and contents :: "'s \<Rightarrow> string \<rightharpoonup> 'd"
    and ok :: "'s \<Rightarrow> bool"
    and key :: "string \<Rightarrow> string option"
    and size_of :: "'d \<Rightarrow> nat"
    and blank :: 'd
  assumes read_law: "ok s \<Longrightarrow> fs_read fs s p = fs_read (spec_fs key size_of blank) (contents s) p"
    and write_law: "ok s \<Longrightarrow> (case fs_write fs s p d of
          Inl e \<Rightarrow> fs_write (spec_fs key size_of blank) (contents s) p d = Inl e
        | Inr s' \<Rightarrow> ok s' \<and> fs_write (spec_fs key size_of blank) (contents s) p d = Inr (contents s'))"
    and create_law: "ok s \<Longrightarrow> (case fs_create fs s p of
          Inl e \<Rightarrow> fs_create (spec_fs key size_of blank) (contents s) p = Inl e
        | Inr s' \<Rightarrow> ok s' \<and> fs_create (spec_fs key size_of blank) (contents s) p = Inr (contents s'))"
    and delete_law: "ok s \<Longrightarrow> (case fs_delete fs s p of
          Inl e \<Rightarrow> fs_delete (spec_fs key size_of blank) (contents s) p = Inl e
        | Inr s' \<Rightarrow> ok s' \<and> fs_delete (spec_fs key size_of blank) (contents s) p = Inr (contents s'))"
    and list_law: "ok s \<Longrightarrow> fs_list fs s = fs_list (spec_fs key size_of blank) (contents s)"
begin

lemma do_refines:
  assumes "ok s"
  shows "ok (snd (fs_do fs x s)) \<and> fs_do (spec_fs key size_of blank) x (contents s)
     = (fst (fs_do fs x s), contents (snd (fs_do fs x s)))"
proof (cases x)
  case (FRead p)
  then show ?thesis using assms read_law [OF assms] by (simp split: sum.split)
next
  case (FWrite p d)
  then show ?thesis using assms write_law [OF assms, of p d] by (auto simp: update_answer_def split: sum.splits)
next
  case (FCreate p)
  then show ?thesis using assms create_law [OF assms, of p] by (auto simp: update_answer_def split: sum.splits)
next
  case (FDelete p)
  then show ?thesis using assms delete_law [OF assms, of p] by (auto simp: update_answer_def split: sum.splits)
next
  case FList
  then show ?thesis using assms list_law [OF assms] by simp
qed

lemma run_refines:
  "ok s \<Longrightarrow> ok (snd (fs_run fs xs s)) \<and> fs_run (spec_fs key size_of blank) xs (contents s)
     = (fst (fs_run fs xs s), contents (snd (fs_run fs xs s)))"
proof (induction xs arbitrary: s)
  case (Cons x xs)
  obtain r s' where d: "fs_do fs x s = (r, s')" by fastforce
  with do_refines [OF Cons.prems, of x] have
    "ok s'" "fs_do (spec_fs key size_of blank) x (contents s) = (r, contents s')" by auto
  then show ?case using Cons.IH [of s'] d by (auto split: prod.splits)
qed simp

text \<open>What a client may rely on after a write and after a removal.\<close>

lemma read_after_write:
  assumes "ok s" "key p = Some k"
  shows "\<exists>s'. fs_write fs s p d = Inr s' \<and> ok s' \<and> contents s' = (contents s)(k \<mapsto> d)
     \<and> (\<forall>q. key q = Some k \<longrightarrow> fs_read fs s' q = Inr d)"
proof -
  obtain s' where "fs_write fs s p d = Inr s'" "ok s'" "contents s' = (contents s)(k \<mapsto> d)"
    using write_law [OF assms(1), of p d] assms(2) by (auto simp: spec_fs_def split: sum.splits)
  then show ?thesis using read_law [of s'] by (auto simp: spec_fs_def)
qed

lemma gone_after_delete:
  assumes "ok s" "key p = Some k" "contents s k = Some d"
  shows "\<exists>s'. fs_delete fs s p = Inr s' \<and> ok s' \<and> contents s' = (contents s)(k := None)
     \<and> fs_read fs s' p = Inl NotFound"
proof -
  obtain s' where "fs_delete fs s p = Inr s'" "ok s'" "contents s' = (contents s)(k := None)"
    using delete_law [OF assms(1), of p] assms(2,3) by (auto simp: spec_fs_def split: sum.splits)
  then show ?thesis using read_law [of s' p] assms(2) by (auto simp: spec_fs_def)
qed

lemma read_known: "ok s \<Longrightarrow> fs_read fs s p = Inr d \<Longrightarrow> \<exists>k. key p = Some k \<and> contents s k = Some d"
  using read_law [of s p] by (auto simp: spec_fs_def split: option.splits)

end

end
