(* ===== verification/FrameBitmap.thy ===== *)
theory FrameBitmap
  imports Interfaces
begin

text \<open>
  The physical frame allocator of \<^verbatim>\<open>src/memory/paging.rs\<close>: a static bitmap of 64-bit
  atomics with one bit per 4 KiB frame between 4 MiB and 1 GiB, a set bit meaning that the
  frame is free. \<open>BITMAP\<close> and \<open>INITIALIZED\<close> are the two fields of the record; each
  \<open>fetch_and\<close>/\<open>fetch_or\<close>/\<open>load\<close> is one update or read of a word. The sequential laws are
  proved through the interface \<open>first_fit\<close>; a second group of definitions splits
  \<open>alloc_frame\<close> into its atomic steps and shows that callers running concurrently never
  hold the same frame. The 1 GiB page entry of \<open>map_1gb_page\<close> is modelled as a word.
\<close>

section \<open>State and constants\<close>

definition PHYS_BASE :: nat where "PHYS_BASE = 0x400000"
definition PHYS_END :: nat where "PHYS_END = 0x40000000"
definition PAGE_SIZE :: nat where "PAGE_SIZE = 4096"
definition FRAME_COUNT :: nat where "FRAME_COUNT = (PHYS_END - PHYS_BASE) div PAGE_SIZE"
definition BITMAP_WORDS :: nat where "BITMAP_WORDS = (FRAME_COUNT + 63) div 64"

lemmas frame_consts = PHYS_BASE_def PHYS_END_def PAGE_SIZE_def FRAME_COUNT_def BITMAP_WORDS_def

lemma FRAME_COUNT_eq: "FRAME_COUNT = 261120"
  by (simp add: frame_consts)

lemma BITMAP_WORDS_eq: "BITMAP_WORDS = 4080"
  by (simp add: frame_consts)

record frames =
  bitmap :: "u64 list"
  initialized :: bool

section \<open>Operations\<close>

definition page_index :: "nat \<Rightarrow> nat option" where
  "page_index phys =
     (if phys < PHYS_BASE \<or> phys \<ge> PHYS_END then None
      else Some ((phys - PHYS_BASE) div PAGE_SIZE))"

definition set_bit_frame :: "frames \<Rightarrow> nat \<Rightarrow> bool \<Rightarrow> frames" where
  "set_bit_frame f idx free =
     (if idx \<ge> FRAME_COUNT then f
      else let word = idx div 64; bt = idx mod 64 in
        if word \<ge> BITMAP_WORDS then f
        else if free
          then f\<lparr>bitmap := (bitmap f)[word := bitmap f ! word OR push_bit bt 1]\<rparr>
          else f\<lparr>bitmap := (bitmap f)[word := bitmap f ! word AND NOT (push_bit bt 1)]\<rparr>)"

definition test_bit_frame :: "frames \<Rightarrow> nat \<Rightarrow> bool" where
  "test_bit_frame f idx =
     (if idx \<ge> FRAME_COUNT then False
      else let word = idx div 64; bt = idx mod 64 in
        if word \<ge> BITMAP_WORDS then False
        else drop_bit bt (bitmap f ! word) AND 1 \<noteq> 0)"

definition mark_used :: "frames \<Rightarrow> nat \<Rightarrow> frames" where
  "mark_used f phys = (case page_index phys of Some idx \<Rightarrow> set_bit_frame f idx False | None \<Rightarrow> f)"

definition mark_free :: "frames \<Rightarrow> nat \<Rightarrow> frames" where
  "mark_free f phys = (case page_index phys of Some idx \<Rightarrow> set_bit_frame f idx True | None \<Rightarrow> f)"

text \<open>The reservation loop of \<open>init\<close>, with the saturating addition and its overflow guard.
  The second conjunct of the guard says that \<open>kernel_end\<close> is a \<open>usize\<close>.\<close>

function reserve_loop :: "nat \<Rightarrow> nat \<Rightarrow> nat \<Rightarrow> frames \<Rightarrow> frames" where
  "reserve_loop kernel_start kernel_end addr f =
     (if addr < kernel_end \<and> kernel_end < 2 ^ 64 then
        let f' = mark_used f addr; addr' = min (addr + PAGE_SIZE) (2 ^ 64 - 1) in
        if addr' < kernel_start then f'
        else reserve_loop kernel_start kernel_end addr' f'
      else f)"
  by pat_completeness auto
termination
  by (relation "measure (\<lambda>(s, e, a, f). e - a)") (auto simp: PAGE_SIZE_def)

declare reserve_loop.simps [simp del]

definition paging_init :: "frames \<Rightarrow> frames" where
  "paging_init f =
     (let words = replicate BITMAP_WORDS (0xFFFFFFFFFFFFFFFF :: u64);
          remainder = FRAME_COUNT mod 64;
          words = (if remainder > 0 \<and> BITMAP_WORDS > 0
                   then words[BITMAP_WORDS - 1 :=
                          words ! (BITMAP_WORDS - 1) AND (push_bit remainder 1 - 1)]
                   else words);
          f1 = reserve_loop 0x100000 PHYS_BASE 0x100000 (f\<lparr>bitmap := words\<rparr>)
      in f1\<lparr>initialized := True\<rparr>)"

text \<open>One iteration of \<open>alloc_frame\<close> is an unconditional \<open>fetch_and\<close> whose previous value
  decides; the loop runs over the frame indices in order.\<close>

definition claim_bit :: "frames \<Rightarrow> nat \<Rightarrow> bool \<times> frames" where
  "claim_bit f i =
     (let word = i div 64; mask = push_bit (i mod 64) (1 :: u64); prev = bitmap f ! word
      in (prev AND mask \<noteq> 0, f\<lparr>bitmap := (bitmap f)[word := prev AND NOT mask]\<rparr>))"

fun alloc_scan :: "nat list \<Rightarrow> frames \<Rightarrow> nat \<times> frames" where
  "alloc_scan [] f = (0, f)"
| "alloc_scan (i # is) f =
     (case claim_bit f i of (won, f') \<Rightarrow>
        if won then (PHYS_BASE + i * PAGE_SIZE, f') else alloc_scan is f')"

definition alloc_frame :: "frames \<Rightarrow> nat \<times> frames" where
  "alloc_frame f = (if \<not> initialized f then (0, f) else alloc_scan [0 ..< FRAME_COUNT] f)"

definition free_frame :: "frames \<Rightarrow> nat \<Rightarrow> frames" where
  "free_frame f phys =
     (if phys mod PAGE_SIZE \<noteq> 0 then f
      else case page_index phys of Some idx \<Rightarrow> set_bit_frame f idx True | None \<Rightarrow> f)"

definition stats_frames :: "frames \<Rightarrow> nat \<times> nat \<times> nat" where
  "stats_frames f =
     (let free = fold (\<lambda>i n. if test_bit_frame f i then n + 1 else n) [0 ..< FRAME_COUNT] 0
      in (FRAME_COUNT, free, FRAME_COUNT - free))"

definition map_1gb_entry :: "u64 \<Rightarrow> nat \<times> u64" where
  "map_1gb_entry phys =
     (unat (drop_bit 30 phys AND 0x1FF), (phys AND 0xFFFFFFFFC0000000) OR 0x83)"

section \<open>Bits of the map\<close>

definition frames_ok :: "frames \<Rightarrow> bool" where
  "frames_ok f \<longleftrightarrow> length (bitmap f) = BITMAP_WORDS"

declare frames_ok_def [wf_simps]

lemma word_index: "i < FRAME_COUNT \<Longrightarrow> i div 64 < BITMAP_WORDS"
  by (simp add: FRAME_COUNT_eq BITMAP_WORDS_eq)

lemma and_mask_eq_0_iff: "n < 64 \<Longrightarrow> (w :: u64) AND push_bit n 1 = 0 \<longleftrightarrow> \<not> bit w n"
  by (simp add: and_exp_eq_0_iff_not_bit push_bit_eq_mult)

lemma drop_bit_and_1_iff: "(drop_bit n (w :: u64) AND 1 \<noteq> 0) \<longleftrightarrow> bit w n"
  by (simp add: and_one_eq bit_iff_odd_drop_bit odd_iff_mod_2_eq_one)

lemma test_bit_frame_eq:
  "i < FRAME_COUNT \<Longrightarrow> test_bit_frame f i = bit (bitmap f ! (i div 64)) (i mod 64)"
  using word_index [of i] by (simp add: test_bit_frame_def Let_def drop_bit_and_1_iff)

lemma set_bit_frame_ok [simp]: "frames_ok f \<Longrightarrow> frames_ok (set_bit_frame f i v)"
  by (simp add: set_bit_frame_def frames_ok_def Let_def)

lemma initialized_set_bit_frame [simp]: "initialized (set_bit_frame f i v) = initialized f"
  by (simp add: set_bit_frame_def Let_def)

lemma test_set_bit_frame:
  assumes "frames_ok f" "i < FRAME_COUNT" "j < FRAME_COUNT"
  shows "test_bit_frame (set_bit_frame f i v) j = (if j = i then v else test_bit_frame f j)"
proof -
  have eq: "j = i \<longleftrightarrow> j div 64 = i div 64 \<and> j mod 64 = i mod 64"
    by (metis mult_div_mod_eq)
  have "i div 64 < length (bitmap f)" "j div 64 < length (bitmap f)"
    using assms word_index by (auto simp: frames_ok_def)
  moreover have "j mod 64 < 64" by simp
  ultimately show ?thesis
    using assms word_index [of i] eq
    by (cases v; cases "j div 64 = i div 64")
      (auto simp: test_bit_frame_eq set_bit_frame_def Let_def nth_list_update bit_simps)
qed

interpretation frame_bits: bit_store test_bit_frame set_bit_frame frames_ok FRAME_COUNT
  by unfold_locales (auto simp: test_set_bit_frame)

lemma set_clear_noop:
  assumes "frames_ok f" "i < FRAME_COUNT" "\<not> test_bit_frame f i"
  shows "set_bit_frame f i False = f"
proof -
  have "bitmap f ! (i div 64) AND NOT (push_bit (i mod 64) 1) = bitmap f ! (i div 64)"
    using assms by (intro bit_word_eqI) (auto simp: test_bit_frame_eq bit_simps)
  then show ?thesis by (simp add: set_bit_frame_def Let_def)
qed

lemma clear_set_restores:
  assumes "frames_ok f" "i < FRAME_COUNT" "test_bit_frame f i"
  shows "set_bit_frame (set_bit_frame f i False) i True = f"
proof -
  have "bitmap f ! (i div 64) AND NOT (push_bit (i mod 64) 1) OR push_bit (i mod 64) 1
      = bitmap f ! (i div 64)"
    using assms by (intro bit_word_eqI) (auto simp: test_bit_frame_eq bit_simps)
  then show ?thesis
    using assms word_index [of i] by (simp add: set_bit_frame_def Let_def frames_ok_def)
qed

lemma claim_bit_eq:
  assumes "frames_ok f" "i < FRAME_COUNT"
  shows "claim_bit f i = (test_bit_frame f i, set_bit_frame f i False)"
  using assms word_index [of i]
  by (simp add: claim_bit_def set_bit_frame_def Let_def and_mask_eq_0_iff
      and_exp_eq_0_iff_not_bit test_bit_frame_eq)

lemma alloc_scan_eq:
  assumes "frames_ok f" "\<forall>i \<in> set is. i < FRAME_COUNT"
  shows "alloc_scan is f =
    (case find (test_bit_frame f) is of
       None \<Rightarrow> (0, f)
     | Some i \<Rightarrow> (PHYS_BASE + i * PAGE_SIZE, set_bit_frame f i False))"
  using assms by (induction "is") (auto simp: claim_bit_eq set_clear_noop)

lemma page_index_addr: "i < FRAME_COUNT \<Longrightarrow> page_index (PHYS_BASE + i * PAGE_SIZE) = Some i"
  by (simp add: page_index_def frame_consts)

section \<open>First-fit allocation\<close>

text \<open>\<open>frame_take\<close> reads \<open>alloc_frame\<close> as an allocator of frame indices: its result 0, the
  code's failure value, is \<open>None\<close>.\<close>

definition frame_take :: "frames \<Rightarrow> (nat \<times> frames) option" where
  "frame_take f = (case alloc_frame f of (a, f') \<Rightarrow>
     if a = 0 then None else Some ((a - PHYS_BASE) div PAGE_SIZE, f'))"

definition frames_ready :: "frames \<Rightarrow> bool" where
  "frames_ready f \<longleftrightarrow> frames_ok f \<and> initialized f"

declare frames_ready_def [wf_simps]

lemma find_upt_Some: "find p [0 ..< n] = Some i \<longleftrightarrow> i < n \<and> p i \<and> (\<forall>j < i. \<not> p j)"
  by (auto simp: find_Some_iff)

lemma find_upt_None: "find p [0 ..< n] = None \<longleftrightarrow> bit_set p n = {}"
  by (auto simp: find_None_iff bit_set_def)

lemma alloc_frame_eq:
  assumes "frames_ready f"
  shows "alloc_frame f =
    (case find (test_bit_frame f) [0 ..< FRAME_COUNT] of
       None \<Rightarrow> (0, f)
     | Some i \<Rightarrow> (PHYS_BASE + i * PAGE_SIZE, set_bit_frame f i False))"
  using assms alloc_scan_eq [of f "[0 ..< FRAME_COUNT]"]
  by (simp add: alloc_frame_def frames_ready_def)

lemma frame_take_eq:
  assumes "frames_ready f"
  shows "frame_take f =
    (case find (test_bit_frame f) [0 ..< FRAME_COUNT] of
       None \<Rightarrow> None | Some i \<Rightarrow> Some (i, set_bit_frame f i False))"
  using assms by (simp add: frame_take_def alloc_frame_eq PHYS_BASE_def PAGE_SIZE_def split: option.split)

interpretation frame_alloc: first_fit test_bit_frame set_bit_frame frames_ready FRAME_COUNT frame_take
proof (unfold_locales, goal_cases)
  case (1 s i j v)
  then show ?case by (simp add: frames_ready_def test_set_bit_frame)
next
  case (2 s i v)
  then show ?case by (simp add: frames_ready_def)
next
  case (3 s i s')
  then show ?case
    using frame_bits.bit_set_put_False
    by (auto simp: frame_take_eq find_upt_Some frames_ready_def split: option.splits)
next
  case (4 s)
  then show ?case by (auto simp: frame_take_eq find_upt_None [symmetric] split: option.split)
qed


text \<open>
  C4. Frame allocation is first fit: on an initialised map, \<open>alloc_frame\<close> returns 0 and
  changes nothing exactly when no frame is free; otherwise it returns the page-aligned
  address, inside the managed range, of the lowest free frame, and that frame is the only
  one that stops being free.
\<close>

theorem alloc_frame_first_fit:
  assumes "frames_ready f"
  shows "let free = bit_set (test_bit_frame f) FRAME_COUNT; (a, f') = alloc_frame f in
     if free = {} then a = 0 \<and> f' = f
     else a = PHYS_BASE + Min free * PAGE_SIZE \<and> a mod PAGE_SIZE = 0
          \<and> PHYS_BASE \<le> a \<and> a + PAGE_SIZE \<le> PHYS_END \<and> frames_ready f'
          \<and> bit_set (test_bit_frame f') FRAME_COUNT = free - {Min free}"
proof (cases "find (test_bit_frame f) [0 ..< FRAME_COUNT]")
  case None
  then have "bit_set (test_bit_frame f) FRAME_COUNT = {}"
    by (simp add: find_upt_None)
  then show ?thesis
    using assms None by (simp add: alloc_frame_eq)
next
  case (Some i)
  let ?free = "bit_set (test_bit_frame f) FRAME_COUNT"
  have t: "frame_take f = Some (i, set_bit_frame f i False)"
    using Some assms by (simp add: frame_take_eq)
  have "?free \<noteq> {}" using Some find_upt_None by (metis option.distinct(1))
  then have "Min ?free = i" using frame_alloc.alloc_least [OF assms] t by auto
  moreover have "i < FRAME_COUNT" using Some by (simp add: find_upt_Some)
  moreover have "PHYS_BASE + i * PAGE_SIZE + PAGE_SIZE \<le> PHYS_END"
    using \<open>i < FRAME_COUNT\<close> by (simp add: frame_consts)
  moreover have "(PHYS_BASE + i * PAGE_SIZE) mod PAGE_SIZE = 0"
    by (simp add: PHYS_BASE_def PAGE_SIZE_def)
  ultimately show ?thesis
    using Some assms \<open>?free \<noteq> {}\<close> frame_alloc.alloc_Some [OF assms t]
    by (simp add: alloc_frame_eq)
qed

lemma mark_used_below: "phys < PHYS_BASE \<Longrightarrow> mark_used f phys = f"
  by (simp add: mark_used_def page_index_def)

lemma reserve_loop_below:
  "kernel_end \<le> PHYS_BASE \<Longrightarrow> reserve_loop kernel_start kernel_end addr f = f"
proof (induction kernel_start kernel_end addr f rule: reserve_loop.induct)
  case (1 s e a f)
  then show ?case
    by (subst reserve_loop.simps) (auto simp: mark_used_below Let_def)
qed

text \<open>\<open>init\<close> leaves every managed frame free: its reservation loop runs over the megabytes
  below \<open>PHYS_BASE\<close>, none of which the map covers.\<close>

lemma bit_all_ones: "n < 64 \<Longrightarrow> bit (0xFFFFFFFFFFFFFFFF :: u64) n"
proof -
  have "(0xFFFFFFFFFFFFFFFF :: u64) = - 1" by simp
  then show "n < 64 \<Longrightarrow> ?thesis" by (simp only: bit_minus_1_iff) simp
qed

lemma paging_init_bits:
  "frames_ready (paging_init f)" "i < FRAME_COUNT \<Longrightarrow> test_bit_frame (paging_init f) i"
  using bit_all_ones [of "i mod 64"] word_index [of i]
  by (simp_all add: paging_init_def reserve_loop_below Let_def wf_simps test_bit_frame_eq)
    (simp add: FRAME_COUNT_eq)


lemma paging_init_free: "bit_set (test_bit_frame (paging_init f)) FRAME_COUNT = {..<FRAME_COUNT}"
  by (auto simp: bit_set_def paging_init_bits)

lemma first_frame_after_init: "fst (alloc_frame (paging_init f)) = 0x400000"
proof -
  have "find (test_bit_frame (paging_init f)) [0 ..< FRAME_COUNT] = Some 0"
    by (simp add: find_upt_Some paging_init_bits FRAME_COUNT_eq)
  then show ?thesis
    by (simp add: alloc_frame_eq paging_init_bits PHYS_BASE_def)
qed

theorem alloc_frame_first_fit_witness:
  "fst (alloc_frame (paging_init \<lparr>bitmap = [], initialized = False\<rparr>)) = 0x400000"
proof -
  have "Min {..<FRAME_COUNT} = 0"
    by (rule Min_eqI) (auto simp: FRAME_COUNT_eq)
  moreover have "0 \<in> {..<FRAME_COUNT}" by (simp add: FRAME_COUNT_eq)
  then have "{..<FRAME_COUNT} \<noteq> {}" by blast
  ultimately show ?thesis
    using alloc_frame_first_fit [OF paging_init_bits(1) [of "\<lparr>bitmap = [], initialized = False\<rparr>"]]
    by (simp add: paging_init_free Let_def PHYS_BASE_def split: prod.splits)
qed

text \<open>
  Freeing what was just allocated restores the allocator exactly: \<open>free_frame\<close> applied to
  a non-zero result of \<open>alloc_frame\<close> gives back the state before the allocation, and freeing
  an unaligned address or one outside the managed range changes nothing.
\<close>

theorem free_frame_undoes_alloc:
  assumes "frames_ready f" "alloc_frame f = (a, f')"
  shows "(a \<noteq> 0 \<longrightarrow> free_frame f' a = f)
     \<and> (\<forall>b. b mod PAGE_SIZE \<noteq> 0 \<or> b < PHYS_BASE \<or> PHYS_END \<le> b \<longrightarrow> free_frame f' b = f')"
proof (intro conjI impI allI)
  assume "a \<noteq> 0"
  then obtain i where i: "find (test_bit_frame f) [0 ..< FRAME_COUNT] = Some i"
    and a: "a = PHYS_BASE + i * PAGE_SIZE" "f' = set_bit_frame f i False"
    using assms by (auto simp: alloc_frame_eq split: option.splits)
  then have "i < FRAME_COUNT" "test_bit_frame f i"
    by (auto simp: find_upt_Some)
  moreover have "a mod PAGE_SIZE = 0" by (simp add: a PHYS_BASE_def PAGE_SIZE_def)
  ultimately show "free_frame f' a = f"
    using assms(1) by (simp add: free_frame_def a page_index_addr clear_set_restores frames_ready_def)
qed (auto simp: free_frame_def page_index_def)

theorem free_frame_undoes_alloc_witness:
  "let f = paging_init \<lparr>bitmap = [], initialized = False\<rparr>; (a, f') = alloc_frame f
   in a = 0x400000 \<and> free_frame f' a = f"
proof (cases "alloc_frame (paging_init \<lparr>bitmap = [], initialized = False\<rparr>)")
  case (Pair a f')
  then show ?thesis
    using free_frame_undoes_alloc [OF paging_init_bits(1) Pair]
      first_frame_after_init [of "\<lparr>bitmap = [], initialized = False\<rparr>"]
    by (simp add: Let_def)
qed

section \<open>Counting\<close>

lemma fold_count:
  "distinct xs \<Longrightarrow> fold (\<lambda>i n. if p i then n + 1 else n) xs (k::nat) = k + card {i \<in> set xs. p i}"
proof (induction xs arbitrary: k)
  case Nil
  then show ?case by simp
next
  case (Cons x xs)
  have "{i \<in> set (x # xs). p i} = (if p x then insert x {i \<in> set xs. p i} else {i \<in> set xs. p i})"
    by auto
  then show ?case using Cons by simp
qed

lemma stats_frames_eq:
  "stats_frames f = (let n = card (bit_set (test_bit_frame f) FRAME_COUNT)
                     in (FRAME_COUNT, n, FRAME_COUNT - n))"
  by (simp add: stats_frames_def fold_count bit_set_def Let_def)

text \<open>
  From a fresh map exactly \<open>FRAME_COUNT\<close> allocations in a row succeed, and however many are
  made, the frames handed out are pairwise distinct and \<open>stats\<close> accounts for every frame:
  total, free and used add up, with one used frame per allocation.
\<close>

theorem frames_handed_out_once:
  "((\<exists>is f'. alloc_many frame_take n (paging_init f) = Some (is, f')) \<longleftrightarrow> n \<le> FRAME_COUNT)
   \<and> (\<forall>is f'. alloc_many frame_take n (paging_init f) = Some (is, f') \<longrightarrow>
        length is = n \<and> distinct is \<and> set is \<subseteq> {..<FRAME_COUNT}
        \<and> stats_frames f' = (FRAME_COUNT, FRAME_COUNT - n, n))"
proof (intro conjI allI impI)
  note ready = paging_init_bits(1) [of f]
  have free: "card (bit_set (test_bit_frame (paging_init f)) FRAME_COUNT) = FRAME_COUNT"
    by (simp add: paging_init_free)
  show "(\<exists>is f'. alloc_many frame_take n (paging_init f) = Some (is, f')) \<longleftrightarrow> n \<le> FRAME_COUNT"
    using frame_alloc.alloc_many_complete [OF ready, of n]
      frame_alloc.alloc_many_exhausted [OF ready, of n] free by auto
next
  fix "is" f'
  note ready = paging_init_bits(1) [of f]
  assume a: "alloc_many frame_take n (paging_init f) = Some (is, f')"
  note s = frame_alloc.alloc_many_sound [OF ready a]
  show "length is = n" "distinct is" "set is \<subseteq> {..<FRAME_COUNT}"
    using s by (auto simp: paging_init_free)
  have "card (bit_set (test_bit_frame f') FRAME_COUNT) = FRAME_COUNT - n"
    using s by (simp add: paging_init_free card_Diff_subset distinct_card)
  moreover have "n \<le> FRAME_COUNT"
    using frame_alloc.alloc_many_exhausted [OF ready a] by (simp add: paging_init_free)
  ultimately show "stats_frames f' = (FRAME_COUNT, FRAME_COUNT - n, n)"
    by (simp add: stats_frames_eq)
qed

theorem frames_handed_out_once_witness:
  "\<exists>is f'. alloc_many frame_take 2 (paging_init \<lparr>bitmap = [], initialized = False\<rparr>) = Some (is, f')
     \<and> distinct is \<and> stats_frames f' = (261120, 261118, 2)"
  using frames_handed_out_once [of 2 "\<lparr>bitmap = [], initialized = False\<rparr>"]
  by (auto simp: FRAME_COUNT_eq)

section \<open>Concurrent callers\<close>

text \<open>
  The bitmap is a static array of atomics and \<open>alloc_frame\<close> takes no lock, so several callers
  may be inside it at once (a task and the interrupt handler that preempts it). A caller is
  idle, about to run iteration \<open>i\<close> of the loop, or holds frame \<open>i\<close>; each step is one atomic
  access of the code by one caller.
\<close>

datatype caller = Idle | Scanning nat | Holding nat

record frame_sys =
  shared :: frames
  callers :: "nat \<Rightarrow> caller"

inductive frame_step :: "frame_sys \<Rightarrow> frame_sys \<Rightarrow> bool" where
  enter: "callers s t = Idle \<Longrightarrow> initialized (shared s) \<Longrightarrow>
     frame_step s (s\<lparr>callers := (callers s)(t := Scanning 0)\<rparr>)"
| win: "callers s t = Scanning i \<Longrightarrow> i < FRAME_COUNT \<Longrightarrow> claim_bit (shared s) i = (True, f') \<Longrightarrow>
     frame_step s (s\<lparr>shared := f', callers := (callers s)(t := Holding i)\<rparr>)"
| miss: "callers s t = Scanning i \<Longrightarrow> i < FRAME_COUNT \<Longrightarrow> claim_bit (shared s) i = (False, f') \<Longrightarrow>
     frame_step s (s\<lparr>shared := f', callers := (callers s)(t := Scanning (i + 1))\<rparr>)"
| give_up: "callers s t = Scanning i \<Longrightarrow> \<not> i < FRAME_COUNT \<Longrightarrow>
     frame_step s (s\<lparr>callers := (callers s)(t := Idle)\<rparr>)"
| release: "callers s t = Holding i \<Longrightarrow>
     frame_step s (s\<lparr>shared := free_frame (shared s) (PHYS_BASE + i * PAGE_SIZE),
                     callers := (callers s)(t := Idle)\<rparr>)"

inductive frame_reach :: "frames \<Rightarrow> frame_sys \<Rightarrow> bool" for f0 :: frames where
  start: "frame_reach f0 \<lparr>shared = f0, callers = (\<lambda>_. Idle)\<rparr>"
| step: "frame_reach f0 s \<Longrightarrow> frame_step s t \<Longrightarrow> frame_reach f0 t"

inductive_cases frame_stepE: "frame_step s t"

definition frame_sys_inv :: "frame_sys \<Rightarrow> bool" where
  "frame_sys_inv s \<longleftrightarrow> frames_ok (shared s)
     \<and> (\<forall>t i. callers s t = Holding i \<longrightarrow> i < FRAME_COUNT \<and> \<not> test_bit_frame (shared s) i)
     \<and> (\<forall>t u i. callers s t = Holding i \<longrightarrow> callers s u = Holding i \<longrightarrow> t = u)"

lemma free_frame_addr:
  "i < FRAME_COUNT \<Longrightarrow> free_frame f (PHYS_BASE + i * PAGE_SIZE) = set_bit_frame f i True"
proof -
  assume "i < FRAME_COUNT"
  moreover have "(PHYS_BASE + i * PAGE_SIZE) mod PAGE_SIZE = 0"
    by (simp add: PHYS_BASE_def PAGE_SIZE_def)
  ultimately show ?thesis by (simp add: free_frame_def page_index_addr)
qed

lemma frame_step_inv: "frame_step s s' \<Longrightarrow> frame_sys_inv s \<Longrightarrow> frame_sys_inv s'"
proof (induction rule: frame_step.induct)
  case (win s t i f')
  then have "test_bit_frame (shared s) i" "f' = set_bit_frame (shared s) i False"
    by (auto simp: claim_bit_eq frame_sys_inv_def)
  with win show ?case
    by (auto simp: frame_sys_inv_def test_set_bit_frame split: if_splits)
next
  case (miss s t i f')
  then have "f' = shared s"
    by (auto simp: claim_bit_eq frame_sys_inv_def set_clear_noop)
  with miss show ?case by (auto simp: frame_sys_inv_def)
next
  case (release s t i)
  then have "i < FRAME_COUNT" "\<And>u. u \<noteq> t \<Longrightarrow> callers s u \<noteq> Holding i"
    by (auto simp: frame_sys_inv_def)
  with release show ?case
    by (auto simp: frame_sys_inv_def free_frame_addr test_set_bit_frame)
qed (auto simp: frame_sys_inv_def)

lemma frame_reach_inv: "frame_reach f0 s \<Longrightarrow> frames_ok f0 \<Longrightarrow> frame_sys_inv s"
  by (induction rule: frame_reach.induct) (auto simp: frame_sys_inv_def dest: frame_step_inv)

text \<open>
  C5. No interleaving of concurrent allocations and releases ever lets two callers hold the
  same frame, and a held frame is marked used in the map.
\<close>

theorem concurrent_frames_exclusive:
  assumes "frames_ok f0" "frame_reach f0 s" "callers s t = Holding i"
  shows "(callers s u = Holding i \<longrightarrow> u = t) \<and> \<not> test_bit_frame (shared s) i"
  using frame_reach_inv [OF assms(2,1)] assms(3) by (auto simp: frame_sys_inv_def)

lemma frame_race_reachable:
  assumes "frames_ready f0" "test_bit_frame f0 0"
  shows "frame_reach f0 \<lparr>shared = set_bit_frame f0 0 False,
           callers = (\<lambda>_. Idle)(0 := Scanning 0, 1 := Holding 0)\<rparr>"
proof -
  let ?s0 = "\<lparr>shared = f0, callers = (\<lambda>_. Idle)\<rparr>"
  let ?s1 = "\<lparr>shared = f0, callers = (\<lambda>_. Idle)(0 := Scanning 0)\<rparr>"
  let ?s2 = "\<lparr>shared = f0, callers = (\<lambda>_. Idle)(0 := Scanning 0, 1 := Scanning 0)\<rparr>"
  have z: "0 < FRAME_COUNT" by (simp add: FRAME_COUNT_eq)
  have st1: "frame_step ?s0 ?s1"
    using frame_step.enter [of ?s0 0] assms by (simp add: frames_ready_def)
  have st2: "frame_step ?s1 ?s2"
    using frame_step.enter [of ?s1 1] assms by (simp add: frames_ready_def)
  have st3: "frame_step ?s2 \<lparr>shared = set_bit_frame f0 0 False,
       callers = (\<lambda>_. Idle)(0 := Scanning 0, 1 := Scanning 0, 1 := Holding 0)\<rparr>"
    using frame_step.win [of ?s2 1 0 "set_bit_frame f0 0 False"] assms z
    by (simp add: claim_bit_eq frames_ready_def)
  show ?thesis
    using frame_reach.step [OF frame_reach.step [OF frame_reach.step
        [OF frame_reach.start st1] st2] st3] by simp
qed

theorem concurrent_frames_exclusive_witness:
  "let f0 = paging_init \<lparr>bitmap = [], initialized = False\<rparr>;
       s = \<lparr>shared = set_bit_frame f0 0 False,
            callers = (\<lambda>_. Idle)(0 := Scanning 0, 1 := Holding 0)\<rparr>
   in frame_reach f0 s \<and> callers s 1 = Holding 0 \<and> \<not> test_bit_frame (shared s) 0"
proof -
  let ?f = "paging_init \<lparr>bitmap = [], initialized = False\<rparr>"
  have "frames_ready ?f" "test_bit_frame ?f 0"
    by (simp_all add: paging_init_bits FRAME_COUNT_eq)
  note r = frame_race_reachable [OF this]
  show ?thesis
    using concurrent_frames_exclusive [OF _ r, of 1 0] r paging_init_bits(1)
    by (simp add: frames_ready_def)
qed

end
