(* ===== verification/BucketAlloc.thy ===== *)
theory BucketAlloc
  imports Interfaces
begin

text \<open>
  The kernel heap of \<^verbatim>\<open>src/memory/bucket_allocator.rs\<close> and the two entry points of
  \<^verbatim>\<open>src/memory/mod.rs\<close>: nine buckets of fixed-size blocks with intrusive free lists, and
  an address-ordered list of large free regions with first fit and coalescing. The lists are
  threaded through the free memory itself, so the model has an explicit store: one map per
  field of \<open>FreeNode\<close> and \<open>LargeNode\<close>, from the address of the node. Pointers are addresses
  (\<open>nat\<close> below \<open>2 ^ 64\<close>), \<open>Option<NonNull<_>>\<close> is \<open>nat option\<close>. The two list-walking loops
  are \<open>partial_function\<close>s: not returning is \<open>None\<close>, and the lemmas show that they return.
  \<open>fl_alloc\<close> and \<open>fl_free\<close> are the specification on the list of free regions; the pointer
  code is shown to refine them.
\<close>

section \<open>State\<close>

definition BUCKET_SIZES :: "nat list" where
  "BUCKET_SIZES = [8, 16, 32, 64, 128, 256, 512, 1024, 2048]"

definition BLOCKS_PER_BUCKET :: nat where "BLOCKS_PER_BUCKET = 256"

definition HEAP_SIZE :: nat where "HEAP_SIZE = 2 * 1024 * 1024"

text \<open>\<open>size_of::<LargeNode>()\<close>: a \<open>usize\<close> and a pointer with a niche.\<close>

definition LARGE_NODE :: nat where "LARGE_NODE = 16"

record store =
  free_next :: "nat \<Rightarrow> nat option"
  large_size :: "nat \<Rightarrow> nat"
  large_next :: "nat \<Rightarrow> nat option"

record bucket =
  block_size :: nat
  free_list :: "nat option"
  total_blocks :: nat
  free_blocks :: nat

record balloc =
  buckets :: "bucket list"
  large_head :: "nat option"
  used :: nat
  heap_start :: nat
  heap_end :: nat
  mem :: store

definition non_null :: "nat \<Rightarrow> nat option" where
  "non_null p = (if p = 0 then None else Some p)"

section \<open>One bucket\<close>

definition bucket_new :: "nat \<Rightarrow> bucket" where
  "bucket_new bs = \<lparr>block_size = bs, free_list = None, total_blocks = 0, free_blocks = 0\<rparr>"

fun thread_blocks :: "nat \<Rightarrow> nat \<Rightarrow> nat list \<Rightarrow> nat \<Rightarrow> store \<Rightarrow> store" where
  "thread_blocks bs count [] current st = st"
| "thread_blocks bs count (i # is) current st =
     thread_blocks bs count is (current + bs)
       (st\<lparr>free_next := (free_next st)(current :=
             (if i < count - 1 then non_null (current + bs) else None))\<rparr>)"

definition bucket_init :: "bucket \<Rightarrow> nat \<Rightarrow> nat \<Rightarrow> store \<Rightarrow> bucket \<times> store" where
  "bucket_init b start sz st =
     (let block_count = sz div block_size b in
      (b\<lparr>total_blocks := block_count, free_blocks := block_count, free_list := non_null start\<rparr>,
       thread_blocks (block_size b) block_count [0 ..< block_count] start st))"

definition bucket_alloc :: "bucket \<Rightarrow> store \<Rightarrow> nat option \<times> bucket" where
  "bucket_alloc b st =
     (case free_list b of
        Some node \<Rightarrow>
          (Some node, b\<lparr>free_list := free_next st node, free_blocks := free_blocks b - 1\<rparr>)
      | None \<Rightarrow> (None, b))"

definition bucket_dealloc :: "bucket \<Rightarrow> nat \<Rightarrow> store \<Rightarrow> bucket \<times> store" where
  "bucket_dealloc b ptr st =
     (b\<lparr>free_list := non_null ptr, free_blocks := free_blocks b + 1\<rparr>,
      st\<lparr>free_next := (free_next st)(ptr := free_list b)\<rparr>)"

section \<open>The allocator\<close>

definition empty_store :: store where
  "empty_store = \<lparr>free_next = (\<lambda>_. None), large_size = (\<lambda>_. 0), large_next = (\<lambda>_. None)\<rparr>"

definition balloc_new :: balloc where
  "balloc_new = \<lparr>buckets = replicate (length BUCKET_SIZES) (bucket_new 0), large_head = None,
     used = 0, heap_start = 0, heap_end = 0, mem = empty_store\<rparr>"

text \<open>The loop of \<open>init\<close> carves the buckets from the front of the heap.\<close>

fun carve :: "nat list \<Rightarrow> nat \<Rightarrow> nat \<Rightarrow> balloc \<Rightarrow> nat \<times> nat \<times> balloc" where
  "carve [] current remaining a = (current, remaining, a)"
| "carve (i # is) current remaining a =
     (let bs = BUCKET_SIZES ! i;
          b = (buckets a ! i)\<lparr>block_size := bs\<rparr>;
          a1 = a\<lparr>buckets := (buckets a)[i := b]\<rparr>;
          bucket_size = bs * BLOCKS_PER_BUCKET in
      if remaining < bucket_size then (current, remaining, a1)
      else case bucket_init b current bucket_size (mem a1) of (b', st) \<Rightarrow>
        carve is (current + bucket_size) (remaining - bucket_size)
          (a1\<lparr>buckets := (buckets a1)[i := b'], mem := st\<rparr>))"

definition balloc_init :: "balloc \<Rightarrow> nat \<Rightarrow> nat \<Rightarrow> balloc" where
  "balloc_init a start sz =
     (case carve [0 ..< length BUCKET_SIZES] start sz
             (a\<lparr>heap_start := start, heap_end := start + sz\<rparr>) of
        (current, remaining, a1) \<Rightarrow>
          if remaining > LARGE_NODE then
            a1\<lparr>mem := (mem a1)\<lparr>large_size := (large_size (mem a1))(current := remaining),
                               large_next := (large_next (mem a1))(current := None)\<rparr>,
               large_head := non_null current\<rparr>
          else a1)"

definition bucket_index :: "nat \<Rightarrow> nat option" where
  "bucket_index sz = find (\<lambda>i. sz \<le> BUCKET_SIZES ! i) [0 ..< length BUCKET_SIZES]"

definition align_up :: "nat \<Rightarrow> nat \<Rightarrow> nat" where
  "align_up addr align =
     unat ((word_of_nat addr + word_of_nat align - 1 :: u64) AND NOT (word_of_nat align - 1))"

definition checked_add_usize :: "nat \<Rightarrow> nat \<Rightarrow> nat option" where
  "checked_add_usize a b = (if a + b < 2 ^ 64 then Some (a + b) else None)"

definition end_addr :: "balloc \<Rightarrow> nat \<Rightarrow> nat" where
  "end_addr a node = node + large_size (mem a) node"

text \<open>\<open>cursor\<close> of \<open>alloc_large\<close> points at the \<open>next\<close> field that leads to the current node:
  the head's or that of a node.\<close>

datatype link = HeadLink | NextOf nat

fun read_link :: "balloc \<Rightarrow> link \<Rightarrow> nat option" where
  "read_link a HeadLink = large_head a"
| "read_link a (NextOf p) = large_next (mem a) p"

fun write_link :: "balloc \<Rightarrow> link \<Rightarrow> nat option \<Rightarrow> balloc" where
  "write_link a HeadLink v = a\<lparr>large_head := v\<rparr>"
| "write_link a (NextOf p) v = a\<lparr>mem := (mem a)\<lparr>large_next := (large_next (mem a))(p := v)\<rparr>\<rparr>"

definition set_large_size :: "balloc \<Rightarrow> nat \<Rightarrow> nat \<Rightarrow> balloc" where
  "set_large_size a p n = a\<lparr>mem := (mem a)\<lparr>large_size := (large_size (mem a))(p := n)\<rparr>\<rparr>"

text \<open>The body of the loop once a region fits; \<open>take\<close> reads a \<open>next\<close> field and clears it.\<close>

definition carve_region :: "balloc \<Rightarrow> link \<Rightarrow> nat \<Rightarrow> nat \<Rightarrow> nat \<Rightarrow> nat \<Rightarrow> balloc" where
  "carve_region a cursor region alloc_start alloc_end sz =
     (let a = a\<lparr>used := used a + sz\<rparr>;
          excess = end_addr a region - alloc_end;
          region_next = large_next (mem a) region in
      if excess \<ge> LARGE_NODE then
        let leftover = alloc_end;
            a = set_large_size a leftover excess in
        if alloc_start = region then
          let a = write_link a (NextOf region) None;
              a = write_link a (NextOf leftover) region_next
          in write_link a cursor (non_null leftover)
        else
          let a = set_large_size a region (alloc_start - region);
              a = write_link a (NextOf region) None;
              a = write_link a (NextOf leftover) region_next
          in write_link a (NextOf region) (non_null leftover)
      else
        let a = write_link a (NextOf region) None
        in write_link a cursor region_next)"

partial_function (option) alloc_large_loop ::
  "nat \<Rightarrow> nat \<Rightarrow> balloc \<Rightarrow> link \<Rightarrow> (nat option \<times> balloc) option" where
  "alloc_large_loop sz align a cursor =
     (case read_link a cursor of
        None \<Rightarrow> Some (None, a)
      | Some region \<Rightarrow>
          (case checked_add_usize (align_up region align) sz of
             None \<Rightarrow> Some (None, a)
           | Some alloc_end \<Rightarrow>
               if alloc_end \<le> end_addr a region then
                 Some (non_null (align_up region align),
                       carve_region a cursor region (align_up region align) alloc_end sz)
               else alloc_large_loop sz align a (NextOf region)))"

definition alloc_large :: "balloc \<Rightarrow> nat \<Rightarrow> nat \<Rightarrow> (nat option \<times> balloc) option" where
  "alloc_large a sz align = alloc_large_loop sz align a HeadLink"

definition balloc_alloc :: "balloc \<Rightarrow> nat \<Rightarrow> nat \<Rightarrow> (nat option \<times> balloc) option" where
  "balloc_alloc a layout_size layout_align =
     (let sz = max layout_size 8; align = max layout_align 8 in
      case bucket_index sz of
        Some idx \<Rightarrow>
          let bucket_size = block_size (buckets a ! idx) in
          if bucket_size \<ge> align then
            (case bucket_alloc (buckets a ! idx) (mem a) of
               (Some ptr, b) \<Rightarrow>
                 Some (Some ptr, a\<lparr>buckets := (buckets a)[idx := b], used := used a + bucket_size\<rparr>)
             | (None, b) \<Rightarrow> alloc_large a sz align)
          else alloc_large a sz align
      | None \<Rightarrow> alloc_large a sz align)"

text \<open>The insertion point of \<open>dealloc_large\<close> once \<open>addr < curr_addr\<close>: merge with the region
  before (and then with the one after), or with the one after, or link in between.\<close>

definition prev_link :: "nat option \<Rightarrow> link" where
  "prev_link prev = (case prev of Some p \<Rightarrow> NextOf p | None \<Rightarrow> HeadLink)"

definition insert_region :: "balloc \<Rightarrow> nat \<Rightarrow> nat \<Rightarrow> nat option \<Rightarrow> nat option \<Rightarrow> balloc" where
  "insert_region a addr sz prev cur =
     (if (case prev of Some p \<Rightarrow> p + large_size (mem a) p = addr | None \<Rightarrow> False) then
        let p = the prev;
            a = set_large_size a p (large_size (mem a) p + sz) in
        (case cur of
           Some c \<Rightarrow>
             if end_addr a p = c then
               let a = set_large_size a p (large_size (mem a) p + large_size (mem a) c);
                   c_next = large_next (mem a) c;
                   a = write_link a (NextOf c) None
               in write_link a (NextOf p) c_next
             else a
         | None \<Rightarrow> a)
      else if (case cur of Some c \<Rightarrow> addr + sz = c | None \<Rightarrow> False) then
        let c = the cur;
            curr_next = large_next (mem a) c;
            a = write_link a (NextOf c) None;
            curr_size = large_size (mem a) c;
            a = set_large_size a addr (sz + curr_size);
            a = write_link a (NextOf addr) curr_next
        in write_link a (prev_link prev) (non_null addr)
      else
        let a = write_link a (NextOf addr) cur
        in write_link a (prev_link prev) (non_null addr))"

definition USIZE_MAX :: nat where "USIZE_MAX = 2 ^ 64 - 1"

partial_function (option) dealloc_large_loop ::
  "nat \<Rightarrow> nat \<Rightarrow> balloc \<Rightarrow> nat option \<Rightarrow> nat option \<Rightarrow> balloc option" where
  "dealloc_large_loop addr sz a prev cur =
     (let curr_addr = (case cur of Some c \<Rightarrow> c | None \<Rightarrow> USIZE_MAX) in
      if addr < curr_addr then Some (insert_region a addr sz prev cur)
      else if addr = curr_addr then Some a
      else dealloc_large_loop addr sz a cur
             (case cur of Some c \<Rightarrow> large_next (mem a) c | None \<Rightarrow> None))"

definition dealloc_large :: "balloc \<Rightarrow> nat \<Rightarrow> nat \<Rightarrow> balloc option" where
  "dealloc_large a addr sz =
     (if addr < heap_start a
         \<or> (case checked_add_usize addr sz of None \<Rightarrow> True | Some e \<Rightarrow> e > heap_end a)
      then Some a
      else let a = a\<lparr>used := used a - sz\<rparr>; a = set_large_size a addr sz
           in dealloc_large_loop addr sz a None (large_head a))"

definition balloc_dealloc :: "balloc \<Rightarrow> nat \<Rightarrow> nat \<Rightarrow> balloc option" where
  "balloc_dealloc a ptr layout_size =
     (let sz = max layout_size 8 in
      case bucket_index sz of
        Some idx \<Rightarrow>
          let bucket_size = block_size (buckets a ! idx) in
          (case bucket_dealloc (buckets a ! idx) ptr (mem a) of
             (b, st) \<Rightarrow>
               Some (a\<lparr>used := used a - bucket_size, buckets := (buckets a)[idx := b], mem := st\<rparr>))
      | None \<Rightarrow> dealloc_large a ptr sz)"

text \<open>The global allocator of \<^verbatim>\<open>memory/mod.rs\<close>: a null result is 0, a null argument of
  \<open>dealloc\<close> is ignored.\<close>

definition global_alloc :: "balloc \<Rightarrow> nat \<Rightarrow> nat \<Rightarrow> (nat \<times> balloc) option" where
  "global_alloc a sz align =
     map_option (\<lambda>(r, a'). (case r of Some p \<Rightarrow> p | None \<Rightarrow> 0, a')) (balloc_alloc a sz align)"

definition global_dealloc :: "balloc \<Rightarrow> nat \<Rightarrow> nat \<Rightarrow> balloc option" where
  "global_dealloc a ptr sz =
     (case non_null ptr of Some p \<Rightarrow> balloc_dealloc a p sz | None \<Rightarrow> Some a)"

definition init_heap :: "nat \<Rightarrow> balloc" where
  "init_heap start = balloc_init balloc_new start HEAP_SIZE"

definition heap_stats :: "balloc \<Rightarrow> nat \<times> nat" where
  "heap_stats a = (used a, HEAP_SIZE - used a)"

text \<open>The lines \<open>dump_stats\<close> prints: block size, blocks in use, blocks in all.\<close>

definition bucket_stats :: "balloc \<Rightarrow> (nat \<times> nat \<times> nat) list" where
  "bucket_stats a =
     [(block_size b, (total_blocks b + 2 ^ 64 - free_blocks b) mod 2 ^ 64, total_blocks b).
      b \<leftarrow> buckets a, total_blocks b > 0]"

section \<open>Linked lists in the store\<close>

fun seg :: "(nat \<Rightarrow> nat option) \<Rightarrow> nat option \<Rightarrow> nat list \<Rightarrow> nat option \<Rightarrow> bool" where
  "seg nx h [] q \<longleftrightarrow> h = q"
| "seg nx h (x # xs) q \<longleftrightarrow> h = Some x \<and> seg nx (nx x) xs q"

lemma seg_append [simp]: "seg nx h (xs @ ys) q \<longleftrightarrow> (\<exists>r. seg nx h xs r \<and> seg nx r ys q)"
  by (induction xs arbitrary: h) auto

lemma seg_upd [simp]: "x \<notin> set xs \<Longrightarrow> seg (nx(x := v)) h xs q \<longleftrightarrow> seg nx h xs q"
  by (induction xs arbitrary: h) auto

definition link_of :: "nat list \<Rightarrow> link" where
  "link_of xs = (if xs = [] then HeadLink else NextOf (last xs))"

definition chain :: "balloc \<Rightarrow> nat list \<Rightarrow> nat option \<Rightarrow> bool" where
  "chain a xs q \<longleftrightarrow> seg (large_next (mem a)) (large_head a) xs q"

lemma read_link_of: "chain a xs q \<Longrightarrow> read_link a (link_of xs) = q"
  by (cases xs rule: rev_cases) (auto simp: chain_def link_of_def)

lemma chain_write_link:
  "chain a xs q \<Longrightarrow> distinct xs \<Longrightarrow> chain (write_link a (link_of xs) v) xs v"
  by (cases xs rule: rev_cases) (auto simp: chain_def link_of_def)

lemma chain_append: "chain a (xs @ ys) q \<longleftrightarrow> (\<exists>r. chain a xs r \<and> seg (large_next (mem a)) r ys q)"
  by (simp add: chain_def)

lemma chain_write_next [simp]:
  "x \<notin> set xs \<Longrightarrow> chain (write_link a (NextOf x) v) xs q \<longleftrightarrow> chain a xs q"
  by (simp add: chain_def)

lemma chain_set_size [simp]: "chain (set_large_size a p n) xs q \<longleftrightarrow> chain a xs q"
  by (simp add: chain_def set_large_size_def)

lemma seg_write_link:
  "set xs \<inter> set ys = {} \<Longrightarrow>
   seg (large_next (mem (write_link a (link_of xs) v))) r ys q \<longleftrightarrow> seg (large_next (mem a)) r ys q"
  by (cases xs rule: rev_cases) (auto simp: link_of_def)

lemma large_size_write_link [simp]: "large_size (mem (write_link a l v)) = large_size (mem a)"
  by (cases l) simp_all

lemma large_next_set_size [simp]: "large_next (mem (set_large_size a p n)) = large_next (mem a)"
  by (simp add: set_large_size_def)

lemma large_size_set_size [simp]:
  "large_size (mem (set_large_size a p n)) = (large_size (mem a))(p := n)"
  by (simp add: set_large_size_def)

lemma large_head_set_size [simp]: "large_head (set_large_size a p n) = large_head a"
  by (simp add: set_large_size_def)

lemma large_next_write_next [simp]:
  "large_next (mem (write_link a (NextOf x) v)) = (large_next (mem a))(x := v)"
  by simp

lemma large_head_write_next [simp]: "large_head (write_link a (NextOf x) v) = large_head a"
  by simp

text \<open>What the list operations leave alone: buckets, their free lists, the heap bounds.\<close>

definition same_frame :: "balloc \<Rightarrow> balloc \<Rightarrow> bool" where
  "same_frame a b \<longleftrightarrow> buckets a = buckets b \<and> free_next (mem a) = free_next (mem b)
     \<and> heap_start a = heap_start b \<and> heap_end a = heap_end b"

lemma same_frame_refl [simp]: "same_frame a a"
  by (simp add: same_frame_def)

lemma same_frame_write_link [simp]: "same_frame (write_link a l v) b \<longleftrightarrow> same_frame a b"
  by (cases l) (simp_all add: same_frame_def)

lemma same_frame_set_size [simp]: "same_frame (set_large_size a p n) b \<longleftrightarrow> same_frame a b"
  by (simp add: same_frame_def set_large_size_def)

lemma same_frame_used [simp]: "same_frame (a\<lparr>used := u\<rparr>) b \<longleftrightarrow> same_frame a b"
    "same_frame b (a\<lparr>used := u\<rparr>) \<longleftrightarrow> same_frame b a"
    "same_frame b (set_large_size a p n) \<longleftrightarrow> same_frame b a"
  by (simp_all add: same_frame_def set_large_size_def)

lemma used_write_link [simp]: "used (write_link a l v) = used a"
  by (cases l) simp_all

lemma used_set_size [simp]: "used (set_large_size a p n) = used a"
  by (simp add: set_large_size_def)

lemma used_upd_simps [simp]:
  "chain (a\<lparr>used := u\<rparr>) xs q \<longleftrightarrow> chain a xs q" "end_addr (a\<lparr>used := u\<rparr>) p = end_addr a p"
  by (simp_all add: chain_def end_addr_def)

declare write_link.simps [simp del]

section \<open>The specification on the list of free regions\<close>

fun fl_alloc :: "nat \<Rightarrow> nat \<Rightarrow> (nat \<times> nat) list \<Rightarrow> (nat \<times> (nat \<times> nat) list) option" where
  "fl_alloc sz al [] = None"
| "fl_alloc sz al ((s, n) # rs) =
     (let p = align_up s al; e = p + sz in
      if 2 ^ 64 \<le> e then None
      else if e \<le> s + n then
        Some (p, if LARGE_NODE \<le> s + n - e
                 then (if p = s then [] else [(s, p - s)]) @ (e, s + n - e) # rs
                 else rs)
      else map_option (\<lambda>(q, rs'). (q, (s, n) # rs')) (fl_alloc sz al rs))"

fun glue :: "nat \<times> nat \<Rightarrow> (nat \<times> nat) list \<Rightarrow> (nat \<times> nat) list" where
  "glue x [] = [x]"
| "glue (s, n) ((t, k) # rs) = (if s + n = t then (s, n + k) # rs else (s, n) # (t, k) # rs)"

fun fl_free :: "nat \<Rightarrow> nat \<Rightarrow> (nat \<times> nat) list \<Rightarrow> (nat \<times> nat) list" where
  "fl_free addr sz [] = [(addr, sz)]"
| "fl_free addr sz ((s, n) # rs) =
     (if addr < s then glue (addr, sz) ((s, n) # rs)
      else if s + n = addr then glue (s, n + sz) rs
      else (s, n) # fl_free addr sz rs)"

definition separated :: "(nat \<times> nat) list \<Rightarrow> bool" where
  "separated rs \<longleftrightarrow> sorted_wrt (\<lambda>(s, n) (t, k). s + n < t) rs \<and> (\<forall>(s, n) \<in> set rs. LARGE_NODE \<le> n)"

definition sized :: "(nat \<Rightarrow> nat) \<Rightarrow> (nat \<times> nat) list \<Rightarrow> bool" where
  "sized f rs \<longleftrightarrow> (\<forall>(s, n) \<in> set rs. f s = n)"

lemma sized_simps [simp]:
  "sized f []" "sized f ((s, n) # rs) \<longleftrightarrow> f s = n \<and> sized f rs"
  "sized f (xs @ ys) \<longleftrightarrow> sized f xs \<and> sized f ys"
  by (simp_all add: sized_def ball_Un)

lemma sized_upd [simp]: "x \<notin> fst ` set rs \<Longrightarrow> sized (f(x := v)) rs \<longleftrightarrow> sized f rs"
  by (force simp: sized_def)

definition regions :: "balloc \<Rightarrow> (nat \<times> nat) list \<Rightarrow> bool" where
  "regions a rs \<longleftrightarrow> chain a (map fst rs) None \<and> 0 \<notin> set (map fst rs)
     \<and> sized (large_size (mem a)) rs"

lemma separated_distinct: "separated rs \<Longrightarrow> distinct (map fst rs)"
proof (induction rs)
  case Nil
  then show ?case by simp
next
  case (Cons r rs)
  then show ?case by (cases r) (fastforce simp: separated_def)
qed

lemma separated_Cons:
  "separated ((s, n) # rs) \<longleftrightarrow> LARGE_NODE \<le> n \<and> (\<forall>(t, k) \<in> set rs. s + n < t) \<and> separated rs"
  by (auto simp: separated_def)

lemma separated_append:
  "separated (xs @ ys) \<longleftrightarrow> separated xs \<and> separated ys
     \<and> (\<forall>(s, n) \<in> set xs. \<forall>(t, k) \<in> set ys. s + n < t)"
  by (auto simp: separated_def sorted_wrt_append)

section \<open>The pointer code refines the specification\<close>

lemma regions_split:
  assumes "regions a (pre @ (s, n) # rs)" "separated (pre @ (s, n) # rs)"
  shows "chain a (map fst pre) (Some s)" "seg (large_next (mem a)) (large_next (mem a) s) (map fst rs) None"
    "s \<notin> set (map fst pre)" "s \<notin> set (map fst rs)" "set (map fst pre) \<inter> set (map fst rs) = {}"
    "distinct (map fst pre)" "distinct (map fst rs)" "large_size (mem a) s = n" "s \<noteq> 0"
  using assms separated_distinct [OF assms(2)] by (auto simp: regions_def chain_append)

lemma inside_not_start:
  assumes "separated (pre @ (s, n) # rs)" "s < e" "e < s + n"
  shows "e \<notin> set (map fst (pre @ (s, n) # rs))"
  using assms by (fastforce simp: separated_append separated_Cons)

lemma carve_region_regions:
  fixes pre rs
  defines "cur \<equiv> link_of (map fst pre)"
  assumes reg: "regions a (pre @ (s, n) # rs)" and sep: "separated (pre @ (s, n) # rs)"
    and p: "s \<le> p" "0 < sz" "e = p + sz" "e \<le> s + n"
  shows "regions (carve_region a cur s p e sz)
     (pre @ (if LARGE_NODE \<le> s + n - e
             then (if p = s then [] else [(s, p - s)]) @ (e, s + n - e) # rs else rs))"
    and "used (carve_region a cur s p e sz) = used a + sz"
    and "same_frame (carve_region a cur s p e sz) a"
proof -
  note f = regions_split [OF reg sep]
  have sizes: "sized (large_size (mem a)) (pre @ rs)" and nz: "0 \<notin> set (map fst (pre @ rs))"
    using reg by (auto simp: regions_def)
  let ?nx = "large_next (mem a)"
  show "regions (carve_region a cur s p e sz)
     (pre @ (if LARGE_NODE \<le> s + n - e
             then (if p = s then [] else [(s, p - s)]) @ (e, s + n - e) # rs else rs))"
  proof (cases "LARGE_NODE \<le> s + n - e")
    case False
    define b where "b = write_link (a\<lparr>used := used a + sz\<rparr>) (NextOf s) None"
    have c: "carve_region a cur s p e sz = write_link b cur (?nx s)"
      using False f(8) by (simp add: carve_region_def b_def Let_def end_addr_def)
    have "chain b (map fst pre) (Some s)" using f by (simp add: b_def)
    then have "chain (write_link b cur (?nx s)) (map fst pre) (?nx s)"
      using f(6) unfolding cur_def by (rule chain_write_link)
    moreover have "seg (large_next (mem (write_link b cur (?nx s)))) (?nx s) (map fst rs) None"
      unfolding cur_def using f by (subst seg_write_link) (auto simp: b_def)
    ultimately show ?thesis
      unfolding c using False sizes nz by (auto simp: regions_def chain_append b_def)
  next
    case True
    have "s < e" "e < s + n" using True p by (auto simp: LARGE_NODE_def)
    note e = inside_not_start [OF sep this]
    show ?thesis
    proof (cases "p = s")
      case eq: True
      define b where "b = write_link (write_link (set_large_size (a\<lparr>used := used a + sz\<rparr>) e (s + n - e))
          (NextOf s) None) (NextOf e) (?nx s)"
      have c: "carve_region a cur s p e sz = write_link b cur (Some e)"
        using True eq f(8) p by (simp add: carve_region_def b_def Let_def end_addr_def non_null_def)
      have "chain b (map fst pre) (Some s)" using f e by (simp add: b_def)
      then have "chain (write_link b cur (Some e)) (map fst pre) (Some e)"
        using f(6) unfolding cur_def by (rule chain_write_link)
      moreover have "seg (large_next (mem (write_link b cur (Some e)))) (Some e) (e # map fst rs) None"
        unfolding cur_def using f e by (subst seg_write_link) (auto simp: b_def)
      ultimately show ?thesis
        unfolding c using True eq sizes nz e p by (auto simp: regions_def chain_append b_def)
    next
      case neq: False
      define b where "b = write_link (write_link (write_link (set_large_size (set_large_size
          (a\<lparr>used := used a + sz\<rparr>) e (s + n - e)) s (p - s)) (NextOf s) None) (NextOf e) (?nx s))
          (NextOf s) (Some e)"
      have c: "carve_region a cur s p e sz = b"
        using True neq f(8) p by (simp add: carve_region_def b_def Let_def end_addr_def non_null_def)
      show ?thesis
        unfolding c using True neq f sizes nz e p by (auto simp: regions_def chain_append b_def)
    qed
  qed
  show "used (carve_region a cur s p e sz) = used a + sz" "same_frame (carve_region a cur s p e sz) a"
    by (simp_all add: carve_region_def Let_def)
qed

lemma alloc_large_loop_refines:
  assumes "regions a (pre @ post)" "separated (pre @ post)" "0 < sz"
    and "\<forall>(s, n) \<in> set post. s \<le> align_up s al"
  shows "case fl_alloc sz al post of
     None \<Rightarrow> alloc_large_loop sz al a (link_of (map fst pre)) = Some (None, a)
   | Some (p, post') \<Rightarrow> \<exists>a'. alloc_large_loop sz al a (link_of (map fst pre)) = Some (non_null p, a')
        \<and> regions a' (pre @ post') \<and> used a' = used a + sz \<and> same_frame a' a"
  using assms
proof (induction post arbitrary: pre)
  case Nil
  then have "read_link a (link_of (map fst pre)) = None"
    by (intro read_link_of) (simp add: regions_def)
  then show ?case by (simp add: alloc_large_loop.simps)
next
  case (Cons r post)
  obtain s n where r: "r = (s, n)" by fastforce
  note f = regions_split [OF Cons.prems(1,2) [unfolded r]]
  have rd: "read_link a (link_of (map fst pre)) = Some s"
    using f(1) by (rule read_link_of)
  have IH: "case fl_alloc sz al post of
     None \<Rightarrow> alloc_large_loop sz al a (NextOf s) = Some (None, a)
   | Some (p, post') \<Rightarrow> \<exists>a'. alloc_large_loop sz al a (NextOf s) = Some (non_null p, a')
        \<and> regions a' (pre @ (s, n) # post') \<and> used a' = used a + sz \<and> same_frame a' a"
    using Cons.IH [of "pre @ [(s, n)]"] Cons.prems r
    by (simp add: link_of_def split: option.splits prod.splits)
  let ?p = "align_up s al"
  consider "2 ^ 64 \<le> ?p + sz" | "?p + sz < 2 ^ 64" "?p + sz \<le> s + n"
    | "?p + sz < 2 ^ 64" "\<not> ?p + sz \<le> s + n" by linarith
  then show ?case
  proof cases
    case 1
    then show ?thesis
      by (simp add: r alloc_large_loop.simps rd checked_add_usize_def)
  next
    case 2
    then show ?thesis
      using carve_region_regions [of a pre s n post ?p sz "?p + sz"] Cons.prems f(8)
      by (simp add: r alloc_large_loop.simps [of _ _ _ "link_of (map fst pre)"] rd
          checked_add_usize_def Let_def end_addr_def)
  next
    case 3
    then show ?thesis
      using IH f(8)
      by (simp add: r alloc_large_loop.simps [of _ _ _ "link_of (map fst pre)"] rd
          checked_add_usize_def Let_def end_addr_def split: option.splits prod.splits)
  qed
qed

lemma alloc_large_refines:
  assumes "regions a rs" "separated rs" "0 < sz" "\<forall>(s, n) \<in> set rs. s \<le> align_up s al"
  shows "case fl_alloc sz al rs of
     None \<Rightarrow> alloc_large a sz al = Some (None, a)
   | Some (p, rs') \<Rightarrow> \<exists>a'. alloc_large a sz al = Some (non_null p, a')
        \<and> regions a' rs' \<and> used a' = used a + sz \<and> same_frame a' a"
  using alloc_large_loop_refines [of a "[]" rs sz al] assms
  by (simp add: alloc_large_def link_of_def split: option.splits prod.splits)

lemma fl_free_append:
  "\<forall>(s, n) \<in> set xs. s \<le> addr \<and> s + n \<noteq> addr \<Longrightarrow> fl_free addr sz (xs @ ys) = xs @ fl_free addr sz ys"
  by (induction xs) auto

lemma fl_free_before:
  "(\<forall>(s, n) \<in> set rs. addr < s) \<Longrightarrow> fl_free addr sz rs = glue (addr, sz) rs"
  by (cases rs) auto

definition last_start :: "(nat \<times> nat) list \<Rightarrow> nat option" where
  "last_start xs = (if xs = [] then None else Some (fst (last xs)))"

definition first_start :: "(nat \<times> nat) list \<Rightarrow> nat option" where
  "first_start xs = (if xs = [] then None else Some (fst (hd xs)))"

lemma prev_link_last: "prev_link (last_start xs) = link_of (map fst xs)"
  by (cases xs rule: rev_cases) (simp_all add: prev_link_def last_start_def link_of_def)

lemma seg_first_start: "seg nx h (map fst rs) None \<Longrightarrow> first_start rs = h"
  by (cases rs) (auto simp: first_start_def)

lemma link_in_chain:
  assumes "chain a xs q" "distinct xs" "x \<notin> set xs" "set xs \<inter> set ys = {}" "x \<notin> set ys"
    "large_next (mem a) x = r" "seg (large_next (mem a)) r ys None"
  shows "chain (write_link a (link_of xs) (Some x)) (xs @ x # ys) None"
proof -
  have "chain (write_link a (link_of xs) (Some x)) xs (Some x)"
    using assms(1,2) by (rule chain_write_link)
  moreover have "set xs \<inter> set (x # ys) = {}" using assms by auto
  then have "seg (large_next (mem (write_link a (link_of xs) (Some x)))) (Some x) (x # ys) None"
    using assms by (subst seg_write_link) auto
  ultimately show ?thesis by (simp only: chain_append) blast
qed

lemma insert_region_regions:
  assumes reg: "regions a (pre @ post)" and sep: "separated (pre @ post)"
    and lt: "\<forall>(s, n) \<in> set pre. s < addr" and gt: "\<forall>(s, n) \<in> set post. addr < s"
    and sz: "large_size (mem a) addr = sz" and nz: "addr \<noteq> 0"
  shows "regions (insert_region a addr sz (last_start pre) (first_start post)) (fl_free addr sz (pre @ post))"
proof -
  obtain r where ch: "chain a (map fst pre) r" "seg (large_next (mem a)) r (map fst post) None"
    using reg by (auto simp: regions_def chain_append)
  have r: "first_start post = r" using ch(2) by (rule seg_first_start)
  have dist: "distinct (map fst (pre @ post))" using sep by (rule separated_distinct)
  have fresh: "addr \<notin> fst ` set pre" "addr \<notin> fst ` set post" using lt gt by auto
  have szs: "sized (large_size (mem a)) pre" "sized (large_size (mem a)) post"
    and nzs: "0 \<notin> fst ` set pre" "0 \<notin> fst ` set post" using reg by (auto simp: regions_def)
  show ?thesis
  proof (cases "\<exists>pre' p k. pre = pre' @ [(p, k)] \<and> p + k = addr")
    case True
    then obtain pre' p k where pre: "pre = pre' @ [(p, k)]" and pk: "p + k = addr" by blast
    have "\<forall>(s, n) \<in> set pre'. s \<le> addr \<and> s + n \<noteq> addr"
      using sep pk by (auto simp: pre separated_append)
    then have fl: "fl_free addr sz (pre @ post) = pre' @ glue (p, k + sz) post"
      using pk lt by (simp add: pre fl_free_append)
    show ?thesis
    proof (cases post)
      case Nil
      then show ?thesis
        unfolding fl using ch r dist szs nzs pk
        by (simp add: insert_region_def last_start_def first_start_def pre regions_def Let_def)
    next
      case (Cons c post')
      obtain t n where c: "c = (t, n)" by fastforce
      have nx: "large_next (mem a) p = Some t" "chain a (map fst pre') (Some p)"
        "seg (large_next (mem a)) (large_next (mem a) t) (map fst post') None"
        using ch by (auto simp: pre Cons c chain_append)
      have i: "insert_region a addr sz (last_start pre) (first_start post) =
          (let b = set_large_size a p (k + sz) in
           if p + (k + sz) = t
           then write_link (write_link (set_large_size b p (k + sz + n)) (NextOf t) None) (NextOf p)
                  (large_next (mem a) t)
           else b)"
        using dist szs pk by (simp add: insert_region_def last_start_def first_start_def pre Cons c
            Let_def end_addr_def)
      show ?thesis
        unfolding fl i using nx dist szs nzs
        by (auto simp: Cons c regions_def Let_def chain_append pre)
    qed
  next
    case False
    have ne: "\<forall>(s, n) \<in> set pre. s \<le> addr \<and> s + n \<noteq> addr"
    proof (cases pre rule: rev_cases)
      case (snoc pre' x)
      obtain p k where x: "x = (p, k)" by fastforce
      have "p < addr" "p + k \<noteq> addr" using False lt by (auto simp: snoc x)
      moreover have "\<forall>(s, n) \<in> set pre'. s + n < p" using sep by (auto simp: snoc x separated_append)
      ultimately show ?thesis by (auto simp: snoc x)
    qed simp
    then have fl: "fl_free addr sz (pre @ post) = pre @ glue (addr, sz) post"
      using gt by (simp add: fl_free_append fl_free_before)
    have np: "\<not> (case last_start pre of Some p \<Rightarrow> p + large_size (mem a) p = addr | None \<Rightarrow> False)"
      using False szs(1) by (cases pre rule: rev_cases) (auto simp: last_start_def)
    have pl: "prev_link (last_start pre) = link_of (map fst pre)" by (rule prev_link_last)
    have dj: "set (map fst pre) \<inter> set (map fst post) = {}" "distinct (map fst pre)" using dist by auto
    show ?thesis
    proof (cases "\<exists>n post'. post = (addr + sz, n) # post'")
      case True
      then obtain n post' where post: "post = (addr + sz, n) # post'" by blast
      define b where "b = write_link (set_large_size (write_link a (NextOf (addr + sz)) None) addr (sz + n))
         (NextOf addr) (large_next (mem a) (addr + sz))"
      have i: "insert_region a addr sz (last_start pre) (first_start post)
          = write_link b (link_of (map fst pre)) (Some addr)"
        using np szs nz by (simp add: insert_region_def post first_start_def pl b_def Let_def non_null_def)
      have "chain (write_link b (link_of (map fst pre)) (Some addr)) (map fst pre @ addr # map fst post') None"
        using ch dist fresh dj
        by (intro link_in_chain [where q = r and r = "large_next (mem a) (addr + sz)"])
          (auto simp: b_def post)
      then show ?thesis
        unfolding fl i using szs nzs fresh nz dist by (simp add: post regions_def b_def)
    next
      case False
      define b where "b = write_link a (NextOf addr) r"
      have i: "insert_region a addr sz (last_start pre) (first_start post)
          = write_link b (link_of (map fst pre)) (Some addr)"
        using np False nz r
        by (cases post) (auto simp: insert_region_def first_start_def pl b_def Let_def non_null_def)
      have g: "glue (addr, sz) post = (addr, sz) # post"
        using False by (cases post) auto
      have "chain (write_link b (link_of (map fst pre)) (Some addr)) (map fst pre @ addr # map fst post) None"
        using ch dist fresh dj
        by (intro link_in_chain [where q = r and r = r]) (auto simp: b_def)
      then show ?thesis
        unfolding fl i using szs nzs fresh nz sz by (simp add: g regions_def b_def)
    qed
  qed
qed

lemma dealloc_large_loop_refines:
  assumes "regions a (pre @ post)" "separated (pre @ post)"
    and "\<forall>(s, n) \<in> set pre. s < addr" "addr \<notin> fst ` set post" "addr < USIZE_MAX"
    and "large_size (mem a) addr = sz" "addr \<noteq> 0"
  shows "\<exists>a'. dealloc_large_loop addr sz a (last_start pre) (first_start post) = Some a'
     \<and> regions a' (fl_free addr sz (pre @ post)) \<and> used a' = used a \<and> same_frame a' a"
  using assms
proof (induction post arbitrary: pre)
  case Nil
  then show ?case
    using insert_region_regions [of a pre "[]" addr sz]
    by (simp add: dealloc_large_loop.simps first_start_def)
      (simp add: insert_region_def Let_def split: option.splits)
next
  case (Cons r post)
  obtain s n where r: "r = (s, n)" by fastforce
  have nx: "large_next (mem a) s = first_start post"
    using regions_split(2) [OF Cons.prems(1,2) [unfolded r]] by (simp add: seg_first_start)
  show ?case
  proof (cases "addr < s")
    case True
    then have "\<forall>(t, k) \<in> set (r # post). addr < t"
      using Cons.prems(2) by (fastforce simp: r separated_append separated_Cons)
    then show ?thesis
      using insert_region_regions [of a pre "r # post" addr sz] Cons.prems True
      by (simp add: dealloc_large_loop.simps first_start_def r)
        (simp add: insert_region_def Let_def split: option.splits)
  next
    case False
    then have "s < addr" using Cons.prems(4) r by auto
    moreover have "last_start (pre @ [r]) = Some s" by (simp add: last_start_def r)
    ultimately show ?thesis
      using Cons.IH [of "pre @ [r]"] Cons.prems nx
      by (simp add: dealloc_large_loop.simps [of _ _ _ "last_start pre"] first_start_def r)
  qed
qed

text \<open>The whole of \<open>dealloc_large\<close> on a block inside the heap that starts no free region.\<close>

lemma dealloc_large_refines:
  assumes "regions a rs" "separated rs" "addr \<notin> fst ` set rs" "addr \<noteq> 0"
    and "heap_start a \<le> addr" "addr + sz \<le> heap_end a" "heap_end a < 2 ^ 64" "0 < sz"
  shows "\<exists>a'. dealloc_large a addr sz = Some a' \<and> regions a' (fl_free addr sz rs)
     \<and> used a' = used a - sz \<and> same_frame a' a"
proof -
  let ?b = "set_large_size (a\<lparr>used := used a - sz\<rparr>) addr sz"
  have "regions ?b ([] @ rs)"
    using assms(1,3) by (simp add: regions_def)
  moreover have "large_head ?b = first_start rs"
    using assms(1) by (auto simp: regions_def chain_def dest: seg_first_start)
  ultimately show ?thesis
    using dealloc_large_loop_refines [of ?b "[]" rs addr sz] assms
    by (simp add: dealloc_large_def checked_add_usize_def Let_def last_start_def USIZE_MAX_def)
qed

end
