(* ===== verification/HeapSafety.thy ===== *)
theory HeapSafety
  imports BucketAlloc
begin

text \<open>
  Safety of the kernel heap. \<open>cover\<close> counts how many extents of a list contain a byte; every
  operation of the free list specification conserves or lowers it. The invariant \<open>heap_inv\<close>
  ties the buckets, the region list and the blocks handed out to disjoint extents of the
  heap, \<open>heap_step\<close> is one call of the allocator by a client that frees only what it holds,
  and the theorems state what holds in every reachable state. The last section computes the
  runs on which the code leaves this safe use.
\<close>

section \<open>Rounding addresses\<close>

lemma and_not_mask_eq: "(x :: u64) AND NOT (mask k) = push_bit k (drop_bit k x)"
  by (rule bit_word_eqI) (auto simp: bit_simps)

lemma unat_push_drop: "unat (push_bit k (drop_bit k (x :: u64))) = unat x div 2 ^ k * 2 ^ k"
proof -
  have lt: "unat x < 2 ^ 64" using unsigned_less [of x, where 'a = nat] by simp
  have "unat x div 2 ^ k * 2 ^ k \<le> unat x" by simp
  also note lt
  finally have "take_bit 64 (push_bit k (drop_bit k (unat x))) = unat x div 2 ^ k * 2 ^ k"
    by (simp add: push_bit_eq_mult drop_bit_eq_div take_bit_nat_eq_self)
  then show ?thesis
    using lt by (simp add: unsigned_push_bit_eq unsigned_drop_bit_eq take_bit_nat_eq_self)
qed

lemma align_up_eq:
  assumes "al = 2 ^ k" "k < 64" "addr + al \<le> 2 ^ 64"
  shows "align_up addr al = (addr + al - 1) div al * al"
proof -
  have 1: "word_of_nat al - 1 = (mask k :: u64)"
    using assms by (simp add: mask_eq_exp_minus_1)
  have 2: "word_of_nat addr + word_of_nat al - 1 = (word_of_nat (addr + al - 1) :: u64)"
  proof -
    have "addr + al - 1 + 1 = addr + al" using assms by simp
    then have "(word_of_nat (addr + al - 1) :: u64) + 1 = word_of_nat (addr + al)"
      by (metis of_nat_1 of_nat_add)
    then show ?thesis by (simp add: algebra_simps)
  qed
  have "unat (word_of_nat (addr + al - 1) :: u64) = addr + al - 1"
    using assms by (simp add: unsigned_of_nat take_bit_nat_eq_self)
  then show ?thesis
    unfolding align_up_def 1 2 and_not_mask_eq unat_push_drop using assms by simp
qed

definition layout_ok :: "nat \<Rightarrow> nat \<Rightarrow> bool" where
  "layout_ok sz al \<longleftrightarrow> sz < 2 ^ 62 \<and> (\<exists>k < 62. al = 2 ^ k)"

lemma align_up_props:
  assumes "layout_ok sz al" "addr \<le> 2 ^ 62"
  shows "addr \<le> align_up addr al" "al dvd align_up addr al" "align_up addr al < addr + al"
    "al dvd addr \<Longrightarrow> align_up addr al = addr"
proof -
  obtain k where k: "k < 62" "al = 2 ^ k" using assms by (auto simp: layout_ok_def)
  have "(2::nat) ^ k \<le> 2 ^ 62" using k by (intro power_increasing) auto
  then have eq: "align_up addr al = (addr + al - 1) div al * al"
    using k assms by (intro align_up_eq [of _ k]) auto
  have pos: "0 < al" using k by simp
  have d: "(addr + al - 1) div al * al + (addr + al - 1) mod al = addr + al - 1" by simp
  have "(addr + al - 1) mod al < al" using pos by simp
  with d pos show "addr \<le> align_up addr al" unfolding eq by linarith
  show "al dvd align_up addr al" unfolding eq by simp
  show "align_up addr al < addr + al" unfolding eq using d pos by linarith
  assume "al dvd addr"
  then obtain c where "addr = al * c" by (auto simp: dvd_def)
  then have "(addr + al - 1) div al = c"
    using pos by (intro div_nat_eqI) (auto simp: algebra_simps)
  then show "align_up addr al = addr" unfolding eq using \<open>addr = al * c\<close> by simp
qed

section \<open>Counting coverage\<close>

definition covers :: "nat \<times> nat \<Rightarrow> nat \<Rightarrow> nat" where
  "covers e b = (if fst e \<le> b \<and> b < fst e + snd e then 1 else 0)"

definition cover :: "(nat \<times> nat) list \<Rightarrow> nat \<Rightarrow> nat" where
  "cover es b = sum_list (map (\<lambda>e. covers e b) es)"

lemma cover_simps [simp]:
  "cover [] b = 0" "cover (e # es) b = covers e b + cover es b" "cover (xs @ ys) b = cover xs b + cover ys b"
  by (simp_all add: cover_def)

lemma cover_mem: "e \<in> set es \<Longrightarrow> covers e b \<le> cover es b"
  by (induction es) auto

lemma cover_start: "(s, n) \<in> set es \<Longrightarrow> 0 < n \<Longrightarrow> 1 \<le> cover es s"
  using cover_mem [of "(s, n)" es s] by (simp add: covers_def)

lemma covers_split: "0 < n \<Longrightarrow> covers (s, n + k) b = covers (s, n) b + covers (s + n, k) b"
  by (auto simp: covers_def)

lemma covers_join: "covers (s, n + k) b = covers (s, n) b + covers (s + n, k) b"
  by (auto simp: covers_def)

lemma cover_glue: "cover (glue x rs) b = covers x b + cover rs b"
  by (cases "(x, rs)" rule: glue.cases) (auto simp: covers_join)

lemma cover_fl_free: "cover (fl_free addr sz rs) b = covers (addr, sz) b + cover rs b"
  by (induction addr sz rs rule: fl_free.induct) (auto simp: cover_glue covers_join)

lemma cover_fl_alloc:
  assumes "fl_alloc sz al rs = Some (p, rs')" "\<forall>(s, n) \<in> set rs. s \<le> align_up s al"
  shows "covers (p, sz) b + cover rs' b \<le> cover rs b"
  using assms
proof (induction rs arbitrary: rs')
  case Nil
  then show ?case by simp
next
  case (Cons r rs)
  obtain s n where r: "r = (s, n)" by fastforce
  then show ?case
    using Cons by (force simp: Let_def covers_def split: if_splits)
qed

section \<open>Free lists stay separated\<close>

definition granular :: "(nat \<times> nat) list \<Rightarrow> bool" where
  "granular rs \<longleftrightarrow> (\<forall>(s, n) \<in> set rs. LARGE_NODE dvd s \<and> LARGE_NODE dvd n)"

lemma granular_simps [simp]:
  "granular []" "granular ((s, n) # rs) \<longleftrightarrow> LARGE_NODE dvd s \<and> LARGE_NODE dvd n \<and> granular rs"
  "granular (xs @ ys) \<longleftrightarrow> granular xs \<and> granular ys"
  by (auto simp: granular_def)

lemma align_granular:
  assumes "layout_ok sz al" "s \<le> 2 ^ 62" "LARGE_NODE dvd s"
  shows "LARGE_NODE dvd align_up s al"
proof -
  obtain k where k: "al = 2 ^ k" using assms by (auto simp: layout_ok_def)
  note p = align_up_props [OF assms(1,2)]
  show ?thesis
  proof (cases "k \<le> 4")
    case True
    then have "al dvd LARGE_NODE"
      using le_imp_power_dvd [OF True, of "2::nat"] by (simp add: k LARGE_NODE_def)
    then show ?thesis using p(4) assms(3) dvd_trans by metis
  next
    case False
    then have "LARGE_NODE dvd al"
      using le_imp_power_dvd [of 4 k "2::nat"] by (simp add: k LARGE_NODE_def)
    then show ?thesis using p(2) dvd_trans by blast
  qed
qed

lemma fl_alloc_inv:
  assumes "fl_alloc sz al rs = Some (p, rs')" "layout_ok sz al" "LARGE_NODE dvd sz" "0 < sz"
    and "\<forall>(s, n) \<in> set rs. s + n \<le> 2 ^ 62" "separated rs" "granular rs"
  shows "separated rs' \<and> granular rs' \<and> LARGE_NODE dvd p \<and> al dvd p
     \<and> (\<exists>(s, n) \<in> set rs. s \<le> p \<and> p + sz \<le> s + n)
     \<and> (\<forall>(t, k) \<in> set rs'. \<exists>(s, n) \<in> set rs. s \<le> t \<and> t + k \<le> s + n)"
  using assms
proof (induction rs arbitrary: rs')
  case Nil
  then show ?case by simp
next
  case (Cons r rs)
  obtain s n where r: "r = (s, n)" by fastforce
  let ?p = "align_up s al"
  have s62: "s \<le> 2 ^ 62" using Cons.prems(5) by (simp add: r)
  note a = align_up_props [OF Cons.prems(2) s62]
  have g: "LARGE_NODE dvd ?p" using align_granular [OF Cons.prems(2) s62] Cons.prems(7) by (simp add: r)
  show ?case
  proof (cases "?p + sz \<le> s + n")
    case True
    have lt: "?p + sz < 2 ^ 64" using True Cons.prems(5) by (simp add: r)
    define rest where "rest = (if LARGE_NODE \<le> s + n - (?p + sz)
        then (if ?p = s then [] else [(s, ?p - s)]) @ [(?p + sz, s + n - (?p + sz))] else [])"
    have res: "p = ?p" "rs' = rest @ rs"
      using Cons.prems(1) True lt by (auto simp: r Let_def rest_def split: if_splits)
    have gap: "?p \<noteq> s \<Longrightarrow> LARGE_NODE \<le> ?p - s"
      using a(1) g Cons.prems(7) by (intro dvd_imp_le dvd_diff_nat) (auto simp: r)
    have "separated rest" "granular rest"
      "\<forall>(t, k) \<in> set rest. s \<le> t \<and> t + k \<le> s + n"
      using a(1) g gap True Cons.prems
      by (auto simp: rest_def separated_def r intro!: dvd_diff_nat dvd_add)
    moreover have "\<forall>(t, k) \<in> set rs. s + n < t" "separated rs" "granular rs"
      using Cons.prems(6,7) by (auto simp: r separated_Cons)
    ultimately show ?thesis
      using True a g by (fastforce simp: res r separated_append)
  next
    case False
    then obtain rs1 where rec: "fl_alloc sz al rs = Some (p, rs1)" "rs' = (s, n) # rs1"
      using Cons.prems(1) by (auto simp: r Let_def split: if_splits)
    have sep: "\<forall>(t, k) \<in> set rs. s + n < t" "separated rs" "LARGE_NODE \<le> n" "granular rs"
      "LARGE_NODE dvd s" "LARGE_NODE dvd n"
      using Cons.prems(6,7) by (auto simp: r separated_Cons)
    have IH: "separated rs1 \<and> granular rs1 \<and> LARGE_NODE dvd p \<and> al dvd p
       \<and> (\<exists>(s, n) \<in> set rs. s \<le> p \<and> p + sz \<le> s + n)
       \<and> (\<forall>(t, k) \<in> set rs1. \<exists>(s, n) \<in> set rs. s \<le> t \<and> t + k \<le> s + n)"
      using Cons.IH [OF rec(1)] Cons.prems sep by simp
    have "\<forall>(t, k) \<in> set rs1. s + n < t"
      using IH sep(1) by fastforce
    then show ?thesis
      using IH sep by (fastforce simp: rec(2) r separated_Cons)
  qed
qed

lemma glue_separated:
  assumes "LARGE_NODE \<le> n" "separated rs" "\<forall>(t, k) \<in> set rs. s + n \<le> t"
  shows "separated (glue (s, n) rs)"
proof (cases rs)
  case (Cons r rs')
  then obtain t k where "r = (t, k)" by fastforce
  with Cons assms show ?thesis by (fastforce simp: separated_Cons)
qed (use assms in \<open>simp add: separated_def\<close>)

lemma glue_starts: "fst ` set (glue x xs) \<subseteq> insert (fst x) (fst ` set xs)"
  by (cases "(x, xs)" rule: glue.cases) auto

lemma fl_free_starts: "fst ` set (fl_free addr sz rs) \<subseteq> insert addr (fst ` set rs)"
proof (induction rs)
  case Nil
  then show ?case by simp
next
  case (Cons r rs)
  obtain s n where r: "r = (s, n)" by fastforce
  show ?case
    using Cons glue_starts [of "(addr, sz)" "r # rs"] glue_starts [of "(s, n + sz)" rs]
    by (auto simp: r)
qed

lemma fl_free_inv:
  assumes "separated rs" "granular rs" "LARGE_NODE \<le> sz" "LARGE_NODE dvd sz" "LARGE_NODE dvd addr"
    and "\<forall>(s, n) \<in> set rs. addr + sz \<le> s \<or> s + n \<le> addr"
  shows "separated (fl_free addr sz rs) \<and> granular (fl_free addr sz rs)"
  using assms
proof (induction rs)
  case Nil
  then show ?case by (simp add: separated_def)
next
  case (Cons r rs)
  obtain s n where r: "r = (s, n)" by fastforce
  have sep: "\<forall>(t, k) \<in> set rs. s + n < t" "separated rs" "LARGE_NODE \<le> n" "granular rs"
    "LARGE_NODE dvd s" "LARGE_NODE dvd n"
    using Cons.prems by (auto simp: r separated_Cons)
  have gg: "granular (glue (t, k) xs)" if "LARGE_NODE dvd t" "LARGE_NODE dvd k" "granular xs" for t k xs
    using that by (cases "((t, k), xs)" rule: glue.cases) auto
  consider "addr < s" | "s \<le> addr" "s + n = addr" | "s \<le> addr" "s + n \<noteq> addr" by linarith
  then show ?case
  proof cases
    case 1
    have z: "0 < sz" "0 < n" using Cons.prems(3) sep(3) by (auto simp: LARGE_NODE_def)
    then have "addr + sz \<le> s" using 1 Cons.prems(6) by (auto simp: r)
    then have "\<forall>(t, k) \<in> set (r # rs). addr + sz \<le> t" using sep(1) by (fastforce simp: r)
    then show ?thesis
      using 1 Cons.prems glue_separated [of sz "r # rs" addr] gg [of addr sz "r # rs"] by (simp add: r)
  next
    case 2
    have "\<forall>(t, k) \<in> set rs. s + (n + sz) \<le> t"
      using Cons.prems(6) sep(1) 2 by fastforce
    then show ?thesis
      using 2 sep Cons.prems glue_separated [of "n + sz" rs s] gg [of s "n + sz" rs] by (simp add: r)
  next
    case 3
    then have lt: "s + n < addr" using Cons.prems(3,6) sep(3) by (auto simp: r LARGE_NODE_def)
    have IH: "separated (fl_free addr sz rs) \<and> granular (fl_free addr sz rs)"
      using Cons sep by simp
    have "\<forall>(t, k) \<in> set (fl_free addr sz rs). s + n < t"
      using fl_free_starts [of addr sz rs] lt sep(1) by fastforce
    then show ?thesis using 3 IH sep by (simp add: r separated_Cons)
  qed
qed

section \<open>The heap invariant\<close>

definition blocks_of :: "nat \<Rightarrow> nat list \<Rightarrow> (nat \<times> nat) list" where
  "blocks_of i xs = map (\<lambda>x. (x, BUCKET_SIZES ! i)) xs"

definition bucket_cover :: "nat list list \<Rightarrow> nat \<Rightarrow> nat" where
  "bucket_cover fls b = (\<Sum>i<9. cover (blocks_of i (fls ! i)) b)"

definition bucket_ok :: "balloc \<Rightarrow> nat \<Rightarrow> nat list \<Rightarrow> bool" where
  "bucket_ok a i xs \<longleftrightarrow> block_size (buckets a ! i) = BUCKET_SIZES ! i
     \<and> seg (free_next (mem a)) (free_list (buckets a ! i)) xs None
     \<and> free_blocks (buckets a ! i) = length xs
     \<and> (\<forall>x \<in> set xs. BUCKET_SIZES ! i dvd x \<and> x \<noteq> 0)"

text \<open>A block handed out is its address with the layout it was asked for; its extent is what
  the allocator keeps for it.\<close>

type_synonym held = "nat \<times> nat \<times> nat"

definition extent_size :: "nat \<Rightarrow> nat" where
  "extent_size sz = (case bucket_index (max sz 8) of Some i \<Rightarrow> BUCKET_SIZES ! i | None \<Rightarrow> max sz 8)"

definition extent :: "held \<Rightarrow> nat \<times> nat" where
  "extent = (\<lambda>(p, sz, al). (p, extent_size sz))"

definition held_ok :: "held \<Rightarrow> bool" where
  "held_ok = (\<lambda>(p, sz, al). al dvd p \<and> p \<noteq> 0 \<and>
     (case bucket_index (max sz 8) of
        Some i \<Rightarrow> BUCKET_SIZES ! i dvd p
      | None \<Rightarrow> LARGE_NODE dvd p \<and> LARGE_NODE dvd sz))"

definition total_cover :: "nat list list \<Rightarrow> (nat \<times> nat) list \<Rightarrow> held list \<Rightarrow> nat \<Rightarrow> nat" where
  "total_cover fls rs outs b = bucket_cover fls b + cover rs b + cover (map extent outs) b"

definition within :: "nat \<Rightarrow> nat \<Rightarrow> (nat \<Rightarrow> nat) \<Rightarrow> bool" where
  "within lo hi f \<longleftrightarrow> (\<forall>b. f b \<le> (if lo \<le> b \<and> b < hi then 1 else 0))"

lemma within_mono: "within lo hi f \<Longrightarrow> (\<And>b. g b \<le> f b) \<Longrightarrow> within lo hi g"
  unfolding within_def by (meson le_trans)

definition heap_inv :: "balloc \<Rightarrow> nat list list \<Rightarrow> (nat \<times> nat) list \<Rightarrow> held list \<Rightarrow> bool" where
  "heap_inv a fls rs outs \<longleftrightarrow>
     length (buckets a) = 9 \<and> length fls = 9 \<and> (\<forall>i < 9. bucket_ok a i (fls ! i))
     \<and> regions a rs \<and> separated rs \<and> granular rs
     \<and> within (heap_start a) (heap_end a) (total_cover fls rs outs)
     \<and> list_all held_ok outs
     \<and> used a = sum_list (map (snd \<circ> extent) outs)
     \<and> 0 < heap_start a \<and> heap_end a \<le> 2 ^ 62"

lemma BUCKET_SIZES_nth: "i < 9 \<Longrightarrow> BUCKET_SIZES ! i = 2 ^ (i + 3)"
proof -
  assume "i < 9"
  then consider "i = 0" | "i = 1" | "i = 2" | "i = 3" | "i = 4" | "i = 5" | "i = 6" | "i = 7" | "i = 8"
    by linarith
  then show ?thesis by cases (simp_all add: BUCKET_SIZES_def)
qed

lemma length_BUCKET_SIZES: "length BUCKET_SIZES = 9"
  by (simp add: BUCKET_SIZES_def)

lemma bucket_index_Some: "bucket_index sz = Some i \<Longrightarrow> i < 9 \<and> sz \<le> BUCKET_SIZES ! i"
  unfolding bucket_index_def find_Some_iff by (auto simp: length_BUCKET_SIZES)

lemma bucket_index_None: "bucket_index sz = None \<longleftrightarrow> 2048 < sz"
  by (simp add: bucket_index_def BUCKET_SIZES_def)

lemma extent_size_ge: "sz \<le> extent_size sz" "0 < extent_size sz"
  using bucket_index_Some [of "max sz 8"] by (auto simp: extent_size_def split: option.split)

lemma bucket_cover_upd:
  assumes "i < 9" "length fls = 9"
  shows "bucket_cover (fls[i := ys]) b + cover (blocks_of i (fls ! i)) b
       = bucket_cover fls b + cover (blocks_of i ys) b"
proof -
  have "bucket_cover xs b = cover (blocks_of i (xs ! i)) b
      + (\<Sum>j \<in> {..<9} - {i}. cover (blocks_of j (xs ! j)) b)" for xs
    unfolding bucket_cover_def using assms(1) by (simp add: sum.remove)
  from this [of fls] this [of "fls[i := ys]"] show ?thesis
    using assms by simp
qed

lemma bucket_cover_mem:
  assumes "i < 9" "x \<in> set (fls ! i)"
  shows "1 \<le> bucket_cover fls x"
proof -
  have "1 \<le> cover (blocks_of i (fls ! i)) x"
    using assms by (intro cover_start [where n = "BUCKET_SIZES ! i"]) (auto simp: blocks_of_def BUCKET_SIZES_nth)
  also have "\<dots> \<le> bucket_cover fls x"
    unfolding bucket_cover_def using assms(1) by (intro member_le_sum) auto
  finally show ?thesis .
qed

lemma heap_inv_bound:
  assumes "heap_inv a fls rs outs"
  shows "bucket_cover fls b + cover rs b + cover (map extent outs) b \<le> 1"
    and "0 < bucket_cover fls b + cover rs b + cover (map extent outs) b \<Longrightarrow> heap_start a \<le> b \<and> b < heap_end a"
proof -
  have *: "bucket_cover fls b + cover rs b + cover (map extent outs) b
            \<le> (if heap_start a \<le> b \<and> b < heap_end a then 1 else 0)"
    using assms by (simp add: heap_inv_def within_def total_cover_def)
  then show "bucket_cover fls b + cover rs b + cover (map extent outs) b \<le> 1"
    by (simp split: if_splits)
  show "heap_start a \<le> b \<and> b < heap_end a"
    if "0 < bucket_cover fls b + cover rs b + cover (map extent outs) b"
    using * that by (simp split: if_splits)
qed

lemma cover_range:
  assumes "(s, n) \<in> set es" "0 < n" "\<And>b. 0 < cover es b \<Longrightarrow> lo \<le> b \<and> b < hi"
  shows "lo \<le> s \<and> s + n \<le> (hi :: nat)"
proof -
  have "1 \<le> cover es s" using assms(1,2) by (rule cover_start)
  moreover have "1 \<le> cover es (s + n - 1)"
    using cover_mem [OF assms(1), of "s + n - 1"] assms(2) by (auto simp: covers_def split: if_splits)
  ultimately have "0 < cover es s" "0 < cover es (s + n - 1)" by linarith+
  from assms(3) [OF this(1)] assms(3) [OF this(2)] show ?thesis by linarith
qed

lemma cover_disjoint:
  assumes "(s, n) \<in> set es" "(t, k) \<in> set fs" "\<And>b. cover es b + cover fs b \<le> 1" "0 < n" "0 < k"
  shows "s + n \<le> t \<or> t + k \<le> s"
proof (rule ccontr)
  assume no: "\<not> ?thesis"
  define b where "b = max s t"
  have "covers (s, n) b = 1" "covers (t, k) b = 1" using no assms(4,5) by (auto simp: covers_def b_def)
  then have "1 \<le> cover es b" "1 \<le> cover fs b"
    using cover_mem [OF assms(1), of b] cover_mem [OF assms(2), of b] by auto
  then show False using assms(3) [of b] by linarith
qed

lemma region_bounds:
  assumes inv: "heap_inv a fls rs outs" and "(s, n) \<in> set rs"
  shows "heap_start a \<le> s" "s + n \<le> heap_end a" "s + n \<le> 2 ^ 62" "s \<noteq> 0" "0 < n" "s \<le> 2 ^ 62"
proof -
  show n: "0 < n" using assms by (auto simp: heap_inv_def separated_def LARGE_NODE_def)
  have "heap_start a \<le> s \<and> s + n \<le> heap_end a"
    using assms(2) n by (rule cover_range) (rule heap_inv_bound(2) [OF inv], simp)
  moreover have "0 < heap_start a" "heap_end a \<le> 2 ^ 62" using inv by (auto simp: heap_inv_def)
  ultimately show "heap_start a \<le> s" "s + n \<le> heap_end a" "s + n \<le> 2 ^ 62" "s \<noteq> 0" "s \<le> 2 ^ 62"
    by linarith+
qed

lemma held_bounds:
  assumes inv: "heap_inv a fls rs outs" and m: "(p, sz, al) \<in> set outs"
  shows "heap_start a \<le> p" "p + extent_size sz \<le> heap_end a"
    "\<And>i. i < 9 \<Longrightarrow> p \<notin> set (fls ! i)"
    "\<And>s n. (s, n) \<in> set rs \<Longrightarrow> p + extent_size sz \<le> s \<or> s + n \<le> p"
proof -
  have e: "(p, extent_size sz) \<in> set (map extent outs)" "0 < extent_size sz"
    using m extent_size_ge(2) by (force simp: extent_def)+
  have "heap_start a \<le> p \<and> p + extent_size sz \<le> heap_end a"
    using e by (rule cover_range) (rule heap_inv_bound(2) [OF inv], simp)
  then show "heap_start a \<le> p" "p + extent_size sz \<le> heap_end a" by auto
  have one: "1 \<le> cover (map extent outs) p" using e by (rule cover_start)
  show "p \<notin> set (fls ! i)" if "i < 9" for i
    using bucket_cover_mem [OF that, of p fls] heap_inv_bound(1) [OF inv, of p] one by auto
  show "p + extent_size sz \<le> s \<or> s + n \<le> p" if "(s, n) \<in> set rs" for s n
    using cover_disjoint [OF e(1) that _ e(2) region_bounds(5) [OF inv that]] heap_inv_bound(1) [OF inv]
    by (metis add.commute add.left_commute add_leD2)
qed

section \<open>Each operation keeps the invariant\<close>

lemma seg_cong: "(\<And>x. x \<in> set xs \<Longrightarrow> nx x = ny x) \<Longrightarrow> seg nx h xs q \<longleftrightarrow> seg ny h xs q"
proof (induction xs arbitrary: h)
  case (Cons x xs)
  then have "nx x = ny x" "seg nx h' xs q \<longleftrightarrow> seg ny h' xs q" for h' by simp_all
  then show ?case by simp
qed simp

lemma bucket_ok_frame:
  assumes "bucket_ok a j xs" "buckets b ! j = buckets a ! j"
    and "\<And>x. x \<in> set xs \<Longrightarrow> free_next (mem b) x = free_next (mem a) x"
  shows "bucket_ok b j xs"
  using assms seg_cong [of xs "free_next (mem b)" "free_next (mem a)"] unfolding bucket_ok_def by metis

lemma alloc_bucket_step:
  assumes inv: "heap_inv a fls rs outs" and lay: "layout_ok sz al"
    and idx: "bucket_index (max sz 8) = Some i" and al: "max al 8 \<le> BUCKET_SIZES ! i"
    and ne: "free_list (buckets a ! i) \<noteq> None"
  shows "\<exists>p a' fls'. balloc_alloc a sz al = Some (Some p, a') \<and> heap_inv a' fls' rs ((p, sz, al) # outs)"
proof -
  have i: "i < 9" using bucket_index_Some [OF idx] by simp
  have ok: "bucket_ok a i (fls ! i)" and len: "length fls = 9" "length (buckets a) = 9"
    using inv i by (auto simp: heap_inv_def)
  then obtain p xs where p: "fls ! i = p # xs" "free_list (buckets a ! i) = Some p"
    using ne by (cases "fls ! i") (auto simp: bucket_ok_def)
  let ?b = "buckets a ! i"
  let ?b' = "?b\<lparr>free_list := free_next (mem a) p, free_blocks := free_blocks ?b - 1\<rparr>"
  let ?a' = "a\<lparr>buckets := (buckets a)[i := ?b'], used := used a + BUCKET_SIZES ! i\<rparr>"
  have run: "balloc_alloc a sz al = Some (Some p, ?a')"
    using ok al idx p by (simp add: balloc_alloc_def bucket_alloc_def Let_def bucket_ok_def)
  have "bucket_ok ?a' j ((fls[i := xs]) ! j)" if "j < 9" for j
  proof (cases "j = i")
    case True
    then show ?thesis using ok p len i by (simp add: bucket_ok_def)
  next
    case False
    then show ?thesis
      using inv that len by (simp add: heap_inv_def bucket_ok_def)
  qed
  moreover have "held_ok (p, sz, al)"
  proof -
    obtain k where k: "al = 2 ^ k" using lay by (auto simp: layout_ok_def)
    have d: "BUCKET_SIZES ! i dvd p" "p \<noteq> 0" using ok p by (auto simp: bucket_ok_def)
    have "(2::nat) ^ k \<le> 2 ^ (i + 3)" using al i by (simp add: k BUCKET_SIZES_nth)
    then have "al dvd BUCKET_SIZES ! i"
      using i by (simp add: k BUCKET_SIZES_nth le_imp_power_dvd)
    then show ?thesis using d idx by (auto simp: held_ok_def)
  qed
  moreover have ext: "extent (p, sz, al) = (p, BUCKET_SIZES ! i)"
    using idx by (simp add: extent_def extent_size_def)
  moreover have "bucket_cover (fls[i := xs]) b + covers (p, BUCKET_SIZES ! i) b = bucket_cover fls b" for b
    using bucket_cover_upd [OF i len(1), of xs b] by (simp add: p(1) blocks_of_def)
  then have "total_cover (fls[i := xs]) rs ((p, sz, al) # outs) b = total_cover fls rs outs b" for b
    using ext by (simp add: total_cover_def algebra_simps)
  then have "within (heap_start a) (heap_end a) (total_cover (fls[i := xs]) rs ((p, sz, al) # outs))"
    using inv by (auto simp: heap_inv_def intro: within_mono)
  moreover have "regions ?a' rs" using inv by (simp add: heap_inv_def regions_def chain_def)
  ultimately have "heap_inv ?a' (fls[i := xs]) rs ((p, sz, al) # outs)"
    using inv by (simp add: heap_inv_def len)
  then show ?thesis using run by blast
qed

lemma layout_ok_max:
  assumes lay: "layout_ok sz al"
  shows "layout_ok (max sz 8) (max al 8)"
proof -
  obtain k where k: "k < 62" "al = 2 ^ k" "sz < 2 ^ 62" using lay by (auto simp: layout_ok_def)
  have "max al 8 = 2 ^ max k 3"
  proof (cases "k \<le> 3")
    case True
    then have "(2::nat) ^ k \<le> 2 ^ 3" by (intro power_increasing) auto
    then show ?thesis using True by (simp add: k max_def)
  next
    case False
    then have "(2::nat) ^ 3 \<le> 2 ^ k" by (intro power_increasing) auto
    then show ?thesis using False by (simp add: k max_def)
  qed
  then show ?thesis using k by (auto simp: layout_ok_def)
qed

lemma alloc_large_step:
  assumes inv: "heap_inv a fls rs outs" and lay: "layout_ok sz al"
    and idx: "bucket_index (max sz 8) = None" and g: "LARGE_NODE dvd sz"
  shows "balloc_alloc a sz al = Some (None, a)
     \<or> (\<exists>p a' rs'. balloc_alloc a sz al = Some (Some p, a') \<and> heap_inv a' fls rs' ((p, sz, al) # outs))"
proof -
  have sz: "2048 < sz" "max sz 8 = sz" using idx by (auto simp: bucket_index_None)
  have lay8: "layout_ok sz (max al 8)" using layout_ok_max [OF lay] sz by simp
  have al: "al dvd max al 8"
  proof -
    obtain k where k: "al = 2 ^ k" using lay by (auto simp: layout_ok_def)
    show ?thesis
    proof (cases "k \<le> 3")
      case True
      then have "al dvd 2 ^ 3" unfolding k by (rule le_imp_power_dvd)
      moreover have "(2::nat) ^ k \<le> 2 ^ 3" using True by (intro power_increasing) auto
      ultimately show ?thesis by (simp add: k max_def)
    next
      case False
      then have "(2::nat) ^ 3 \<le> 2 ^ k" by (intro power_increasing) auto
      then show ?thesis by (simp add: k max_def)
    qed
  qed
  have regs: "regions a rs" "separated rs" "granular rs" using inv by (auto simp: heap_inv_def)
  have b62: "\<forall>(s, n) \<in> set rs. s + n \<le> 2 ^ 62" and up: "\<forall>(s, n) \<in> set rs. s \<le> align_up s (max al 8)"
    using region_bounds [OF inv] align_up_props(1) [OF lay8] by blast+
  have run: "balloc_alloc a sz al = alloc_large a sz (max al 8)"
    using idx sz by (simp add: balloc_alloc_def Let_def)
  note ref = alloc_large_refines [OF regs(1,2) _ up, of sz]
  show ?thesis
  proof (cases "fl_alloc sz (max al 8) rs")
    case None
    then show ?thesis using ref sz run by simp
  next
    case (Some r)
    then obtain p rs' where fl: "fl_alloc sz (max al 8) rs = Some (p, rs')" by (cases r) auto
    then obtain a' where a': "alloc_large a sz (max al 8) = Some (non_null p, a')" "regions a' rs'"
      "used a' = used a + sz" "same_frame a' a"
      using ref sz by auto
    note fi = fl_alloc_inv [OF fl lay8 g _ b62 regs(2,3)]
    then obtain s n where sn: "(s, n) \<in> set rs" "s \<le> p" using sz by auto
    have p0: "p \<noteq> 0" using region_bounds(4) [OF inv sn(1)] sn(2) by simp
    have "bucket_ok a' j (fls ! j)" if "j < 9" for j
      using a'(4) inv that by (simp add: heap_inv_def bucket_ok_def same_frame_def)
    moreover have "held_ok (p, sz, al)"
      using fi sz idx g p0 al by (auto simp: held_ok_def intro: dvd_trans)
    moreover have ext: "extent (p, sz, al) = (p, sz)"
      using idx sz by (simp add: extent_def extent_size_def)
    moreover have "total_cover fls rs' ((p, sz, al) # outs) b \<le> total_cover fls rs outs b" for b
      using cover_fl_alloc [OF fl up, of b] ext by (simp add: total_cover_def)
    then have "within (heap_start a) (heap_end a) (total_cover fls rs' ((p, sz, al) # outs))"
      using inv by (auto simp: heap_inv_def intro: within_mono)
    ultimately have "heap_inv a' fls rs' ((p, sz, al) # outs)"
      using inv a' fi sz by (simp add: heap_inv_def same_frame_def)
    then show ?thesis using run a' p0 by (auto simp: non_null_def)
  qed
qed

lemma remove1_sum:
  "x \<in> set xs \<Longrightarrow> sum_list (map f xs) = f x + sum_list (map f (remove1 x xs))" for f :: "'a \<Rightarrow> nat"
  by (induction xs) auto

lemma cover_remove1:
  "x \<in> set outs \<Longrightarrow> cover (map extent outs) b = covers (extent x) b + cover (map extent (remove1 x outs)) b"
  unfolding cover_def using remove1_sum [of x outs "\<lambda>e. covers (extent e) b"] by (simp add: comp_def)

lemma list_all_remove1: "list_all P xs \<Longrightarrow> list_all P (remove1 x xs)"
  by (induction xs) auto

lemma free_step:
  assumes inv: "heap_inv a fls rs outs" and m: "(p, sz, al) \<in> set outs"
  shows "\<exists>a' fls' rs'. balloc_dealloc a p sz = Some a' \<and> heap_inv a' fls' rs' (remove1 (p, sz, al) outs)"
proof -
  let ?outs = "remove1 (p, sz, al) outs"
  note hb = held_bounds [OF inv m]
  have all: "list_all held_ok outs" using inv by (simp add: heap_inv_def)
  have hok1: "held_ok (p, sz, al)" using all m by (simp add: list_all_iff)
  have hok: "held_ok (p, sz, al)" "list_all held_ok ?outs" "p \<noteq> 0"
    using hok1 list_all_remove1 [OF all] by (simp_all add: held_ok_def)
  have used: "used a = extent_size sz + sum_list (map (snd \<circ> extent) ?outs)"
    using inv remove1_sum [OF m, of "snd \<circ> extent"] by (simp add: heap_inv_def extent_def)
  have cov: "cover (map extent outs) b = covers (p, extent_size sz) b + cover (map extent ?outs) b" for b
    using cover_remove1 [OF m] by (simp add: extent_def)
  show ?thesis
  proof (cases "bucket_index (max sz 8)")
    case (Some i)
    have i: "i < 9" using bucket_index_Some [OF Some] by simp
    have len: "length fls = 9" "length (buckets a) = 9" and ok: "bucket_ok a i (fls ! i)"
      using inv i by (auto simp: heap_inv_def)
    have es: "extent_size sz = BUCKET_SIZES ! i" using Some by (simp add: extent_size_def)
    let ?b = "(buckets a ! i)\<lparr>free_list := Some p, free_blocks := free_blocks (buckets a ! i) + 1\<rparr>"
    let ?a' = "a\<lparr>used := used a - BUCKET_SIZES ! i, buckets := (buckets a)[i := ?b],
        mem := (mem a)\<lparr>free_next := (free_next (mem a))(p := free_list (buckets a ! i))\<rparr>\<rparr>"
    let ?fls = "fls[i := p # fls ! i]"
    have run: "balloc_dealloc a p sz = Some ?a'"
      using Some ok hok(3) by (simp add: balloc_dealloc_def bucket_dealloc_def Let_def bucket_ok_def non_null_def)
    have "bucket_ok ?a' j (?fls ! j)" if "j < 9" for j
    proof (cases "j = i")
      case True
      then show ?thesis
        using ok hok hb(3) [OF i] len i Some by (simp add: bucket_ok_def held_ok_def)
    next
      case False
      have "bucket_ok a j (fls ! j)" using inv that by (simp add: heap_inv_def)
      moreover have "x \<noteq> p" if "x \<in> set (fls ! j)" for x
        using hb(3) [OF \<open>j < 9\<close>] that by auto
      ultimately show ?thesis
        using False by (auto intro: bucket_ok_frame [where a = a])
    qed
    moreover have "bucket_cover ?fls b = bucket_cover fls b + covers (p, BUCKET_SIZES ! i) b" for b
      using bucket_cover_upd [OF i len(1), of "p # fls ! i" b] by (simp add: blocks_of_def)
    then have "total_cover ?fls rs ?outs b = total_cover fls rs outs b" for b
      using cov [of b] by (simp add: es total_cover_def)
    then have "within (heap_start a) (heap_end a) (total_cover ?fls rs ?outs)"
      using inv by (auto simp: heap_inv_def intro: within_mono)
    moreover have "regions ?a' rs" using inv by (simp add: heap_inv_def regions_def chain_def)
    moreover have "used ?a' = sum_list (map (snd \<circ> extent) ?outs)" using used es by simp
    ultimately have "heap_inv ?a' ?fls rs ?outs"
      using inv hok(2) len unfolding heap_inv_def by simp
    then show ?thesis using run by blast
  next
    case None
    have sz0: "2048 < sz" "max sz 8 = sz" using None by (auto simp: bucket_index_None)
    then have sz: "2048 < sz" "max sz 8 = sz" "extent_size sz = sz"
      using None by (simp_all add: extent_size_def)
    have g: "LARGE_NODE dvd p" "LARGE_NODE dvd sz" using hok(1) None by (auto simp: held_ok_def)
    have regs: "regions a rs" "separated rs" "granular rs" "heap_end a \<le> 2 ^ 62"
      using inv by (auto simp: heap_inv_def)
    have fresh: "p \<notin> fst ` set rs"
    proof
      assume "p \<in> fst ` set rs"
      then obtain n where n: "(p, n) \<in> set rs" by auto
      from hb(4) [OF n] region_bounds(5) [OF inv n] sz show False by auto
    qed
    obtain a' where a': "dealloc_large a p sz = Some a'" "regions a' (fl_free p sz rs)"
      "used a' = used a - sz" "same_frame a' a"
      using dealloc_large_refines [OF regs(1,2) fresh hok(3) hb(1), of sz] hb(2) sz regs(4) by auto
    have run: "balloc_dealloc a p sz = Some a'"
      using None sz a' by (simp add: balloc_dealloc_def Let_def)
    have dis: "\<forall>(s, n) \<in> set rs. p + sz \<le> s \<or> s + n \<le> p" using hb(4) sz(3) by fastforce
    have "bucket_ok a' j (fls ! j)" if "j < 9" for j
      using a'(4) inv that by (simp add: heap_inv_def bucket_ok_def same_frame_def)
    moreover have "total_cover fls (fl_free p sz rs) ?outs b = total_cover fls rs outs b" for b
      using cov [of b] sz by (simp add: cover_fl_free total_cover_def)
    then have "within (heap_start a) (heap_end a) (total_cover fls (fl_free p sz rs) ?outs)"
      using inv by (auto simp: heap_inv_def intro: within_mono)
    moreover have "used a' = sum_list (map (snd \<circ> extent) ?outs)" using used a'(3) sz(3) by simp
    ultimately have "heap_inv a' fls (fl_free p sz rs) ?outs"
      using inv a'(2,4) hok(2) sz(1) fl_free_inv [OF regs(2,3) _ g(2,1) dis]
      by (simp add: heap_inv_def same_frame_def LARGE_NODE_def)
    then show ?thesis using run by blast
  qed
qed

section \<open>The initial heap\<close>

lemma thread_blocks_large [simp]:
  "large_size (thread_blocks bs count is cur st) = large_size st"
  "large_next (thread_blocks bs count is cur st) = large_next st"
  by (induction "is" arbitrary: cur st) simp_all

lemma thread_blocks_frame:
  "0 < bs \<Longrightarrow> x < cur \<or> cur + length is * bs \<le> x \<Longrightarrow>
   free_next (thread_blocks bs count is cur st) x = free_next st x"
proof (induction "is" arbitrary: cur st)
  case (Cons i "is")
  then have "x < cur + bs \<or> cur + bs + length is * bs \<le> x" "x \<noteq> cur" by auto
  then show ?case using Cons.IH [of "cur + bs"] Cons.prems(1) by simp
qed simp

lemma thread_blocks_seg:
  assumes "i \<le> count" "0 < bs" "0 < cur"
  shows "seg (free_next (thread_blocks bs count [i..<count] cur st))
     (if i < count then Some cur else None) (map (\<lambda>j. cur + j * bs) [0..<count - i]) None"
  using assms
proof (induction i arbitrary: cur st rule: inc_induct)
  case base
  then show ?case by simp
next
  case (step i)
  define st1 where "st1 = st\<lparr>free_next := (free_next st)(cur :=
     (if i < count - 1 then non_null (cur + bs) else None))\<rparr>"
  have t: "thread_blocks bs count [i..<count] cur st = thread_blocks bs count [Suc i..<count] (cur + bs) st1"
    using step.hyps by (simp add: upt_conv_Cons st1_def)
  have n: "free_next (thread_blocks bs count [Suc i..<count] (cur + bs) st1) cur
      = (if Suc i < count then Some (cur + bs) else None)"
    using step.prems by (auto simp: thread_blocks_frame st1_def non_null_def)
  have "count - i = Suc (count - Suc i)" using step.hyps by simp
  then have m: "map (\<lambda>j. cur + j * bs) [0..<count - i]
      = cur # map (\<lambda>j. cur + bs + j * bs) [0..<count - Suc i]"
    by (simp only: map_upt_Suc) (simp add: algebra_simps)
  show ?case
    unfolding t m using step.IH [of "cur + bs" st1] step.prems step.hyps n by simp
qed

definition bucket_base :: "nat \<Rightarrow> nat \<Rightarrow> nat" where
  "bucket_base start i = start + 256 * (2 ^ (i + 3) - 8)"

definition bucket_blocks :: "nat \<Rightarrow> nat \<Rightarrow> nat list" where
  "bucket_blocks start i = map (\<lambda>j. bucket_base start i + j * 2 ^ (i + 3)) [0..<256]"

lemma length_bucket_blocks: "length (bucket_blocks start i) = 256"
  by (simp add: bucket_blocks_def)

lemma bucket_base_Suc: "bucket_base start (Suc i) = bucket_base start i + 256 * 2 ^ (i + 3)"
proof -
  have "8 \<le> (2::nat) ^ (i + 3)" "(2::nat) ^ (Suc i + 3) = 2 * 2 ^ (i + 3)" by (simp_all add: power_add)
  then show ?thesis unfolding bucket_base_def by linarith
qed

lemma bucket_base_mono: "i \<le> j \<Longrightarrow> bucket_base start i \<le> bucket_base start j"
  by (rule lift_Suc_mono_le [of "bucket_base start"]) (simp_all add: bucket_base_Suc)

lemma bucket_blocks_bounds:
  assumes "x \<in> set (bucket_blocks start i)"
  shows "bucket_base start i \<le> x" "x < bucket_base start (Suc i)"
proof -
  obtain j where j: "j < 256" "x = bucket_base start i + j * 2 ^ (i + 3)"
    using assms by (auto simp: bucket_blocks_def)
  show "bucket_base start i \<le> x" using j by simp
  have "j * 2 ^ (i + 3) < 256 * (2::nat) ^ (i + 3)" using j(1) by (rule mult_strict_right_mono) simp
  then show "x < bucket_base start (Suc i)" by (simp only: j bucket_base_Suc)
qed

lemma bucket_blocks_aligned:
  assumes "4096 dvd start" "0 < start" "i < 9" "x \<in> set (bucket_blocks start i)"
  shows "BUCKET_SIZES ! i dvd x" "x \<noteq> 0"
proof -
  have "(2::nat) ^ (i + 3) dvd 2 ^ 11" using assms(3) by (intro le_imp_power_dvd) simp
  then have "(2::nat) ^ (i + 3) dvd 256 * 8" "(2::nat) ^ (i + 3) dvd 4096" 
    by (auto intro: dvd_trans)
  then have "(2::nat) ^ (i + 3) dvd bucket_base start i"
    using assms(1) unfolding bucket_base_def diff_mult_distrib2
    by (intro dvd_add dvd_diff_nat) (auto intro: dvd_trans)
  then show "BUCKET_SIZES ! i dvd x"
    using assms(3,4) by (auto simp: bucket_blocks_def BUCKET_SIZES_nth)
  show "x \<noteq> 0" using bucket_blocks_bounds(1) [OF assms(4)] assms(2) by (simp add: bucket_base_def)
qed

lemma cover_consecutive: "cover (map (\<lambda>j. (s + j * k, k)) [0..<n]) b = covers (s, n * k) b"
proof (induction n)
  case (Suc n)
  have "covers (s, n * k + k) b = covers (s, n * k) b + covers (s + n * k, k) b" by (rule covers_join)
  then show ?case using Suc by (simp add: add.commute)
qed (simp add: covers_def)

lemma cover_bucket_blocks: "i < 9 \<Longrightarrow>
    cover (blocks_of i (bucket_blocks start i)) b = covers (bucket_base start i, 256 * 2 ^ (i + 3)) b"
  using cover_consecutive [of "bucket_base start i" "2 ^ (i + 3)" 256 b]
  by (simp add: blocks_of_def bucket_blocks_def BUCKET_SIZES_nth comp_def)

lemma bucket_cover_init:
  "bucket_cover (map (bucket_blocks start) [0..<9]) b = covers (start, bucket_base start 9 - start) b"
proof -
  have "k \<le> 9 \<Longrightarrow> (\<Sum>i<k. cover (blocks_of i (bucket_blocks start i)) b)
      = covers (start, bucket_base start k - start) b" for k
  proof (induction k)
    case 0
    then show ?case by (simp add: covers_def bucket_base_def)
  next
    case (Suc k)
    have s: "start \<le> bucket_base start k" by (simp add: bucket_base_def)
    have "bucket_base start (Suc k) - start = (bucket_base start k - start) + 256 * 2 ^ (k + 3)"
      using s by (simp only: bucket_base_Suc)
    then show ?case
      using Suc s cover_bucket_blocks [of k start b] covers_join [of start "bucket_base start k - start"]
      by simp
  qed
  from this [of 9] show ?thesis by (simp add: bucket_cover_def)
qed

definition carved :: "nat \<Rightarrow> nat \<Rightarrow> balloc \<Rightarrow> bool" where
  "carved start k a \<longleftrightarrow> length (buckets a) = 9 \<and> (\<forall>i < k. bucket_ok a i (bucket_blocks start i))"

lemma carve_step:
  assumes "carved start k a" "k < 9" "4096 dvd start" "0 < start"
    and b: "b = (buckets a ! k)\<lparr>block_size := BUCKET_SIZES ! k\<rparr>"
    and i: "bucket_init b (bucket_base start k) (2 ^ (k + 3) * 256) (mem a) = (b', st)"
  shows "carved start (Suc k) (a\<lparr>buckets := (buckets a)[k := b'], mem := st\<rparr>)"
    "large_next st = large_next (mem a)"
proof -
  let ?a = "a\<lparr>buckets := (buckets a)[k := b'], mem := st\<rparr>"
  have len: "length (buckets a) = 9" using assms(1) by (simp add: carved_def)
  have p: "(0::nat) < 2 ^ (k + 3)" "0 < bucket_base start k" using assms(4) by (simp_all add: bucket_base_def)
  have bs: "block_size b = 2 ^ (k + 3)" using assms(2) by (simp add: b BUCKET_SIZES_nth)
  have "2 ^ (k + 3) * 256 div block_size b = 256" unfolding bs by simp
  then have "st = thread_blocks (block_size b) 256 [0..<256] (bucket_base start k) (mem a)
     \<and> b' = b\<lparr>total_blocks := 256, free_blocks := 256, free_list := non_null (bucket_base start k)\<rparr>"
    using i unfolding bucket_init_def Let_def by (simp only: prod.inject)
  then have st: "st = thread_blocks (2 ^ (k + 3)) 256 [0..<256] (bucket_base start k) (mem a)"
    and b': "b' = b\<lparr>total_blocks := 256, free_blocks := 256, free_list := Some (bucket_base start k)\<rparr>"
    using p(2) unfolding bs non_null_def by (simp_all only: if_False less_not_refl2 neq0_conv if_True) 
  show "large_next st = large_next (mem a)" by (simp only: st thread_blocks_large)
  have "bucket_ok ?a j (bucket_blocks start j)" if "j < Suc k" for j
  proof (cases "j = k")
    case True
    have "seg (free_next st) (Some (bucket_base start k)) (bucket_blocks start k) None"
      using thread_blocks_seg [of 0 256 "2 ^ (k + 3)" "bucket_base start k" "mem a"] p
      unfolding st bucket_blocks_def by (simp only: diff_zero if_True zero_less_numeral le0)
    then show ?thesis
      using True len assms(2) bucket_blocks_aligned [OF assms(3,4,2)]
      by (simp add: bucket_ok_def b' b length_bucket_blocks)
  next
    case False
    then have "j < k" using that by simp
    have ok: "bucket_ok a j (bucket_blocks start j)" using assms(1) \<open>j < k\<close> by (simp add: carved_def)
    have same: "free_next (mem ?a) x = free_next (mem a) x" if "x \<in> set (bucket_blocks start j)" for x
    proof -
      have "x < bucket_base start k"
        using bucket_blocks_bounds(2) [OF that] bucket_base_mono [of "Suc j" k start] \<open>j < k\<close> by simp
      then have "free_next st x = free_next (mem a) x"
        unfolding st by (intro thread_blocks_frame p(1) disjI1)
      then show ?thesis by simp
    qed
    have "buckets ?a ! j = buckets a ! j" using False by simp
    from bucket_ok_frame [OF ok this same] show ?thesis .
  qed
  then show "carved start (Suc k) ?a" using len by (simp add: carved_def)
qed

lemma carve_all:
  assumes "k \<le> 9" "carved start k a" "4096 dvd start" "0 < start"
  shows "\<exists>a'. carve [k..<9] (bucket_base start k) (start + HEAP_SIZE - bucket_base start k) a
        = (bucket_base start 9, start + HEAP_SIZE - bucket_base start 9, a')
     \<and> carved start 9 a' \<and> large_next (mem a') = large_next (mem a) \<and> large_head a' = large_head a
     \<and> used a' = used a \<and> heap_start a' = heap_start a \<and> heap_end a' = heap_end a"
  using assms
proof (induction k arbitrary: a rule: inc_induct)
  case base
  then show ?case by simp
next
  case (step k)
  define b where "b = (buckets a ! k)\<lparr>block_size := BUCKET_SIZES ! k\<rparr>"
  obtain b' st where i: "bucket_init b (bucket_base start k) (2 ^ (k + 3) * 256) (mem a) = (b', st)"
    by fastforce
  let ?a = "a\<lparr>buckets := (buckets a)[k := b'], mem := st\<rparr>"
  note c = carve_step [OF step.prems(1) step.hyps(2) step.prems(2,3) b_def i]
  have len: "length (buckets a) = 9" using step.prems(1) by (simp add: carved_def)
  have "bucket_base start (Suc k) \<le> start + HEAP_SIZE"
    using bucket_base_mono [of "Suc k" 9 start] step.hyps by (simp add: bucket_base_def HEAP_SIZE_def)
  then have r: "\<not> start + HEAP_SIZE - bucket_base start k < 2 ^ (k + 3) * 256"
    "start + HEAP_SIZE - bucket_base start k - 2 ^ (k + 3) * 256 = start + HEAP_SIZE - bucket_base start (Suc k)"
    "bucket_base start k + 2 ^ (k + 3) * 256 = bucket_base start (Suc k)"
    by (simp_all only: bucket_base_Suc)
  have "carve [k..<9] (bucket_base start k) (start + HEAP_SIZE - bucket_base start k) a
      = carve [Suc k..<9] (bucket_base start (Suc k)) (start + HEAP_SIZE - bucket_base start (Suc k)) ?a"
    using step.hyps r i len
    by (simp add: upt_conv_Cons BUCKET_SIZES_nth BLOCKS_PER_BUCKET_def Let_def b_def del: power_Suc power_add)
  then show ?case using step.IH [OF c(1) step.prems(2,3)] c(2) by simp
qed

lemma init_heap_inv:
  assumes "4096 dvd start" "0 < start" "start + HEAP_SIZE \<le> 2 ^ 62"
  shows "heap_inv (init_heap start) (map (bucket_blocks start) [0..<9]) [(start + 1046528, 1050624)] []"
proof -
  let ?a0 = "balloc_new\<lparr>heap_start := start, heap_end := start + HEAP_SIZE\<rparr>"
  have b: "bucket_base start 0 = start" "bucket_base start 9 = start + 1046528" by (simp_all add: bucket_base_def)
  obtain a where a: "carve [0..<9] start HEAP_SIZE ?a0
        = (start + 1046528, 1050624, a)" "carved start 9 a"
     "large_next (mem a) = large_next (mem ?a0)" "large_head a = large_head ?a0"
     "used a = used ?a0" "heap_start a = heap_start ?a0" "heap_end a = heap_end ?a0"
    using carve_all [of 0 start ?a0, OF _ _ assms(1,2)]
    by (auto simp: carved_def balloc_new_def length_BUCKET_SIZES b HEAP_SIZE_def)
  let ?i = "a\<lparr>mem := (mem a)\<lparr>large_size := (large_size (mem a))(start + 1046528 := 1050624),
      large_next := (large_next (mem a))(start + 1046528 := None)\<rparr>, large_head := Some (start + 1046528)\<rparr>"
  have i: "init_heap start = ?i"
    using a(1) by (simp add: init_heap_def balloc_init_def length_BUCKET_SIZES LARGE_NODE_def non_null_def)
  have "bucket_ok ?i j (bucket_blocks start j)" if "j < 9" for j
    using a(2) that by (simp add: carved_def bucket_ok_def)
  moreover have "16 dvd start" using assms(1) by (auto intro: dvd_trans [of 16 4096])
  then have "16 dvd start + 1046528" by (intro dvd_add) simp_all
  moreover have "within start (start + HEAP_SIZE)
      (total_cover (map (bucket_blocks start) [0..<9]) [(start + 1046528, 1050624)] [])"
    using covers_join [of start 1046528 1050624]
    by (auto simp: within_def total_cover_def bucket_cover_init b HEAP_SIZE_def covers_def)
  ultimately show ?thesis
    unfolding i heap_inv_def using a(2,4-7) assms
    by (simp add: carved_def regions_def chain_def separated_def LARGE_NODE_def balloc_new_def)
qed

section \<open>Runs of the allocator\<close>

text \<open>The requests the buckets or the region list serve in blocks that \<open>dealloc\<close> recognises:
  a bucket that has a free block of enough alignment, or a large size in whole node units.\<close>

definition well_served :: "balloc \<Rightarrow> nat \<Rightarrow> nat \<Rightarrow> bool" where
  "well_served a sz al \<longleftrightarrow>
     (case bucket_index (max sz 8) of
        Some i \<Rightarrow> max al 8 \<le> BUCKET_SIZES ! i \<and> free_list (buckets a ! i) \<noteq> None
      | None \<Rightarrow> LARGE_NODE dvd sz)"

inductive heap_step :: "balloc \<times> held list \<Rightarrow> balloc \<times> held list \<Rightarrow> bool" where
  step_alloc: "layout_ok sz al \<Longrightarrow> well_served a sz al \<Longrightarrow> balloc_alloc a sz al = Some (Some p, a') \<Longrightarrow>
     heap_step (a, outs) (a', (p, sz, al) # outs)"
| step_fail: "layout_ok sz al \<Longrightarrow> well_served a sz al \<Longrightarrow> balloc_alloc a sz al = Some (None, a') \<Longrightarrow>
     heap_step (a, outs) (a', outs)"
| step_free: "(p, sz, al) \<in> set outs \<Longrightarrow> balloc_dealloc a p sz = Some a' \<Longrightarrow>
     heap_step (a, outs) (a', remove1 (p, sz, al) outs)"

inductive_cases heap_stepE: "heap_step (a, outs) (b, outs')"

definition heap_placed :: "nat \<Rightarrow> bool" where
  "heap_placed start \<longleftrightarrow> 4096 dvd start \<and> 0 < start \<and> start + HEAP_SIZE \<le> 2 ^ 62"

definition heap_reachable :: "nat \<Rightarrow> balloc \<Rightarrow> held list \<Rightarrow> bool" where
  "heap_reachable start a outs \<longleftrightarrow> heap_step\<^sup>*\<^sup>* (init_heap start, []) (a, outs)"

lemma alloc_step:
  assumes "heap_inv a fls rs outs" "layout_ok sz al" "well_served a sz al" "balloc_alloc a sz al = Some r"
  shows "\<exists>fls' rs'. heap_inv (snd r) fls' rs' (case fst r of Some p \<Rightarrow> (p, sz, al) # outs | None \<Rightarrow> outs)"
proof (cases "bucket_index (max sz 8)")
  case None
  then show ?thesis
    using alloc_large_step [OF assms(1,2) None] assms(1,3,4)
    by (cases "fst r") (fastforce simp: well_served_def)+
next
  case (Some i)
  then show ?thesis
    using alloc_bucket_step [OF assms(1,2) Some] assms(3,4) by (fastforce simp: well_served_def)
qed

lemma heap_step_inv:
  assumes "heap_step (a, outs) (b, outs')" "\<exists>fls rs. heap_inv a fls rs outs"
  shows "\<exists>fls rs. heap_inv b fls rs outs'"
proof -
  obtain fls rs where inv: "heap_inv a fls rs outs" using assms(2) by blast
  show ?thesis
    using assms(1)
  proof (rule heap_stepE)
    fix sz al p
    assume "outs' = (p, sz, al) # outs" "layout_ok sz al" "well_served a sz al"
      "balloc_alloc a sz al = Some (Some p, b)"
    then show ?thesis using alloc_step [OF inv] by fastforce
  next
    fix sz al
    assume "outs' = outs" "layout_ok sz al" "well_served a sz al" "balloc_alloc a sz al = Some (None, b)"
    then show ?thesis using alloc_step [OF inv] by fastforce
  next
    fix p sz al
    assume "outs' = remove1 (p, sz, al) outs" "(p, sz, al) \<in> set outs" "balloc_dealloc a p sz = Some b"
    then show ?thesis using free_step [OF inv] by fastforce
  qed
qed

lemma heap_reachable_inv:
  assumes "heap_placed start" "heap_reachable start a outs"
  shows "\<exists>fls rs. heap_inv a fls rs outs"
  using assms(2) unfolding heap_reachable_def
proof (induction rule: rtranclp_induct2)
  case refl
  then show ?case using init_heap_inv assms(1) unfolding heap_placed_def by blast
next
  case (step a outs b outs')
  then show ?case using heap_step_inv by blast
qed

lemma cover_two:
  assumes "i < length es" "j < length es" "i \<noteq> j"
  shows "covers (es ! i) b + covers (es ! j) b \<le> cover es b"
proof -
  have "cover es b = (\<Sum>k<length es. covers (es ! k) b)"
    unfolding cover_def by (simp add: sum_list_sum_nth atLeast0LessThan)
  moreover have "(\<Sum>k \<in> {i, j}. covers (es ! k) b) \<le> (\<Sum>k<length es. covers (es ! k) b)"
    using assms by (intro sum_mono2) auto
  ultimately show ?thesis using assms(3) by simp
qed

lemma held_disjoint:
  assumes inv: "heap_inv a fls rs outs" and ij: "i < length outs" "j < length outs" "i \<noteq> j"
    and o: "outs ! i = (p, sz, al)" "outs ! j = (q, sz', al')"
  shows "p + extent_size sz \<le> q \<or> q + extent_size sz' \<le> p"
proof (rule ccontr)
  assume no: "\<not> ?thesis"
  define b where "b = max p q"
  have "covers (extent (outs ! i)) b + covers (extent (outs ! j)) b \<le> 1"
    using cover_two [of i "map extent outs" j b] ij heap_inv_bound(1) [OF inv, of b] by simp
  then show False
    using no extent_size_ge(2) [of sz] extent_size_ge(2) [of sz'] o
    by (auto simp: covers_def extent_def b_def split: if_splits)
qed




lemma init_reachable: "heap_reachable start (init_heap start) []"
  by (simp add: heap_reachable_def)

lemma first_alloc:
  assumes "heap_placed start" "layout_ok sz al" "bucket_index (max sz 8) = Some i" "max al 8 \<le> BUCKET_SIZES ! i"
  shows "\<exists>p a. balloc_alloc (init_heap start) sz al = Some (Some p, a) \<and> heap_reachable start a [(p, sz, al)]"
proof -
  have inv: "heap_inv (init_heap start) (map (bucket_blocks start) [0..<9]) [(start + 1046528, 1050624)] []"
    using init_heap_inv assms(1) by (simp add: heap_placed_def)
  have i: "i < 9" using bucket_index_Some [OF assms(3)] by simp
  then have "bucket_ok (init_heap start) i (bucket_blocks start i)"
    using inv by (auto simp: heap_inv_def)
  then have ne: "free_list (buckets (init_heap start) ! i) \<noteq> None"
    using length_bucket_blocks [of start i]
    by (cases "bucket_blocks start i") (auto simp: bucket_ok_def)
  obtain p a where al: "balloc_alloc (init_heap start) sz al = Some (Some p, a)"
    using alloc_bucket_step [OF inv assms(2,3,4) ne] by blast
  then have "heap_step (init_heap start, []) (a, [(p, sz, al)])"
    using ne assms by (intro heap_step.step_alloc) (simp_all add: well_served_def)
  then show ?thesis using al unfolding heap_reachable_def by blast
qed

lemma layout_64_8: "layout_ok 64 8"
  by (auto simp: layout_ok_def intro: exI [of _ 3])

lemma heap_placed_1MB: "heap_placed 1048576"
  by (simp add: heap_placed_def HEAP_SIZE_def)

lemma one_block_reachable: "\<exists>p a. heap_reachable 1048576 a [(p, 64, 8)]"
  using first_alloc [OF heap_placed_1MB layout_64_8, of 3] by (auto simp: bucket_index_def BUCKET_SIZES_def)



lemma fl_free_alloc:
  assumes "fl_alloc sz al rs = Some (p, rs')" "0 < sz" "separated rs" "granular rs" "LARGE_NODE dvd sz"
    and "\<forall>(s, n) \<in> set rs. align_up s al = s"
  shows "fl_free p sz rs' = rs"
  using assms
proof (induction rs arbitrary: rs')
  case Nil
  then show ?case by simp
next
  case (Cons r rs)
  obtain s n where r: "r = (s, n)" by fastforce
  have up: "align_up s al = s" using Cons.prems(6) by (simp add: r)
  have sep: "\<forall>(t, k) \<in> set rs. s + n < t" "separated rs" "LARGE_NODE dvd n" "granular rs"
    using Cons.prems by (auto simp: r separated_Cons)
  show ?case
  proof (cases "s + sz \<le> s + n \<and> s + sz < 2 ^ 64")
    case True
    have exc: "\<not> LARGE_NODE \<le> n - sz \<Longrightarrow> n = sz"
    proof -
      assume small: "\<not> LARGE_NODE \<le> n - sz"
      have "LARGE_NODE dvd n - sz" using sep(3) Cons.prems(5) by (rule dvd_diff_nat)
      then have "n - sz = 0" using small dvd_imp_le by blast
      then show "n = sz" using True by simp
    qed
    have lt: "\<forall>(t, k) \<in> set rs. s < t" using sep(1) by fastforce
    show ?thesis
    proof (cases "LARGE_NODE \<le> n - sz")
      case big: True
      then show ?thesis using Cons.prems(1,2) True up lt
        by (auto simp: r Let_def)
    next
      case False
      have "glue (s, sz) rs = (s, sz) # rs"
        using sep(1) exc [OF False] by (cases rs) auto
      then show ?thesis using Cons.prems(1) True False up lt exc fl_free_before [of rs s sz]
        by (auto simp: r Let_def)
    qed
  next
    case False
    then obtain rs1 where rec: "fl_alloc sz al rs = Some (p, rs1)" "rs' = (s, n) # rs1"
      using Cons.prems(1) up by (auto simp: r Let_def split: if_splits)
    have IH: "fl_free p sz rs1 = rs" using Cons.IH [OF rec(1)] Cons.prems sep by simp
    have "\<exists>(t, k) \<in> set rs. t \<le> p"
      using rec(1) Cons.prems(6) by (induction rs arbitrary: rs1) (force simp: r Let_def split: if_splits)+
    then have "s + n < p" using sep(1) by fastforce
    then show ?thesis using IH by (simp add: rec(2) r)
  qed
qed



lemma initial_large_alloc:
  assumes "heap_placed start"
  shows "\<exists>p a1. balloc_alloc (init_heap start) 4096 8 = Some (Some p, a1)"
proof -
  have s: "4096 dvd start" "0 < start" "start + HEAP_SIZE \<le> 2 ^ 62" using assms by (simp_all add: heap_placed_def)
  note inv = init_heap_inv [OF s]
  have reg: "regions (init_heap start) [(start + 1046528, 1050624)]"
    "separated [(start + 1046528, 1050624)]" using inv by (auto simp: heap_inv_def)
  have "8 dvd start" using s(1) by (rule dvd_trans [rotated]) simp
  then have up: "align_up (start + 1046528) 8 = start + 1046528"
    using s(3) by (intro align_up_props(4) [of 0]) (auto simp: layout_ok_def HEAP_SIZE_def intro: exI [of _ 3] dvd_add)
  have lt: "start + 1046528 + 4096 < 2 ^ 64" using s(3) by (simp add: HEAP_SIZE_def)
  have "\<exists>rs'. fl_alloc 4096 8 [(start + 1046528, 1050624)] = Some (start + 1046528, rs')"
    using up lt by (simp add: Let_def)
  then show ?thesis
    using alloc_large_refines [OF reg, of 4096 8] up
    by (auto simp: balloc_alloc_def bucket_index_def BUCKET_SIZES_def Let_def non_null_def)
qed


section \<open>Leaving the safe use\<close>

text \<open>C9. When a bucket is empty a small request falls back to the region list, which hands out
  exactly the bytes asked for; freeing the block puts it on the bucket's list as a whole bucket
  block, so that the next block of that bucket overlaps the region that was left over, header
  included.\<close>

theorem exhausted_bucket_overlap:
  assumes inv: "heap_inv a fls ((s, n) # rs) outs"
    and lay: "layout_ok sz al" "al \<le> 8" "8 \<le> sz" "sz + LARGE_NODE \<le> n"
    and idx: "bucket_index sz = Some i" "free_list (buckets a ! i) = None" "sz < BUCKET_SIZES ! i"
  shows "\<exists>a1 a2. balloc_alloc a sz al = Some (Some s, a1) \<and> balloc_dealloc a1 s sz = Some a2
     \<and> fst (bucket_alloc (buckets a2 ! i) (mem a2)) = Some s \<and> block_size (buckets a2 ! i) = BUCKET_SIZES ! i
     \<and> regions a2 ((s + sz, n - sz) # rs) \<and> s + sz < s + BUCKET_SIZES ! i"
proof -
  have i: "i < 9" using bucket_index_Some [OF idx(1)] by simp
  have ok: "bucket_ok a i (fls ! i)" and len: "length (buckets a) = 9" using inv i by (auto simp: heap_inv_def)
  have reg: "regions a ((s, n) # rs)" "separated ((s, n) # rs)" "granular ((s, n) # rs)"
    using inv by (auto simp: heap_inv_def)
  have m: "max sz 8 = sz" "max al 8 = 8" using lay by auto
  have l8: "layout_ok sz 8" using layout_ok_max [OF lay(1)] m by simp
  have le: "\<forall>(t, k) \<in> set ((s, n) # rs). t \<le> align_up t 8"
    using region_bounds(6) [OF inv] align_up_props(1) [OF l8] by blast
  have "8 dvd s" using reg(3) by (auto simp: LARGE_NODE_def intro: dvd_trans [of 8 16])
  then have up: "align_up s 8 = s"
    using align_up_props(4) [OF l8 region_bounds(6) [OF inv]] list.set_intros(1) by metis
  have "s + sz < 2 ^ 64" using region_bounds(3) [OF inv, of s n] lay(4) by simp
  then have fl: "fl_alloc sz 8 ((s, n) # rs) = Some (s, (s + sz, n - sz) # rs)"
    using up lay(4) by (simp add: Let_def LARGE_NODE_def)
  have s0: "s \<noteq> 0" using region_bounds(4) [OF inv, of s n] by simp
  obtain a1 where a1: "alloc_large a sz 8 = Some (Some s, a1)" "regions a1 ((s + sz, n - sz) # rs)" "same_frame a1 a"
    using alloc_large_refines [OF reg(1,2) _ le, of sz] fl s0 lay(3) by (auto simp: non_null_def)
  have run: "balloc_alloc a sz al = Some (Some s, a1)"
    using a1(1) idx ok m by (simp add: balloc_alloc_def bucket_alloc_def Let_def bucket_ok_def)
  let ?b = "(buckets a1 ! i)\<lparr>free_list := Some s, free_blocks := free_blocks (buckets a1 ! i) + 1\<rparr>"
  let ?a2 = "a1\<lparr>used := used a1 - block_size (buckets a1 ! i), buckets := (buckets a1)[i := ?b],
     mem := (mem a1)\<lparr>free_next := (free_next (mem a1))(s := free_list (buckets a1 ! i))\<rparr>\<rparr>"
  have "balloc_dealloc a1 s sz = Some ?a2"
    using idx m s0 by (simp add: balloc_dealloc_def bucket_dealloc_def Let_def non_null_def)
  moreover have "regions ?a2 ((s + sz, n - sz) # rs)" using a1(2) by (simp add: regions_def chain_def)
  moreover have "block_size (buckets ?a2 ! i) = BUCKET_SIZES ! i" "fst (bucket_alloc (buckets ?a2 ! i) (mem ?a2)) = Some s"
    using a1(3) ok len i by (simp_all add: same_frame_def bucket_ok_def bucket_alloc_def)
  moreover have "s + sz < s + BUCKET_SIZES ! i" using idx(3) by simp
  ultimately show ?thesis using run by blast
qed

definition drained_heap :: balloc where
  "drained_heap = \<lparr>buckets = map (\<lambda>b. \<lparr>block_size = b, free_list = None, total_blocks = 256, free_blocks = 0\<rparr>)
       BUCKET_SIZES, large_head = Some 4096, used = 0, heap_start = 4096, heap_end = 8192,
     mem = \<lparr>free_next = (\<lambda>_. None), large_size = (\<lambda>_. 4096), large_next = (\<lambda>_. None)\<rparr>\<rparr>"

lemma drained_heap_inv: "heap_inv drained_heap (replicate 9 []) [(4096, 4096)] []"
proof -
  have "bucket_ok drained_heap i []" if "i < 9" for i
    using that by (simp add: bucket_ok_def drained_heap_def length_BUCKET_SIZES)
  then show ?thesis
    by (auto simp: heap_inv_def drained_heap_def length_BUCKET_SIZES regions_def chain_def separated_def
        LARGE_NODE_def within_def total_cover_def bucket_cover_def blocks_of_def covers_def)
qed

theorem exhausted_bucket_overlap_witness:
  "\<exists>a1 a2. balloc_alloc drained_heap 24 8 = Some (Some 4096, a1) \<and> balloc_dealloc a1 4096 24 = Some a2
     \<and> regions a2 [(4120, 4072)] \<and> fst (bucket_alloc (buckets a2 ! 2) (mem a2)) = Some 4096
     \<and> block_size (buckets a2 ! 2) = 32"
proof -
  have l: "layout_ok 24 8" by (auto simp: layout_ok_def intro: exI [of _ 3])
  from exhausted_bucket_overlap [OF drained_heap_inv l, of 2] show ?thesis
    by (auto simp: LARGE_NODE_def bucket_index_def BUCKET_SIZES_def drained_heap_def)
qed

end
