(* ===== verification/Scheduler.thy ===== *)
theory Scheduler
  imports Prelude
begin

text \<open>
  The round-robin scheduler of \<^verbatim>\<open>src/scheduler.rs\<close> with the interrupt stubs of
  \<^verbatim>\<open>src/asm.rs\<close> that drive it. The stubs are instruction lists run by a small machine:
  registers, the fields the CPU pushes on an interrupt, a memory of aligned 64-bit cells. A call
  of a Rust handler clobbers what the System V calling convention lets it clobber: the
  caller-saved registers and scratch stack memory, both given by a parameter. \<open>spawn\<close> writes its
  frame into the same memory, so the theorems on context switches are about the bytes that the
  code lays out and the order in which the stub pops them.
\<close>

section \<open>Tasks\<close>

definition MAX_TASKS :: nat where "MAX_TASKS = 8"

definition STACK_SIZE :: u64 where "STACK_SIZE = 32768"

datatype task_state = Free | Ready | Running

text \<open>\<open>stack\<close> is the address of the task's stack array.\<close>

record task =
  rsp :: u64
  tstate :: task_state
  stack :: u64

record sched =
  tasks :: "task list"
  current :: nat

definition sched_new :: "(nat \<Rightarrow> u64) \<Rightarrow> sched" where
  "sched_new stacks =
     \<lparr>tasks = map (\<lambda>i. \<lparr>rsp = 0, tstate = Free, stack = stacks i\<rparr>) [0 ..< MAX_TASKS], current = 0\<rparr>"

definition task_upd :: "sched \<Rightarrow> nat \<Rightarrow> (task \<Rightarrow> task) \<Rightarrow> sched" where
  "task_upd s i f = s\<lparr>tasks := (tasks s)[i := f (tasks s ! i)]\<rparr>"

definition set_state :: "sched \<Rightarrow> nat \<Rightarrow> task_state \<Rightarrow> sched" where
  "set_state s i st = task_upd s i (\<lambda>t. t\<lparr>tstate := st\<rparr>)"

definition sched_init :: "sched \<Rightarrow> sched" where
  "sched_init s = set_state s 0 Ready"

text \<open>The frame \<open>spawn\<close> writes below the stack top, in the order of the writes.\<close>

definition spawn_frame :: "u64 \<Rightarrow> u64 \<Rightarrow> u64 list" where
  "spawn_frame stack_top entry =
     [0x10, stack_top - 8, 0x200, 0x08, entry, 0, 0, 0, 0, 0, 0, 0, 0, 0, 0, 0, 0, 0, 0, 0]"

fun write_down :: "u64 \<Rightarrow> u64 list \<Rightarrow> (u64 \<Rightarrow> u64) \<Rightarrow> u64 \<Rightarrow> u64" where
  "write_down sp [] ram = ram"
| "write_down sp (v # vs) ram = write_down (sp - 8) vs (ram(sp - 8 := v))"

fun find_free :: "sched \<Rightarrow> nat list \<Rightarrow> nat option" where
  "find_free s [] = None"
| "find_free s (i # is) = (if tstate (tasks s ! i) = Free then Some i else find_free s is)"

definition spawn :: "sched \<Rightarrow> (u64 \<Rightarrow> u64) \<Rightarrow> u64 \<Rightarrow> int \<times> sched \<times> (u64 \<Rightarrow> u64)" where
  "spawn s ram entry =
     (case find_free s [1 ..< MAX_TASKS] of
        Some i \<Rightarrow>
          let stack_top = stack (tasks s ! i) + STACK_SIZE;
              ram = write_down stack_top (spawn_frame stack_top entry) ram
          in (int i, task_upd s i (\<lambda>t. t\<lparr>rsp := stack_top - 160, tstate := Ready\<rparr>), ram)
      | None \<Rightarrow> (-1, s, ram))"

section \<open>The scheduler\<close>

fun pick_next :: "nat \<Rightarrow> sched \<Rightarrow> nat \<Rightarrow> nat option" where
  "pick_next 0 s i = None"
| "pick_next (Suc left) s i =
     (if tstate (tasks s ! i) = Ready then Some i else pick_next left s ((i + 1) mod MAX_TASKS))"

definition schedule :: "sched \<Rightarrow> u64 \<Rightarrow> u64 \<times> sched" where
  "schedule s current_rsp =
     (let cur = current s;
          s = task_upd s cur (\<lambda>t. t\<lparr>rsp := current_rsp\<rparr>);
          s = (if tstate (tasks s ! cur) = Running then set_state s cur Ready else s) in
      case pick_next MAX_TASKS s ((cur + 1) mod MAX_TASKS) of
        Some next \<Rightarrow> (rsp (tasks s ! next), (set_state s next Running)\<lparr>current := next\<rparr>)
      | None \<Rightarrow> (current_rsp, set_state s cur Running))"

text \<open>The rows of \<open>print_tasks\<close>: slot, state, stack pointer.\<close>

definition task_rows :: "sched \<Rightarrow> (nat \<times> string \<times> u64) list" where
  "task_rows s =
     [(i, case tstate (tasks s ! i) of Free \<Rightarrow> ''Free'' | Ready \<Rightarrow> ''Ready'' | Running \<Rightarrow> ''Run'',
       rsp (tasks s ! i)).
      i \<leftarrow> [0 ..< MAX_TASKS], tstate (tasks s ! i) \<noteq> Free]"

section \<open>The machine under the stubs\<close>

datatype reg = RAX | RBX | RCX | RDX | RBP | RSI | RDI
  | R8 | R9 | R10 | R11 | R12 | R13 | R14 | R15 | RSP

datatype handler = Divide_handler | Invalid_opcode_handler | Double_fault_handler | Gpf_handler
  | Page_fault_handler | Timer_handler | Keyboard_handler | Mouse_handler

datatype instr = Push reg | Push_imm u64 | Pop reg | Mov reg reg | Load_sp reg u64
  | Lea_sp u64 | Add_sp u64 | Call handler | Iretq

record machine =
  regs :: "reg \<Rightarrow> u64"
  rip :: u64
  cs :: u64
  rflags :: u64
  ss :: u64
  ram :: "u64 \<Rightarrow> u64"
  sched :: sched
  ticks :: u32
  halted :: "(handler \<times> u64) option"

record clobber =
  junk_reg :: "reg \<Rightarrow> u64"
  junk_ram :: "u64 \<Rightarrow> u64"
  scratch :: "u64 \<Rightarrow> bool"

fun caller_saved :: "reg \<Rightarrow> bool" where
  "caller_saved r = (r \<in> {RAX, RCX, RDX, RSI, RDI, R8, R9, R10, R11})"

definition set_reg :: "reg \<Rightarrow> u64 \<Rightarrow> machine \<Rightarrow> machine" where
  "set_reg r v m = m\<lparr>regs := (regs m)(r := v)\<rparr>"

definition push_val :: "u64 \<Rightarrow> machine \<Rightarrow> machine" where
  "push_val v m = (let sp = regs m RSP - 8 in set_reg RSP sp (m\<lparr>ram := (ram m)(sp := v)\<rparr>))"

text \<open>The handlers of \<^verbatim>\<open>src/interrupts.rs\<close>: the exception handlers print and halt for
  ever, the others return; \<open>timer_handler\<close> counts the tick and asks \<open>schedule\<close> for the stack to
  go on with.\<close>

definition never_returns :: "handler \<Rightarrow> bool" where
  "never_returns h = (h \<in> {Divide_handler, Invalid_opcode_handler, Double_fault_handler, Gpf_handler,
     Page_fault_handler})"

definition call_handler :: "clobber \<Rightarrow> handler \<Rightarrow> machine \<Rightarrow> machine" where
  "call_handler c h m =
     (if never_returns h then m\<lparr>halted := Some (h, regs m RDI)\<rparr>
      else
        let arg = regs m RDI;
            m = m\<lparr>ram := (\<lambda>a. if scratch c a then junk_ram c a else ram m a),
                  regs := (\<lambda>r. if caller_saved r then junk_reg c r else regs m r)\<rparr>
        in if h = Timer_handler then
             (case schedule (sched m) arg of
                (new_rsp, s) \<Rightarrow> set_reg RAX new_rsp (m\<lparr>sched := s, ticks := ticks m + 1\<rparr>))
           else m)"

fun exec :: "clobber \<Rightarrow> instr \<Rightarrow> machine \<Rightarrow> machine" where
  "exec c (Push r) m = push_val (regs m r) m"
| "exec c (Push_imm v) m = push_val v m"
| "exec c (Pop r) m = set_reg r (ram m (regs m RSP)) (set_reg RSP (regs m RSP + 8) m)"
| "exec c (Mov d r) m = set_reg d (regs m r) m"
| "exec c (Load_sp d off) m = set_reg d (ram m (regs m RSP + off)) m"
| "exec c (Lea_sp a) m = set_reg RSP a m"
| "exec c (Add_sp n) m = set_reg RSP (regs m RSP + n) m"
| "exec c (Call h) m = call_handler c h m"
| "exec c Iretq m =
     (let sp = regs m RSP in
      set_reg RSP (ram m (sp + 24))
        (m\<lparr>rip := ram m sp, cs := ram m (sp + 8), rflags := ram m (sp + 16), ss := ram m (sp + 32)\<rparr>))"

fun run :: "clobber \<Rightarrow> instr list \<Rightarrow> machine \<Rightarrow> machine" where
  "run c [] m = m"
| "run c (i # is) m = (if halted m \<noteq> None then m else run c is (exec c i m))"

text \<open>What the CPU does before the first instruction of a stub: align the stack pointer to 16,
  push the frame that \<open>iretq\<close> pops, and for some exceptions an error code.\<close>

definition interrupt_entry :: "machine \<Rightarrow> machine" where
  "interrupt_entry m =
     (let old = regs m RSP in
      push_val (rip m) (push_val (cs m) (push_val (rflags m) (push_val old (push_val (ss m)
        (set_reg RSP (old AND NOT 15) m))))))"

definition exception_entry :: "u64 \<Rightarrow> machine \<Rightarrow> machine" where
  "exception_entry err m = push_val err (interrupt_entry m)"

text \<open>\<open>millis\<close> and \<open>elapsed\<close> of \<^verbatim>\<open>src/timer.rs\<close>: the 32-bit tick count, widened.\<close>

definition millis :: "machine \<Rightarrow> u64" where
  "millis m = ucast (ticks m)"

definition elapsed :: "machine \<Rightarrow> u64 \<times> u64" where
  "elapsed m = (millis m div 1000, millis m mod 1000)"

text \<open>The frame-pointer walk of \<open>print_stack_trace\<close> in \<^verbatim>\<open>src/arch.rs\<close>: at most 16 frames, every
  frame pointer checked before it is read.\<close>

datatype trace_line = Return_to u64 | Invalid_frame u64 | Invalid_pointer

fun stack_trace :: "nat \<Rightarrow> (u64 \<Rightarrow> u64) \<Rightarrow> u64 \<Rightarrow> trace_line list" where
  "stack_trace 0 cells frame = []"
| "stack_trace (Suc n) cells frame =
     (if frame = 0 then []
      else if frame < 0x100000 \<or> frame > 0x800000000000 \<or> frame mod 8 \<noteq> 0 then [Invalid_frame frame]
      else if frame + 8 < 0x100000 \<or> frame + 8 > 0x800000000000 then [Invalid_pointer]
      else Return_to (cells (frame + 8)) # stack_trace n cells (cells frame))"

definition print_stack_trace :: "(u64 \<Rightarrow> u64) \<Rightarrow> u64 \<Rightarrow> trace_line list" where
  "print_stack_trace cells rbp = stack_trace 16 cells rbp"

section \<open>The stubs\<close>

definition isr0_code :: "instr list" where
  "isr0_code = [Push_imm 0, Push_imm 0,
     Push R15, Push R14, Push R13, Push R12, Push R11, Push R10, Push R9, Push R8,
     Push RDI, Push RSI, Push RBP, Push RDX, Push RCX, Push RBX, Push RAX,
     Call Divide_handler,
     Pop RAX, Pop RBX, Pop RCX, Pop RDX, Pop RBP, Pop RSI, Pop RDI,
     Pop R8, Pop R9, Pop R10, Pop R11, Pop R12, Pop R13, Pop R14, Pop R15, Add_sp 16, Iretq]"

definition isr6_code :: "instr list" where
  "isr6_code = [Push_imm 0, Push_imm 6,
     Push R15, Push R14, Push R13, Push R12, Push R11, Push R10, Push R9, Push R8,
     Push RDI, Push RSI, Push RBP, Push RDX, Push RCX, Push RBX, Push RAX,
     Call Invalid_opcode_handler,
     Pop RAX, Pop RBX, Pop RCX, Pop RDX, Pop RBP, Pop RSI, Pop RDI,
     Pop R8, Pop R9, Pop R10, Pop R11, Pop R12, Pop R13, Pop R14, Pop R15, Add_sp 16, Iretq]"

definition isr8_code :: "u64 \<Rightarrow> instr list" where
  "isr8_code df_stack_top = [Lea_sp df_stack_top, Push_imm 8,
     Push R15, Push R14, Push R13, Push R12, Push R11, Push R10, Push R9, Push R8,
     Push RDI, Push RSI, Push RBP, Push RDX, Push RCX, Push RBX, Push RAX,
     Call Double_fault_handler]"

definition isr13_code :: "instr list" where
  "isr13_code = [
     Push R15, Push R14, Push R13, Push R12, Push R11, Push R10, Push R9, Push R8,
     Push RDI, Push RSI, Push RBP, Push RDX, Push RCX, Push RBX, Push RAX,
     Load_sp RDI (15 * 8), Call Gpf_handler,
     Pop RAX, Pop RBX, Pop RCX, Pop RDX, Pop RBP, Pop RSI, Pop RDI,
     Pop R8, Pop R9, Pop R10, Pop R11, Pop R12, Pop R13, Pop R14, Pop R15, Add_sp 8, Iretq]"

definition isr14_code :: "instr list" where
  "isr14_code = [
     Push R15, Push R14, Push R13, Push R12, Push R11, Push R10, Push R9, Push R8,
     Push RDI, Push RSI, Push RBP, Push RDX, Push RCX, Push RBX, Push RAX,
     Load_sp RDI (15 * 8), Call Page_fault_handler,
     Pop RAX, Pop RBX, Pop RCX, Pop RDX, Pop RBP, Pop RSI, Pop RDI,
     Pop R8, Pop R9, Pop R10, Pop R11, Pop R12, Pop R13, Pop R14, Pop R15, Add_sp 8, Iretq]"

definition irq0_code :: "instr list" where
  "irq0_code = [
     Push R15, Push R14, Push R13, Push R12, Push R11, Push R10, Push R9, Push R8,
     Push RDI, Push RSI, Push RBP, Push RDX, Push RCX, Push RBX, Push RAX,
     Mov RDI RSP, Call Timer_handler, Mov RSP RAX,
     Pop RAX, Pop RBX, Pop RCX, Pop RDX, Pop RBP, Pop RSI, Pop RDI,
     Pop R8, Pop R9, Pop R10, Pop R11, Pop R12, Pop R13, Pop R14, Pop R15, Iretq]"

definition irq1_code :: "instr list" where
  "irq1_code = [
     Push R15, Push R14, Push R13, Push R12, Push R11, Push R10, Push R9, Push R8,
     Push RDI, Push RSI, Push RBP, Push RDX, Push RCX, Push RBX, Push RAX,
     Call Keyboard_handler,
     Pop RAX, Pop RBX, Pop RCX, Pop RDX, Pop RBP, Pop RSI, Pop RDI,
     Pop R8, Pop R9, Pop R10, Pop R11, Pop R12, Pop R13, Pop R14, Pop R15, Iretq]"

definition irq12_code :: "instr list" where
  "irq12_code = [
     Push R15, Push R14, Push R13, Push R12, Push R11, Push R10, Push R9, Push R8,
     Push RDI, Push RSI, Push RBP, Push RDX, Push RCX, Push RBX, Push RAX,
     Call Mouse_handler,
     Pop RAX, Pop RBX, Pop RCX, Pop RDX, Pop RBP, Pop RSI, Pop RDI,
     Pop R8, Pop R9, Pop R10, Pop R11, Pop R12, Pop R13, Pop R14, Pop R15, Iretq]"

definition irq0 :: "clobber \<Rightarrow> machine \<Rightarrow> machine" where
  "irq0 c m = run c irq0_code (interrupt_entry m)"


section \<open>Frames in memory\<close>

lemma write_down_append:
  "write_down sp (xs @ ys) cells = write_down (sp - 8 * of_nat (length xs)) ys (write_down sp xs cells)"
  by (induction xs arbitrary: sp cells) (simp_all add: algebra_simps)

lemma write_down_other:
  "(\<And>i. i < length vs \<Longrightarrow> a \<noteq> sp - 8 * of_nat (Suc i)) \<Longrightarrow> write_down sp vs cells a = cells a"
proof (induction vs arbitrary: sp cells)
  case (Cons v vs)
  have "a \<noteq> sp - 8" using Cons.prems [of 0] by simp
  moreover have "write_down (sp - 8) vs (cells(sp - 8 := v)) a = (cells(sp - 8 := v)) a"
    using Cons.prems [of "Suc i" for i] by (intro Cons.IH) (simp add: algebra_simps)
  ultimately show ?case by simp
qed simp

lemma word_8_mult_nz: "0 < i \<Longrightarrow> i < 2 ^ 61 \<Longrightarrow> (8 * of_nat i :: u64) \<noteq> 0"
proof
  assume i: "0 < i" "i < 2 ^ 61" and "(8 * of_nat i :: u64) = 0"
  then have "(of_nat (8 * i) :: u64) = 0" by simp
  then have "2 ^ 64 dvd 8 * i" by (simp add: word_of_nat_eq_0_iff del: of_nat_mult)
  then show False using i by (auto dest: dvd_imp_le)
qed

lemma word_below_neq:
  assumes "0 < i" "i < 2 ^ 61"
  shows "(x :: u64) \<noteq> x - 8 * of_nat i"
proof -
  have "y \<noteq> 0 \<Longrightarrow> x \<noteq> x - y" for y by simp
  then show ?thesis using word_8_mult_nz [OF assms] by blast
qed

lemma write_down_nth:
  "i < length vs \<Longrightarrow> length vs < 2 ^ 61 \<Longrightarrow> write_down sp vs cells (sp - 8 * of_nat (Suc i)) = vs ! i"
proof (induction vs arbitrary: sp cells i)
  case (Cons v vs)
  show ?case
  proof (cases i)
    case 0
    have "write_down (sp - 8) vs (cells(sp - 8 := v)) (sp - 8) = (cells(sp - 8 := v)) (sp - 8)"
      using Cons.prems(2) by (intro write_down_other word_below_neq) auto
    then show ?thesis by (simp add: 0)
  next
    case (Suc j)
    have eq: "sp - 8 * of_nat (Suc (Suc j)) = sp - 8 - 8 * of_nat (Suc j)" by (simp add: algebra_simps)
    have "j < length vs" "length vs < 2 ^ 61" using Cons.prems Suc by simp_all
    then show ?thesis unfolding Suc eq write_down.simps nth_Cons_Suc by (rule Cons.IH)
  qed
qed simp

definition frame_at :: "(u64 \<Rightarrow> u64) \<Rightarrow> u64 \<Rightarrow> u64 list \<Rightarrow> bool" where
  "frame_at cells sp vs \<longleftrightarrow> (\<forall>i < length vs. cells (sp + 8 * of_nat i) = vs ! i)"

lemma write_down_frame:
  assumes "length vs < 2 ^ 61"
  shows "frame_at (write_down (sp + 8 * of_nat (length vs)) vs cells) sp (rev vs)"
  unfolding frame_at_def
proof (intro allI impI)
  fix i assume i: "i < length (rev vs)"
  define j where "j = length vs - Suc i"
  have "length vs = Suc j + i" using i by (simp add: j_def)
  then have eq: "sp + 8 * of_nat i = sp + 8 * of_nat (length vs) - 8 * of_nat (Suc j)"
    by (simp add: algebra_simps)
  have "j < length vs" using i by (simp add: j_def)
  then have "write_down (sp + 8 * of_nat (length vs)) vs cells (sp + 8 * of_nat i) = vs ! j"
    unfolding eq using assms by (rule write_down_nth)
  then show "write_down (sp + 8 * of_nat (length vs)) vs cells (sp + 8 * of_nat i) = rev vs ! i"
    using i by (simp add: rev_nth j_def)
qed

lemma run_append: "run c (xs @ ys) m = run c ys (run c xs m)"
  by (induction xs arbitrary: m) (auto, cases ys, auto)

lemma run_pushes:
  "halted m = None \<Longrightarrow> RSP \<notin> set rs \<Longrightarrow>
   run c (map Push rs) m = m\<lparr>regs := (regs m)(RSP := regs m RSP - 8 * of_nat (length rs)),
      ram := write_down (regs m RSP) (map (regs m) rs) (ram m)\<rparr>"
proof (induction rs arbitrary: m)
  case (Cons r rs)
  have v: "map ((regs m)(RSP := v)) rs = map (regs m) rs" for v using Cons.prems(2) by auto
  let ?m = "m\<lparr>regs := (regs m)(RSP := regs m RSP - 8), ram := (ram m)(regs m RSP - 8 := regs m r)\<rparr>"
  have e: "exec c (Push r) m = ?m" by (simp add: push_val_def set_reg_def Let_def)
  have "run c (map Push (r # rs)) m = run c (map Push rs) ?m"
    using Cons.prems(1) by (simp only: list.map run.simps e) simp
  also have "\<dots> = ?m\<lparr>regs := (regs ?m)(RSP := regs ?m RSP - 8 * of_nat (length rs)),
      ram := write_down (regs ?m RSP) (map (regs ?m) rs) (ram ?m)\<rparr>"
    using Cons.prems by (intro Cons.IH) simp_all
  also have "\<dots> = m\<lparr>regs := (regs m)(RSP := regs m RSP - 8 - 8 * of_nat (length rs)),
      ram := write_down (regs m RSP - 8) (map (regs m) rs) ((ram m)(regs m RSP - 8 := regs m r))\<rparr>"
    by (simp add: v)
  also have "regs m RSP - 8 - 8 * of_nat (length rs) = regs m RSP - 8 * of_nat (length (r # rs))"
    by (simp add: algebra_simps)
  finally show ?case by (simp only: list.map write_down.simps)
qed simp

fun load_list :: "reg list \<Rightarrow> u64 list \<Rightarrow> (reg \<Rightarrow> u64) \<Rightarrow> reg \<Rightarrow> u64" where
  "load_list (r # rs) (v # vs) g = load_list rs vs (g(r := v))"
| "load_list _ _ g = g"

lemma run_pops:
  "halted m = None \<Longrightarrow> RSP \<notin> set rs \<Longrightarrow> frame_at (ram m) (regs m RSP) vs \<Longrightarrow> length rs \<le> length vs \<Longrightarrow>
   run c (map Pop rs) m = m\<lparr>regs := (load_list rs vs (regs m))(RSP := regs m RSP + 8 * of_nat (length rs))\<rparr>"
proof (induction rs arbitrary: m vs)
  case (Cons r rs)
  obtain v vs' where vs: "vs = v # vs'" using Cons.prems(4) by (cases vs) auto
  have v: "ram m (regs m RSP) = v" using Cons.prems(3) by (auto simp: frame_at_def vs)
  have tl: "frame_at (ram m) (regs m RSP + 8) vs'"
    unfolding frame_at_def
  proof (intro allI impI)
    fix i assume "i < length vs'"
    then show "ram m (regs m RSP + 8 + 8 * of_nat i) = vs' ! i"
      using Cons.prems(3) unfolding frame_at_def vs by (auto dest!: spec [of _ "Suc i"] simp: algebra_simps)
  qed
  have comm: "load_list rs vs (g(RSP := x)) = (load_list rs vs g)(RSP := x)" if "RSP \<notin> set rs" for g x rs vs
    using that by (induction rs vs g rule: load_list.induct) (auto simp: fun_upd_twist)
  let ?m = "m\<lparr>regs := (regs m)(RSP := regs m RSP + 8, r := v)\<rparr>"
  have e: "exec c (Pop r) m = ?m" by (simp add: set_reg_def v)
  have "run c (map Pop (r # rs)) m = run c (map Pop rs) ?m"
    using Cons.prems(1) by (simp only: list.map run.simps e) simp
  also have "\<dots> = ?m\<lparr>regs := (load_list rs vs' (regs ?m))(RSP := regs ?m RSP + 8 * of_nat (length rs))\<rparr>"
    using Cons.prems tl by (intro Cons.IH) (auto simp: vs)
  also have "\<dots> = m\<lparr>regs := (load_list rs vs' ((regs m)(r := v)))(RSP := regs m RSP + 8 + 8 * of_nat (length rs))\<rparr>"
    using Cons.prems(2) by (simp add: comm fun_upd_twist [of RSP r])
  also have "regs m RSP + 8 + 8 * of_nat (length rs) = regs m RSP + 8 * of_nat (length (r # rs))"
    by (simp add: algebra_simps)
  finally show ?case by (simp only: vs load_list.simps)
qed simp

section \<open>Saving and resuming a task\<close>

definition saved_regs :: "reg list" where
  "saved_regs = [R15, R14, R13, R12, R11, R10, R9, R8, RDI, RSI, RBP, RDX, RCX, RBX, RAX]"

lemma saved_regs_facts [simp]: "RSP \<notin> set saved_regs" "length saved_regs = 15"
  by (simp_all add: saved_regs_def)

lemma irq_codes:
  "irq0_code = map Push saved_regs @ [Mov RDI RSP, Call Timer_handler, Mov RSP RAX] @ map Pop (rev saved_regs) @ [Iretq]"
  "irq1_code = map Push saved_regs @ [Call Keyboard_handler] @ map Pop (rev saved_regs) @ [Iretq]"
  "irq12_code = map Push saved_regs @ [Call Mouse_handler] @ map Pop (rev saved_regs) @ [Iretq]"
  by (simp_all add: irq0_code_def irq1_code_def irq12_code_def saved_regs_def)

definition frame_addr :: "machine \<Rightarrow> u64" where
  "frame_addr m = (regs m RSP AND NOT 15) - 160"

definition frame_of :: "machine \<Rightarrow> u64 list" where
  "frame_of m = map (regs m) (rev saved_regs) @ [rip m, cs m, rflags m, regs m RSP, ss m]"

lemma length_frame_of [simp]: "length (frame_of m) = 20"
  by (simp add: frame_of_def)

lemma interrupt_entry_eq:
  "interrupt_entry m = m\<lparr>regs := (regs m)(RSP := frame_addr m + 120),
     ram := write_down (frame_addr m + 160) [ss m, regs m RSP, rflags m, cs m, rip m] (ram m)\<rparr>"
  by (simp add: interrupt_entry_def frame_addr_def push_val_def set_reg_def Let_def algebra_simps)

lemma entry_pushes:
  assumes "halted m = None"
  shows "run c (map Push saved_regs) (interrupt_entry m) = m\<lparr>regs := (regs m)(RSP := frame_addr m),
     ram := write_down (frame_addr m + 8 * of_nat (length (rev (frame_of m)))) (rev (frame_of m)) (ram m)\<rparr>"
proof -
  have "map (regs (interrupt_entry m)) saved_regs = map (regs m) saved_regs"
    by (simp add: interrupt_entry_eq saved_regs_def)
  then show ?thesis
    using run_pushes [of "interrupt_entry m" saved_regs c] assms
    by (simp add: interrupt_entry_eq frame_of_def rev_map write_down_append algebra_simps)
qed

lemma restore_frame:
  assumes "halted m = None" "frame_at (ram m) (regs m RSP) (frame_of t)"
  shows "run c (map Pop (rev saved_regs) @ [Iretq]) m =
    m\<lparr>regs := regs t, rip := rip t, cs := cs t, rflags := rflags t, ss := ss t\<rparr>"
proof -
  have f: "ram m (regs m RSP + 8 * of_nat i) = frame_of t ! i" if "i < 20" for i
    using assms(2) that by (simp add: frame_at_def)
  have g: "ram m (regs m RSP + 120) = rip t" "ram m (regs m RSP + 128) = cs t"
    "ram m (regs m RSP + 136) = rflags t" "ram m (regs m RSP + 144) = regs t RSP" "ram m (regs m RSP + 152) = ss t"
    using f [of 15] f [of 16] f [of 17] f [of 18] f [of 19]
    by (simp_all add: frame_of_def saved_regs_def)
  have r: "(load_list (rev saved_regs) (frame_of t) g)(RSP := regs t RSP) = regs t" for g
  proof (rule ext)
    fix x show "((load_list (rev saved_regs) (frame_of t) g)(RSP := regs t RSP)) x = regs t x"
      by (cases x) (simp_all add: saved_regs_def frame_of_def)
  qed
  have "run c (map Pop (rev saved_regs)) m = m\<lparr>regs := (load_list (rev saved_regs) (frame_of t) (regs m))
      (RSP := regs m RSP + 120)\<rparr>"
    using run_pops [OF assms(1) _ assms(2), of "rev saved_regs" c] by simp
  then show ?thesis
    using assms(1) g r by (simp add: run_append set_reg_def Let_def algebra_simps)
qed

section \<open>The scheduling decision\<close>

definition wf_sched :: "sched \<Rightarrow> bool" where
  "wf_sched s \<longleftrightarrow> length (tasks s) = MAX_TASKS \<and> current s < MAX_TASKS"

definition ready :: "sched \<Rightarrow> nat \<Rightarrow> bool" where
  "ready s i \<longleftrightarrow> tstate (tasks s ! i) = Ready \<or> i = current s \<and> tstate (tasks s ! i) = Running"

lemma task_upd_simps [simp]:
  "length (tasks (task_upd s i f)) = length (tasks s)" "current (task_upd s i f) = current s"
  "i < length (tasks s) \<Longrightarrow> tasks (task_upd s i f) ! j = (if i = j then f (tasks s ! i) else tasks s ! j)"
  by (simp_all add: task_upd_def)

lemma pick_next_Some:
  "pick_next n s i = Some j \<Longrightarrow> i < MAX_TASKS \<Longrightarrow>
   \<exists>k < n. j = (i + k) mod MAX_TASKS \<and> tstate (tasks s ! j) = Ready
     \<and> (\<forall>l < k. tstate (tasks s ! ((i + l) mod MAX_TASKS)) \<noteq> Ready)"
proof (induction n arbitrary: i)
  case (Suc n)
  show ?case
  proof (cases "tstate (tasks s ! i) = Ready")
    case True
    then show ?thesis using Suc.prems by (intro exI [of _ 0]) simp
  next
    case False
    then obtain k where k: "k < n" "j = (i + 1 + k) mod MAX_TASKS" "tstate (tasks s ! j) = Ready"
      "\<forall>l < k. tstate (tasks s ! ((i + 1 + l) mod MAX_TASKS)) \<noteq> Ready"
      using Suc.IH [of "(i + 1) mod MAX_TASKS"] Suc.prems by (auto simp: MAX_TASKS_def mod_simps)
    have "tstate (tasks s ! ((i + l) mod MAX_TASKS)) \<noteq> Ready" if "l < Suc k" for l
      using that k(4) False Suc.prems(2) by (cases l) auto
    then show ?thesis using k by (intro exI [of _ "Suc k"]) simp
  qed
qed simp

lemma pick_next_None:
  "pick_next n s i = None \<Longrightarrow> i < MAX_TASKS \<Longrightarrow> k < n \<Longrightarrow> tstate (tasks s ! ((i + k) mod MAX_TASKS)) \<noteq> Ready"
proof (induction n arbitrary: i k)
  case (Suc n)
  have nr: "tstate (tasks s ! i) \<noteq> Ready" and rec: "pick_next n s ((i + 1) mod MAX_TASKS) = None"
    using Suc.prems(1) by (auto split: if_splits)
  show ?case
  proof (cases k)
    case (Suc l)
    then show ?thesis
      using Suc.IH [OF rec, of l] Suc.prems(3) by (simp add: MAX_TASKS_def mod_simps)
  qed (use nr Suc.prems(2) in simp)
qed simp

lemma cyclic_cover: "cur < MAX_TASKS \<Longrightarrow> i < MAX_TASKS \<Longrightarrow> \<exists>k < MAX_TASKS. i = ((cur + 1) mod MAX_TASKS + k) mod MAX_TASKS"
proof -
  assume b: "cur < MAX_TASKS" "i < MAX_TASKS"
  define k where "k = (if cur < i then i - cur - 1 else i + 7 - cur)"
  have "k < MAX_TASKS" "(cur + 1 + k) mod MAX_TASKS = i"
    using b by (auto simp: k_def MAX_TASKS_def)
  then show ?thesis by (intro exI [of _ k]) (simp add: mod_simps)
qed

definition saved_current :: "sched \<Rightarrow> u64 \<Rightarrow> sched" where
  "saved_current s sp = task_upd s (current s) (\<lambda>t. t\<lparr>rsp := sp,
     tstate := (if tstate t = Running then Ready else tstate t)\<rparr>)"

lemma schedule_eq:
  assumes "wf_sched s"
  shows "schedule s sp =
     (case pick_next MAX_TASKS (saved_current s sp) ((current s + 1) mod MAX_TASKS) of
        Some next \<Rightarrow> (rsp (tasks (saved_current s sp) ! next),
          (set_state (saved_current s sp) next Running)\<lparr>current := next\<rparr>)
      | None \<Rightarrow> (sp, set_state (saved_current s sp) (current s) Running))"
proof -
  let ?s1 = "task_upd s (current s) (\<lambda>t. t\<lparr>rsp := sp\<rparr>)"
  have E: "(if tstate (tasks ?s1 ! current s) = Running then set_state ?s1 (current s) Ready else ?s1)
      = saved_current s sp"
    using assms by (auto simp: saved_current_def set_state_def task_upd_def wf_sched_def)
  show ?thesis unfolding schedule_def Let_def E by (rule refl)
qed

lemma ready_saved: "wf_sched s \<Longrightarrow> i < MAX_TASKS \<Longrightarrow> tstate (tasks (saved_current s sp) ! i) = Ready \<longleftrightarrow> ready s i"
  by (auto simp: saved_current_def ready_def wf_sched_def)

text \<open>The whole decision: who runs next, which stack, and what becomes of the records.\<close>

lemma schedule_cases:
  assumes wf: "wf_sched s" and r: "schedule s sp = (r, s')"
  shows "(\<exists>k. 1 \<le> k \<and> k \<le> MAX_TASKS \<and> current s' = (current s + k) mod MAX_TASKS \<and> ready s (current s')
        \<and> (\<forall>l. 1 \<le> l \<and> l < k \<longrightarrow> \<not> ready s ((current s + l) mod MAX_TASKS)))
      \<and> r = rsp (tasks (saved_current s sp) ! current s')
    \<or> (\<forall>i < MAX_TASKS. \<not> ready s i) \<and> current s' = current s \<and> r = sp"
    "wf_sched s'"
    "tasks s' = (tasks (saved_current s sp))[current s' := (tasks (saved_current s sp) ! current s')\<lparr>tstate := Running\<rparr>]"
proof -
  let ?s = "saved_current s sp" and ?i = "(current s + 1) mod MAX_TASKS"
  have i: "?i < MAX_TASKS" by (simp add: MAX_TASKS_def)
  have len: "length (tasks ?s) = MAX_TASKS" "current ?s = current s" "current s < MAX_TASKS"
    using wf by (simp_all add: saved_current_def wf_sched_def)
  show "wf_sched s'"
    "tasks s' = (tasks ?s)[current s' := (tasks ?s ! current s')\<lparr>tstate := Running\<rparr>]"
    using r schedule_eq [OF wf, of sp] len pick_next_Some [OF _ i, of MAX_TASKS ?s]
    by (auto simp: wf_sched_def set_state_def task_upd_def MAX_TASKS_def split: option.splits)
  show "(\<exists>k. 1 \<le> k \<and> k \<le> MAX_TASKS \<and> current s' = (current s + k) mod MAX_TASKS \<and> ready s (current s')
        \<and> (\<forall>l. 1 \<le> l \<and> l < k \<longrightarrow> \<not> ready s ((current s + l) mod MAX_TASKS)))
      \<and> r = rsp (tasks ?s ! current s')
    \<or> (\<forall>i < MAX_TASKS. \<not> ready s i) \<and> current s' = current s \<and> r = sp"
  proof (cases "pick_next MAX_TASKS ?s ?i")
    case None
    have "\<not> ready s j" if j: "j < MAX_TASKS" for j
    proof -
      obtain k where "k < MAX_TASKS" "j = (?i + k) mod MAX_TASKS" using cyclic_cover [OF len(3) j] by blast
      then show ?thesis using pick_next_None [OF None i, of k] ready_saved [OF wf j] by simp
    qed
    moreover have "s' = set_state ?s (current s) Running" "r = sp"
      using r schedule_eq [OF wf, of sp] None by auto
    ultimately show ?thesis using len by (simp add: set_state_def)
  next
    case (Some j)
    then obtain k where k: "k < MAX_TASKS" "j = (?i + k) mod MAX_TASKS" "tstate (tasks ?s ! j) = Ready"
      "\<forall>l < k. tstate (tasks ?s ! ((?i + l) mod MAX_TASKS)) \<noteq> Ready"
      using pick_next_Some [OF Some i] by blast
    have j: "j < MAX_TASKS" "j = (current s + Suc k) mod MAX_TASKS" using k(2) by (simp_all add: MAX_TASKS_def mod_simps)
    have "\<not> ready s ((current s + l) mod MAX_TASKS)" if b: "1 \<le> l" "l < Suc k" for l
    proof -
      obtain l' where l: "l = Suc l'" using b by (cases l) auto
      then have "tstate (tasks ?s ! ((current s + l) mod MAX_TASKS)) \<noteq> Ready"
        using k(4) b by (simp add: MAX_TASKS_def mod_simps)
      then show ?thesis using ready_saved [OF wf, of "(current s + l) mod MAX_TASKS"] by (simp add: MAX_TASKS_def)
    qed
    moreover have "current s' = j" "r = rsp (tasks ?s ! j)"
      using r schedule_eq [OF wf, of sp] Some by auto
    moreover have "ready s j" using ready_saved [OF wf j(1)] k(3) by simp
    ultimately show ?thesis using j(2) k(1) by (intro disjI1 conjI exI [of _ "Suc k"]) auto
  qed
qed


text \<open>C12. The timer tick saves the interrupted task's stack pointer and runs the next task in
  cyclic order that is ready (the interrupted task last, if it was running), on the stack pointer
  recorded for it; with no such task it stays where it is.\<close>

theorem schedule_round_robin:
  assumes "wf_sched s" "schedule s sp = (r, s')"
  shows "tstate (tasks s' ! current s') = Running \<and> r = rsp (tasks s' ! current s')
    \<and> rsp (tasks s' ! current s) = sp
    \<and> ((\<exists>k. 1 \<le> k \<and> k \<le> MAX_TASKS \<and> current s' = (current s + k) mod MAX_TASKS \<and> ready s (current s')
          \<and> (\<forall>l. 1 \<le> l \<and> l < k \<longrightarrow> \<not> ready s ((current s + l) mod MAX_TASKS)))
      \<or> (\<forall>i < MAX_TASKS. \<not> ready s i) \<and> current s' = current s)"
proof -
  let ?s = "saved_current s sp"
  have len: "length (tasks ?s) = MAX_TASKS" "current s < MAX_TASKS" "current s' < MAX_TASKS"
    using assms(1) schedule_cases(2) [OF assms] by (simp_all add: saved_current_def wf_sched_def)
  have sv: "rsp (tasks ?s ! current s) = sp" using len by (simp add: saved_current_def)
  note t = schedule_cases(3) [OF assms]
  have "tstate (tasks s' ! current s') = Running" "rsp (tasks s' ! current s') = rsp (tasks ?s ! current s')"
    "rsp (tasks s' ! current s) = sp"
    using len sv by (simp_all add: t nth_list_update)
  then show ?thesis using schedule_cases(1) [OF assms] sv by auto
qed

section \<open>Runs of the scheduler\<close>

datatype sched_op = Tick u64 | Spawn u64

fun sched_do :: "sched_op \<Rightarrow> sched \<times> (u64 \<Rightarrow> u64) \<Rightarrow> sched \<times> (u64 \<Rightarrow> u64)" where
  "sched_do (Tick sp) (s, cells) = (snd (schedule s sp), cells)"
| "sched_do (Spawn entry) (s, cells) = snd (spawn s cells entry)"

definition sched_boot :: "(nat \<Rightarrow> u64) \<Rightarrow> (u64 \<Rightarrow> u64) \<Rightarrow> sched \<times> (u64 \<Rightarrow> u64)" where
  "sched_boot stacks cells = (sched_init (sched_new stacks), cells)"

fun is_tick :: "sched_op \<Rightarrow> bool" where
  "is_tick (Tick _) = True"
| "is_tick (Spawn _) = False"

definition sched_ok :: "sched \<Rightarrow> bool" where
  "sched_ok s \<longleftrightarrow> wf_sched s \<and> tstate (tasks s ! 0) \<noteq> Free
     \<and> (\<forall>i < MAX_TASKS. tstate (tasks s ! i) = Running \<longrightarrow> i = current s)"

lemma find_free_Some: "find_free s is = Some i \<Longrightarrow> i \<in> set is \<and> tstate (tasks s ! i) = Free"
  by (induction "is") (auto split: if_splits)

lemma spawn_frame_rule:
  assumes "wf_sched s" "spawn s cells entry = (k, s', cells')"
  shows "wf_sched s'" "current s' = current s"
    "\<And>j. tstate (tasks s ! j) \<noteq> Free \<Longrightarrow> tasks s' ! j = tasks s ! j"
    "\<And>j. tstate (tasks s ! j) = Free \<Longrightarrow> tstate (tasks s' ! j) \<noteq> Running"
  using assms find_free_Some [of s "[1..<MAX_TASKS]"]
  by (auto simp: spawn_def wf_sched_def task_upd_def nth_list_update Let_def split: option.splits if_splits)

lemma tick_ok:
  assumes "sched_ok s" "schedule s sp = (r, s')"
  shows "sched_ok s'" "tstate (tasks s' ! current s') = Running"
proof -
  let ?s = "saved_current s sp"
  have wf: "wf_sched s" using assms(1) by (simp add: sched_ok_def)
  have len: "length (tasks ?s) = MAX_TASKS" "current s < MAX_TASKS" "current s' < MAX_TASKS"
    using wf schedule_cases(2) [OF wf assms(2)] by (simp_all add: saved_current_def wf_sched_def)
  note t = schedule_cases(3) [OF wf assms(2)]
  show "tstate (tasks s' ! current s') = Running" using len by (simp add: t)
  have nr: "tstate (tasks ?s ! i) \<noteq> Running" if "i < MAX_TASKS" for i
    using assms(1) that len by (simp add: saved_current_def sched_ok_def wf_sched_def)
  have "i = current s'" if "i < MAX_TASKS" "tstate (tasks s' ! i) = Running" for i
    using nr [OF that(1)] that(2) by (auto simp: t nth_list_update len split: if_splits)
  moreover have "tstate (tasks s ! 0) \<noteq> Free" using assms(1) by (simp add: sched_ok_def)
  then have "tstate (tasks ?s ! 0) \<noteq> Free" using len by (auto simp: saved_current_def)
  then have "tstate (tasks s' ! 0) \<noteq> Free" using len by (simp add: t nth_list_update)
  ultimately show "sched_ok s'" using schedule_cases(2) [OF wf assms(2)] by (simp add: sched_ok_def)
qed

lemma spawn_ok: "sched_ok s \<Longrightarrow> spawn s cells entry = (k, s', cells') \<Longrightarrow> sched_ok s'"
proof -
  assume ok: "sched_ok s" and sp: "spawn s cells entry = (k, s', cells')"
  have wf: "wf_sched s" using ok by (simp add: sched_ok_def)
  note f = spawn_frame_rule [OF wf sp]
  have "i = current s'" if "i < MAX_TASKS" "tstate (tasks s' ! i) = Running" for i
  proof (cases "tstate (tasks s ! i) = Free")
    case True
    then show ?thesis using f(4) that by blast
  next
    case False
    then show ?thesis using f(2,3) ok that by (simp add: sched_ok_def)
  qed
  moreover have "tstate (tasks s' ! 0) \<noteq> Free" using ok f(3) [of 0] by (simp add: sched_ok_def)
  ultimately show "sched_ok s'" using f(1) by (simp add: sched_ok_def)
qed

lemma sched_do_ok:
  assumes "sched_ok (fst st)"
  shows "sched_ok (fst (sched_do op st))"
proof -
  obtain s cells where st: "st = (s, cells)" by fastforce
  show ?thesis
  proof (cases op)
    case (Tick sp)
    obtain r s' where "schedule s sp = (r, s')" by fastforce
    then show ?thesis using tick_ok(1) [of s sp r s'] assms by (simp add: st Tick)
  next
    case (Spawn entry)
    obtain k s' cells' where "spawn s cells entry = (k, s', cells')" by (cases "spawn s cells entry")
    then show ?thesis using spawn_ok [of s cells entry k s' cells'] assms by (simp add: st Spawn)
  qed
qed

lemma sched_runs_ok: "sched_ok (fst st) \<Longrightarrow> sched_ok (fst (fold sched_do ops st))"
  by (induction ops arbitrary: st) (simp_all add: sched_do_ok)

lemma sched_boot_ok: "sched_ok (fst (sched_boot stacks cells))"
  by (auto simp: sched_boot_def sched_init_def sched_new_def sched_ok_def wf_sched_def set_state_def
      task_upd_def MAX_TASKS_def nth_list_update)


text \<open>After any sequence of timer ticks and spawns from boot at most one task is marked as
  running and it is the current one; the boot task's slot is never given away, and after a tick
  the current task is the running one.\<close>

theorem one_task_runs:
  assumes "st = fold sched_do ops (sched_boot stacks cells)"
  shows "(\<forall>i < MAX_TASKS. tstate (tasks (fst st) ! i) = Running \<longrightarrow> i = current (fst st))
    \<and> tstate (tasks (fst st) ! 0) \<noteq> Free
    \<and> (let s' = snd (schedule (fst st) sp) in tstate (tasks s' ! current s') = Running)"
proof -
  have ok: "sched_ok (fst st)" unfolding assms by (rule sched_runs_ok [OF sched_boot_ok])
  obtain r s' where "schedule (fst st) sp = (r, s')" by fastforce
  with ok tick_ok(2) [OF ok this] show ?thesis by (simp add: sched_ok_def)
qed

theorem one_task_runs_witness:
  "tstate (tasks (fst (fold sched_do [Spawn 0x400000] (sched_boot (\<lambda>i. of_nat i * STACK_SIZE) (\<lambda>_. 0)))) ! 0) \<noteq> Free"
  using one_task_runs [OF refl] by blast

lemma tick_progress:
  assumes ok: "sched_ok s" and i: "i < MAX_TASKS" "tstate (tasks s ! i) = Ready"
    and d: "1 \<le> d" "d \<le> MAX_TASKS" "i = (current s + d) mod MAX_TASKS"
    and r: "schedule s sp = (r, s')"
  shows "current s' = i \<or> (\<exists>d' < d. 1 \<le> d' \<and> i = (current s' + d') mod MAX_TASKS) \<and> tstate (tasks s' ! i) = Ready"
proof (cases "current s' = i")
  case False
  have wf: "wf_sched s" using ok by (simp add: sched_ok_def)
  have ri: "ready s i" using i by (simp add: ready_def)
  obtain k where k: "1 \<le> k" "k \<le> MAX_TASKS" "current s' = (current s + k) mod MAX_TASKS"
      "\<forall>l. 1 \<le> l \<and> l < k \<longrightarrow> \<not> ready s ((current s + l) mod MAX_TASKS)"
    using schedule_cases(1) [OF wf r] i(1) ri by blast
  have "k \<noteq> d" using False k(3) d(3) by auto
  moreover have "\<not> d < k" using k(4) d(1,3) ri by auto
  ultimately have "k < d" by simp
  moreover have "(current s' + (d - k)) mod MAX_TASKS = (current s + k + (d - k)) mod MAX_TASKS"
    by (simp only: k(3) mod_add_left_eq)
  moreover have "current s + k + (d - k) = current s + d" using \<open>k < d\<close> by simp
  moreover have "tstate (tasks s' ! i) = Ready"
    using schedule_cases(3) [OF wf r] False i wf
    by (simp add: nth_list_update saved_current_def wf_sched_def)
  ultimately show ?thesis using k(1) d(3) by (intro disjI2 conjI exI [of _ "d - k"]) auto
qed simp

lemma fair_run:
  assumes "sched_ok (fst st)" "i < MAX_TASKS" "tstate (tasks (fst st) ! i) = Ready"
    and "1 \<le> d" "d \<le> MAX_TASKS" "i = (current (fst st) + d) mod MAX_TASKS"
    and "d \<le> length (filter is_tick ops)"
  shows "\<exists>n. n \<le> length ops \<and> is_tick (ops ! (n - 1)) \<and> 1 \<le> n \<and> current (fst (fold sched_do (take n ops) st)) = i"
  using assms
proof (induction ops arbitrary: st d)
  case (Cons op ops)
  obtain s cells where st: "st = (s, cells)" by fastforce
  show ?case
  proof (cases op)
    case (Tick sp)
    obtain r s' where r: "schedule s sp = (r, s')" by fastforce
    then have step: "sched_do op st = (s', cells)" by (simp add: Tick st)
    show ?thesis
    proof (cases "current s' = i")
      case True
      then show ?thesis using step Tick by (intro exI [of _ 1]) simp
    next
      case False
      then obtain d' where d': "d' < d" "1 \<le> d'" "i = (current s' + d') mod MAX_TASKS" "tstate (tasks s' ! i) = Ready"
        using tick_progress [of s i d sp r s'] Cons.prems r by (auto simp: st)
      have "sched_ok s'" using tick_ok(1) [OF _ r] Cons.prems(1) by (simp add: st)
      then obtain n where "n \<le> length ops" "is_tick (ops ! (n - 1))" "1 \<le> n"
        "current (fst (fold sched_do (take n ops) (s', cells))) = i"
        using Cons.IH [of "(s', cells)" d'] d' Cons.prems by (auto simp: Tick)
      then show ?thesis using step by (intro exI [of _ "Suc n"]) (auto simp: nth_Cons')
    qed
  next
    case (Spawn entry)
    obtain k s' cells' where sp: "spawn s cells entry = (k, s', cells')" by (cases "spawn s cells entry")
    then have step: "sched_do op st = (s', cells')" by (simp add: Spawn st)
    have wf: "wf_sched s" using Cons.prems(1) by (simp add: st sched_ok_def)
    note f = spawn_frame_rule [OF wf sp]
    have "sched_ok s'" using spawn_ok [OF _ sp] Cons.prems(1) by (simp add: st)
    moreover have "tasks s' ! i = tasks s ! i" using f(3) Cons.prems(3) by (simp add: st)
    ultimately obtain n where "n \<le> length ops" "is_tick (ops ! (n - 1))" "1 \<le> n"
      "current (fst (fold sched_do (take n ops) (s', cells'))) = i"
      using Cons.IH [of "(s', cells')" d] Cons.prems f(2) by (auto simp: Spawn st)
    then show ?thesis using step by (intro exI [of _ "Suc n"]) (auto simp: nth_Cons')
  qed
qed simp

text \<open>C13. A task that is ready runs after at most \<open>MAX_TASKS\<close> timer ticks, whatever is spawned
  in between.\<close>

theorem ready_task_runs:
  assumes "st = fold sched_do ops (sched_boot stacks cells)" "i < MAX_TASKS"
    and "tstate (tasks (fst st) ! i) = Ready" "MAX_TASKS \<le> length (filter is_tick ops')"
  shows "\<exists>n \<le> length ops'. current (fst (fold sched_do (take n ops') st)) = i"
proof -
  have ok: "sched_ok (fst st)" unfolding assms(1) by (rule sched_runs_ok [OF sched_boot_ok])
  then have "current (fst st) < MAX_TASKS" by (simp add: sched_ok_def wf_sched_def)
  then obtain k where "k < MAX_TASKS" "i = ((current (fst st) + 1) mod MAX_TASKS + k) mod MAX_TASKS"
    using cyclic_cover assms(2) by blast
  then have "Suc k \<le> MAX_TASKS" "i = (current (fst st) + Suc k) mod MAX_TASKS" by (simp_all add: mod_simps)
  then show ?thesis using fair_run [OF ok assms(2,3), of "Suc k" ops'] assms(4) by fastforce
qed

theorem ready_task_runs_witness:
  "\<exists>n \<le> 8. current (fst (fold sched_do (take n (replicate 8 (Tick 4096)))
     (fold sched_do [Spawn 0x400000] (sched_boot (\<lambda>i. of_nat i * STACK_SIZE) (\<lambda>_. 0))))) = 1"
proof -
  have "tstate (tasks (fst (fold sched_do [Spawn 0x400000] (sched_boot (\<lambda>i. of_nat i * STACK_SIZE) (\<lambda>_. 0)))) ! 1) = Ready"
    by (simp add: sched_boot_def sched_init_def sched_new_def set_state_def task_upd_def MAX_TASKS_def
        spawn_def Let_def upt_rec)
  from ready_task_runs [OF refl _ this, of "replicate 8 (Tick 4096)"] show ?thesis by (simp add: MAX_TASKS_def)
qed

theorem schedule_round_robin_witness:
  "\<exists>s' r. schedule (fst (sched_boot (\<lambda>i. of_nat i * STACK_SIZE) (\<lambda>_. 0))) 4096 = (r, s') \<and> rsp (tasks s' ! 0) = 4096"
proof -
  let ?s = "fst (sched_boot (\<lambda>i. of_nat i * STACK_SIZE) (\<lambda>_. 0))"
  obtain r s' where r: "schedule ?s 4096 = (r, s')" by fastforce
  have "wf_sched ?s" using sched_boot_ok by (simp add: sched_ok_def)
  from schedule_round_robin [OF this r] have "rsp (tasks s' ! current ?s) = 4096" by blast
  then show ?thesis using r by (simp add: sched_boot_def sched_init_def sched_new_def set_state_def)
qed


section \<open>Context switches\<close>

definition frame_cells :: "u64 \<Rightarrow> u64 list" where
  "frame_cells sp = map (\<lambda>i. sp + 8 * of_nat i) [0 ..< 20]"

lemma frame_cells_mem: "i < 20 \<Longrightarrow> sp + 8 * of_nat i \<in> set (frame_cells sp)"
  by (simp add: frame_cells_def)

lemma frame_at_cong:
  "(\<And>a. a \<in> set (frame_cells sp) \<Longrightarrow> f a = g a) \<Longrightarrow> length vs = 20 \<Longrightarrow> frame_at f sp vs = frame_at g sp vs"
  by (simp add: frame_at_def frame_cells_mem)

text \<open>The state in which the handler of a stub is called: everything the CPU and the stub pushed
  is the frame of the interrupted task, the rest of memory is as it was.\<close>

definition pushed :: "machine \<Rightarrow> machine" where
  "pushed m = m\<lparr>regs := (regs m)(RSP := frame_addr m),
     ram := write_down (frame_addr m + 8 * of_nat (length (rev (frame_of m)))) (rev (frame_of m)) (ram m)\<rparr>"

lemma pushed_frame: "frame_at (ram (pushed m)) (frame_addr m) (frame_of m)"
  using write_down_frame [of "rev (frame_of m)" "frame_addr m" "ram m"] by (simp add: pushed_def)

lemma pushed_other:
  assumes "a \<notin> set (frame_cells (frame_addr m))"
  shows "ram (pushed m) a = ram m a"
proof -
  have ne: "a \<noteq> frame_addr m + 8 * of_nat 20 - 8 * of_nat (Suc i)" if "i < 20" for i
  proof -
    have eq: "frame_addr m + 8 * of_nat 20 - 8 * of_nat (Suc i) = frame_addr m + 8 * of_nat (19 - i)"
      using that by (simp add: of_nat_diff algebra_simps)
    have "frame_addr m + 8 * of_nat (19 - i) \<in> set (frame_cells (frame_addr m))"
      by (rule frame_cells_mem) simp
    then show ?thesis using assms unfolding eq by blast
  qed
  have "write_down (frame_addr m + 8 * of_nat 20) (rev (frame_of m)) (ram m) a = ram m a"
    by (rule write_down_other, rule ne) (simp only: length_rev length_frame_of)
  then show ?thesis by (simp add: pushed_def)
qed

lemma call_returning:
  assumes "\<not> never_returns h" "h \<noteq> Timer_handler"
  shows "regs (call_handler c h m) RSP = regs m RSP" "halted (call_handler c h m) = halted m"
    "ram (call_handler c h m) = (\<lambda>a. if scratch c a then junk_ram c a else ram m a)"
    "sched (call_handler c h m) = sched m" "ticks (call_handler c h m) = ticks m"
  using assms by (simp_all add: call_handler_def Let_def)

text \<open>The keyboard and mouse interrupts are transparent: whatever the handler does with
  the caller-saved registers and with stack memory outside the saved frame, the interrupted code
  goes on with all its registers, flags and stack pointer as they were.\<close>

theorem device_irq_transparent:
  assumes "halted m = None" "code \<in> {irq1_code, irq12_code}"
    and "\<forall>a \<in> set (frame_cells (frame_addr m)). \<not> scratch c a"
  shows "\<exists>m'. run c code (interrupt_entry m) = m' \<and> regs m' = regs m \<and> rip m' = rip m \<and> cs m' = cs m
     \<and> rflags m' = rflags m \<and> ss m' = ss m \<and> sched m' = sched m \<and> ticks m' = ticks m"
proof -
  obtain h where h: "code = map Push saved_regs @ [Call h] @ map Pop (rev saved_regs) @ [Iretq]"
    "\<not> never_returns h" "h \<noteq> Timer_handler"
    using assms(2) by (auto simp: irq_codes never_returns_def)
  let ?m = "call_handler c h (pushed m)"
  have h0: "halted ?m = None" using call_returning(2) [OF h(2,3), of c "pushed m"] assms(1) by (simp add: pushed_def)
  have sp: "regs ?m RSP = frame_addr m" using call_returning(1) [OF h(2,3), of c "pushed m"] by (simp add: pushed_def)
  have "frame_at (ram ?m) (frame_addr m) (frame_of m) = frame_at (ram (pushed m)) (frame_addr m) (frame_of m)"
    using assms(3) by (intro frame_at_cong) (simp_all add: call_returning(3) [OF h(2,3)])
  then have "frame_at (ram ?m) (regs ?m RSP) (frame_of m)" using pushed_frame sp by simp
  from restore_frame [OF h0 this, of c]
  have "run c code (interrupt_entry m)
     = ?m\<lparr>regs := regs m, rip := rip m, cs := cs m, rflags := rflags m, ss := ss m\<rparr>"
    using entry_pushes [OF assms(1), of c] assms(1)
    by (simp add: h(1) run_append pushed_def)
  then show ?thesis using call_returning(4,5) [OF h(2,3), of c "pushed m"] by (simp add: pushed_def)
qed

text \<open>Two frames that share no cell.\<close>

definition disjoint_frames :: "u64 \<Rightarrow> u64 \<Rightarrow> bool" where
  "disjoint_frames p q \<longleftrightarrow> set (frame_cells p) \<inter> set (frame_cells q) = {}"

lemma irq0_run:
  assumes "halted m = None" "schedule (sched m) (frame_addr m) = (sp, s')"
    and "frame_at (\<lambda>a. if scratch c a then junk_ram c a else ram (pushed m) a) sp (frame_of t)"
  shows "irq0 c m = (pushed m)\<lparr>regs := regs t, rip := rip t, cs := cs t, rflags := rflags t, ss := ss t,
     sched := s', ticks := ticks m + 1, ram := (\<lambda>a. if scratch c a then junk_ram c a else ram (pushed m) a)\<rparr>"
proof -
  let ?r = "\<lambda>a. if scratch c a then junk_ram c a else ram (pushed m) a"
  let ?g = "((\<lambda>r. if caller_saved r then junk_reg c r else ((regs m)(RSP := frame_addr m, RDI := frame_addr m)) r)
      (RAX := sp, RSP := sp))"
  let ?m = "(pushed m)\<lparr>regs := ?g, sched := s', ticks := ticks m + 1, ram := ?r\<rparr>"
  have "run c [Mov RDI RSP, Call Timer_handler, Mov RSP RAX] (pushed m) = ?m"
    using assms(1,2) by (simp add: pushed_def set_reg_def call_handler_def never_returns_def Let_def cong: if_cong)
  then have "irq0 c m = run c (map Pop (rev saved_regs) @ [Iretq]) ?m"
    using entry_pushes [OF assms(1), of c] unfolding irq0_def irq_codes(1) run_append [of c "map Push saved_regs"]
    by (simp only: pushed_def [symmetric] run_append [of c "[Mov RDI RSP, Call Timer_handler, Mov RSP RAX]"])
  also have "\<dots> = ?m\<lparr>regs := regs t, rip := rip t, cs := cs t, rflags := rflags t, ss := ss t\<rparr>"
    using assms(1,3) by (intro restore_frame) (simp_all add: pushed_def)
  finally show ?thesis by simp
qed


lemma run_pops_keep:
  "halted m = None \<Longrightarrow> halted (run c (map Pop rs @ [Iretq]) m) = None \<and> ram (run c (map Pop rs @ [Iretq]) m) = ram m
     \<and> sched (run c (map Pop rs @ [Iretq]) m) = sched m"
  by (induction rs arbitrary: m) (simp_all add: set_reg_def Let_def)

lemma irq0_effect:
  assumes "halted m = None" "schedule (sched m) (frame_addr m) = (sp, s')"
  shows "halted (irq0 c m) = None" "sched (irq0 c m) = s'"
    "ram (irq0 c m) = (\<lambda>a. if scratch c a then junk_ram c a else ram (pushed m) a)"
proof -
  have "run c [Mov RDI RSP, Call Timer_handler, Mov RSP RAX] (pushed m)
      = set_reg RSP sp (set_reg RAX sp ((pushed m)\<lparr>ram := (\<lambda>a. if scratch c a then junk_ram c a else ram (pushed m) a),
          regs := (\<lambda>r. if caller_saved r then junk_reg c r else regs (set_reg RDI (frame_addr m) (pushed m)) r),
          sched := s', ticks := ticks m + 1\<rparr>))" (is "_ = ?m")
    using assms by (simp add: pushed_def set_reg_def call_handler_def never_returns_def Let_def cong: if_cong)
  then have "irq0 c m = run c (map Pop (rev saved_regs) @ [Iretq]) ?m"
    using entry_pushes [OF assms(1), of c] unfolding irq0_def irq_codes(1) run_append [of c "map Push saved_regs"]
    by (simp only: pushed_def [symmetric] run_append [of c "[Mov RDI RSP, Call Timer_handler, Mov RSP RAX]"])
  then show "halted (irq0 c m) = None" "sched (irq0 c m) = s'"
    "ram (irq0 c m) = (\<lambda>a. if scratch c a then junk_ram c a else ram (pushed m) a)"
    using run_pops_keep [of ?m c "rev saved_regs"] assms(1) by (simp_all add: set_reg_def pushed_def)
qed

lemma irq0_resumes:
  assumes "halted m = None" "wf_sched (sched m)" "a = current (sched (irq0 c m))" "a \<noteq> current (sched m)"
    and "rsp (tasks (sched m) ! a) = fp" "frame_at (ram m) fp (frame_of t)"
    and "disjoint_frames (frame_addr m) fp" "\<forall>x \<in> set (frame_cells fp). \<not> scratch c x"
  shows "regs (irq0 c m) = regs t \<and> rip (irq0 c m) = rip t \<and> cs (irq0 c m) = cs t
     \<and> rflags (irq0 c m) = rflags t \<and> ss (irq0 c m) = ss t"
proof -
  obtain sp s' where sc: "schedule (sched m) (frame_addr m) = (sp, s')" by fastforce
  have cur: "current s' = a" using irq0_effect(2) [OF assms(1) sc] assms(3) by simp
  have lt: "a < length (tasks (sched m))" "current (sched m) < length (tasks (sched m))"
    using schedule_cases(2) [OF assms(2) sc] assms(2) cur by (simp_all add: wf_sched_def)
  have "sp = rsp (tasks s' ! a)" using schedule_round_robin [OF assms(2) sc] cur by simp
  also have "\<dots> = fp"
    using schedule_cases(3) [OF assms(2) sc] assms(4,5) cur lt by (simp add: saved_current_def)
  finally have sp: "sp = fp" .
  have "frame_at (\<lambda>x. if scratch c x then junk_ram c x else ram (pushed m) x) fp (frame_of t)
      = frame_at (ram m) fp (frame_of t)"
    using assms(7,8) by (intro frame_at_cong) (auto simp: disjoint_frames_def intro!: pushed_other)
  then show ?thesis using irq0_run [OF assms(1) sc, of c t] assms(6) by (simp add: sp)
qed


text \<open>C15. A spawned task, when the scheduler first picks it, starts at its entry point with
  interrupts enabled, every general register zero and the stack pointer 8 below its stack top,
  the alignment the calling convention has on function entry.\<close>

theorem spawned_task_starts:
  assumes sp: "spawn s cells entry = (int i, s', cells')" "length (tasks s) = MAX_TASKS"
    and m: "halted m = None" "wf_sched (sched m)" "current (sched m) \<noteq> i"
    and tp: "tp = stack (tasks s ! i) + STACK_SIZE"
    and same: "\<forall>x \<in> set (frame_cells (tp - 160)). ram m x = cells' x \<and> \<not> scratch c x"
      "rsp (tasks (sched m) ! i) = rsp (tasks s' ! i)"
    and dis: "disjoint_frames (frame_addr m) (tp - 160)"
    and again: "current (sched (irq0 c m)) = i"
  shows "rip (irq0 c m) = entry \<and> rflags (irq0 c m) = 0x200 \<and> regs (irq0 c m) = (\<lambda>_. 0)(RSP := tp - 8)
     \<and> cs (irq0 c m) = 0x08 \<and> ss (irq0 c m) = 0x10"
proof -
  define t where "t = m\<lparr>regs := (\<lambda>_. 0)(RSP := tp - 8), rip := entry, cs := 8, rflags := 0x200, ss := 0x10\<rparr>"
  obtain j where j: "find_free s [1..<MAX_TASKS] = Some j" "i = j"
    using sp(1) by (auto simp: spawn_def Let_def split: option.splits)
  have "i < MAX_TASKS" using find_free_Some [OF j(1)] j(2) by simp
  then have s': "rsp (tasks s' ! i) = tp - 160" "cells' = write_down tp (spawn_frame tp entry) cells"
    using sp j by (auto simp: spawn_def Let_def tp)
  have "frame_of t = rev (spawn_frame tp entry)"
    by (simp add: frame_of_def t_def spawn_frame_def saved_regs_def)
  moreover have "length (spawn_frame tp entry) = 20" by (simp add: spawn_frame_def)
  ultimately have "frame_at cells' (tp - 160) (frame_of t)"
    using write_down_frame [of "spawn_frame tp entry" "tp - 160" cells] by (simp add: s')
  moreover have "frame_at (ram m) (tp - 160) (frame_of t) = frame_at cells' (tp - 160) (frame_of t)"
    using same(1) by (intro frame_at_cong) simp_all
  ultimately have "frame_at (ram m) (tp - 160) (frame_of t)" by simp
  with irq0_resumes [OF m(1,2) again [symmetric] _ _ _ dis, of t] m(3) same s'(1)
  show ?thesis by (simp add: t_def)
qed

lemma push_then_load:
  assumes "halted m = None"
  shows "halted (run c (map Push saved_regs @ [Load_sp RDI (15 * 8), Call h]) (push_val v m)) =
    (if never_returns h then Some (h, v) else None)"
proof -
  let ?m = "push_val v m"
  have sp: "ram ?m (regs ?m RSP) = v" by (simp add: push_val_def set_reg_def Let_def)
  have ne: "x \<noteq> x - 8 * of_nat (Suc i)" if "i < 15" for x :: u64 and i
    using that by (intro word_below_neq) simp_all
  have "write_down (regs ?m RSP) (map (regs ?m) saved_regs) (ram ?m) (regs ?m RSP) = ram ?m (regs ?m RSP)"
    by (rule write_down_other, rule ne) (simp only: length_map saved_regs_facts)
  then have "ram (run c (map Push saved_regs) ?m) (regs (run c (map Push saved_regs) ?m) RSP + 15 * 8) = v"
    "halted (run c (map Push saved_regs) ?m) = None"
    using run_pushes [of ?m saved_regs c] assms sp by (simp_all add: push_val_def set_reg_def Let_def)
  then show ?thesis
    by (simp add: run_append set_reg_def call_handler_def Let_def)
      (simp add: never_returns_def set_reg_def split: prod.split)
qed


text \<open>The exception stubs reach their handlers with the right argument: a general
  protection fault and a page fault report the error code that the CPU pushed, and neither they
  nor the divide and opcode stubs come back.\<close>

theorem exception_stubs_report:
  assumes "halted m = None"
  shows "halted (run c isr13_code (exception_entry err m)) = Some (Gpf_handler, err)
    \<and> halted (run c isr14_code (exception_entry err m)) = Some (Page_fault_handler, err)
    \<and> map_option fst (halted (run c isr0_code (interrupt_entry m))) = Some Divide_handler
    \<and> map_option fst (halted (run c isr6_code (interrupt_entry m))) = Some Invalid_opcode_handler
    \<and> map_option fst (halted (run c (isr8_code df) (exception_entry err m))) = Some Double_fault_handler"
proof -
  have stop: "run c is x = x" if "halted x \<noteq> None" for "is" x using that by (cases "is") auto
  have h: "halted (interrupt_entry m) = None" using assms by (simp add: interrupt_entry_eq)
  have code: "isr13_code = (map Push saved_regs @ [Load_sp RDI (15 * 8), Call Gpf_handler]) @ map Pop (rev saved_regs) @ [Add_sp 8, Iretq]"
    "isr14_code = (map Push saved_regs @ [Load_sp RDI (15 * 8), Call Page_fault_handler]) @ map Pop (rev saved_regs) @ [Add_sp 8, Iretq]"
    by (simp_all add: isr13_code_def isr14_code_def saved_regs_def)
  have r: "halted (run c ((map Push saved_regs @ [Load_sp RDI (15 * 8), Call hd]) @ rest) (exception_entry err m)) = Some (hd, err)"
    if "never_returns hd" for hd rest
    using push_then_load [OF h, of c hd err] that stop
    unfolding exception_entry_def run_append [of c "map Push saved_regs @ [Load_sp RDI (15 * 8), Call hd]"]
    by simp
  have n: "map_option fst (halted (run c (pre @ Call hd # rest) x)) = Some hd"
    if "never_returns hd" "halted (run c pre x) = None" for pre hd rest x
    using that stop by (simp add: run_append call_handler_def)
  have keep: "halted (run c pre x) = None" if "halted x = None" "\<forall>i \<in> set pre. \<forall>h. i \<noteq> Call h" for pre x
    using that
  proof (induction pre arbitrary: x)
    case (Cons i pre)
    then show ?case by (cases i) (simp_all add: push_val_def set_reg_def Let_def)
  qed simp
  have z: "isr0_code = ([Push_imm 0, Push_imm 0] @ map Push saved_regs) @ Call Divide_handler # map Pop (rev saved_regs) @ [Add_sp 16, Iretq]"
    "isr6_code = ([Push_imm 0, Push_imm 6] @ map Push saved_regs) @ Call Invalid_opcode_handler # map Pop (rev saved_regs) @ [Add_sp 16, Iretq]"
    "isr8_code df = ([Lea_sp df, Push_imm 8] @ map Push saved_regs) @ Call Double_fault_handler # []"
    by (simp_all add: isr0_code_def isr6_code_def isr8_code_def saved_regs_def)
  have e: "halted (exception_entry err m) = None"
    using h by (simp add: exception_entry_def push_val_def set_reg_def Let_def)
  show ?thesis
    unfolding code z using h e by (intro conjI r n keep) (auto simp: never_returns_def)
qed

section \<open>A switch there and back\<close>

definition idle :: task where "idle = \<lparr>rsp = 0, tstate = Free, stack = 0\<rparr>"

definition demo_tasks :: sched where
  "demo_tasks = \<lparr>tasks = \<lparr>rsp = 0, tstate = Running, stack = 0\<rparr> # \<lparr>rsp = 0x20000, tstate = Ready, stack = 0\<rparr>
     # [idle, idle, idle, idle, idle, idle], current = 0\<rparr>"

definition demo_machine :: machine where
  "demo_machine = \<lparr>regs = (\<lambda>_. 7)(RSP := 0x10000), rip = 0x401000, cs = 8, rflags = 0x202, ss = 0x10,
     ram = (\<lambda>_. 0), sched = demo_tasks, ticks = 0, halted = None\<rparr>"

definition quiet :: clobber where
  "quiet = \<lparr>junk_reg = (\<lambda>_. 0xBAD), junk_ram = (\<lambda>_. 0), scratch = (\<lambda>_. False)\<rparr>"

theorem exception_stubs_report_witness:
  "halted (run quiet isr14_code (exception_entry 2 demo_machine)) = Some (Page_fault_handler, 2)"
  using exception_stubs_report [of demo_machine quiet 2] by (simp add: demo_machine_def)

theorem device_irq_transparent_witness:
  "regs (run quiet irq1_code (interrupt_entry demo_machine)) RBX = 7"
  using device_irq_transparent [of demo_machine irq1_code quiet] by (auto simp: demo_machine_def quiet_def)

definition demo_tasks' :: "u64 \<Rightarrow> sched" where
  "demo_tasks' sp = \<lparr>tasks = \<lparr>rsp = sp, tstate = Ready, stack = 0\<rparr> # \<lparr>rsp = 0x20000, tstate = Running, stack = 0\<rparr>
     # [idle, idle, idle, idle, idle, idle], current = 1\<rparr>"

lemma idle_free [simp]: "tstate idle = Free" by (simp add: idle_def)

lemma demo_switch:
  "wf_sched demo_tasks" "wf_sched (demo_tasks' sp)" "snd (schedule demo_tasks sp) = demo_tasks' sp"
  "current (snd (schedule (demo_tasks' sp) sp')) = 0"
proof -
  have e: "(8::nat) = Suc (Suc (Suc (Suc (Suc (Suc (Suc (Suc 0)))))))" by simp
  show "wf_sched demo_tasks" "wf_sched (demo_tasks' sp)"
    by (simp_all add: wf_sched_def demo_tasks_def demo_tasks'_def MAX_TASKS_def)
  show "snd (schedule demo_tasks sp) = demo_tasks' sp"
    unfolding schedule_def MAX_TASKS_def
    by (subst (1) e) (simp add: demo_tasks_def demo_tasks'_def task_upd_def set_state_def Let_def MAX_TASKS_def)
  show "current (snd (schedule (demo_tasks' sp) sp')) = 0"
    unfolding schedule_def MAX_TASKS_def
    by (subst (1) e) (simp add: demo_tasks'_def task_upd_def set_state_def Let_def MAX_TASKS_def)
qed

lemma disjoint_framesI:
  assumes "160 \<le> unat (q - p)" "160 \<le> unat (p - q)"
  shows "disjoint_frames p q"
proof -
  have far: False if "p' + 8 * of_nat i = q' + 8 * of_nat j" "i \<le> j" "j < 20" "160 \<le> unat (p' - q')"
    for p' q' :: u64 and i j
  proof -
    have "p' - q' = of_nat (8 * (j - i))" using that(1,2) by (simp add: of_nat_diff algebra_simps)
    then have "unat (p' - q') = 8 * (j - i)" using that(3) by (simp add: unsigned_of_nat take_bit_nat_eq_self del: of_nat_mult)
    then show False using that(3,4) by simp
  qed
  have "p + 8 * of_nat i \<noteq> q + 8 * of_nat j" if "i < 20" "j < 20" for i j
    using far [of p i q j] far [of q j p i] assms that by (cases "i \<le> j") auto
  then show ?thesis by (auto simp: disjoint_frames_def frame_cells_def)
qed

lemma demo_frames: "frame_addr demo_machine = 0xFF60" "disjoint_frames 0x1FF60 0xFF60"
  by (simp add: frame_addr_def demo_machine_def) (simp add: disjoint_framesI)

definition demo_other :: machine where
  "demo_other = (irq0 quiet demo_machine)\<lparr>regs := (\<lambda>_. 9)(RSP := 0x20000)\<rparr>"

lemma demo_other_facts:
  "halted demo_other = None" "sched demo_other = demo_tasks' 0xFF60"
  "frame_addr demo_other = 0x1FF60"
proof -
  obtain sp s' where sc: "schedule demo_tasks 0xFF60 = (sp, s')" by fastforce
  have m: "halted demo_machine = None" "sched demo_machine = demo_tasks" by (simp_all add: demo_machine_def)
  have "schedule (sched demo_machine) (frame_addr demo_machine) = (sp, s')"
    using sc by (simp add: demo_frames m)
  note e = irq0_effect [OF m(1) this, of quiet]
  show "halted demo_other = None" using e(1) by (simp add: demo_other_def)
  have "s' = demo_tasks' 0xFF60" using demo_switch(3) [of "0xFF60"] sc by simp
  then show "sched demo_other = demo_tasks' 0xFF60" using e(2) by (simp add: demo_other_def)
  show "frame_addr demo_other = 0x1FF60" by (simp add: frame_addr_def demo_other_def)
qed



definition demo_spawned :: "int \<times> sched \<times> (u64 \<Rightarrow> u64)" where
  "demo_spawned = spawn (demo_tasks\<lparr>tasks := \<lparr>rsp = 0, tstate = Running, stack = 0\<rparr>
     # \<lparr>rsp = 0, tstate = Free, stack = 0x18000\<rparr> # [idle, idle, idle, idle, idle, idle]\<rparr>) (\<lambda>_. 0) 0x402000"

theorem spawned_task_starts_witness:
  "\<exists>s' cells' m. demo_spawned = (1, s', cells') \<and> sched m = s' \<and> rip (irq0 quiet m) = 0x402000
     \<and> regs (irq0 quiet m) RSP = 0x1FFF8"
proof -
  let ?s = "demo_tasks\<lparr>tasks := \<lparr>rsp = 0, tstate = Running, stack = 0\<rparr>
     # \<lparr>rsp = 0, tstate = Free, stack = 0x18000\<rparr> # [idle, idle, idle, idle, idle, idle]\<rparr>"
  let ?s' = "\<lparr>tasks = \<lparr>rsp = 0, tstate = Running, stack = 0\<rparr> # \<lparr>rsp = 0x1FF60, tstate = Ready, stack = 0x18000\<rparr>
     # [idle, idle, idle, idle, idle, idle], current = 0\<rparr>"
  let ?c = "write_down 0x20000 (spawn_frame 0x20000 0x402000) (\<lambda>_. 0)"
  let ?m = "demo_machine\<lparr>sched := ?s', ram := ?c\<rparr>"
  have "find_free ?s [1..<MAX_TASKS] = Some 1" by (simp add: MAX_TASKS_def upt_conv_Cons)
  then have sp: "spawn ?s (\<lambda>_. 0) 0x402000 = (int 1, ?s', ?c)"
    by (simp add: spawn_def STACK_SIZE_def task_upd_def demo_tasks_def Let_def)
  have fr: "frame_addr ?m = 0xFF60" by (simp add: frame_addr_def demo_machine_def)
  have wf: "wf_sched ?s'" by (simp add: wf_sched_def MAX_TASKS_def)
  obtain sp' s2 where sc: "schedule ?s' 0xFF60 = (sp', s2)" by fastforce
  have e: "(8::nat) = Suc (Suc (Suc (Suc (Suc (Suc (Suc (Suc 0)))))))" by simp
  have "current (snd (schedule ?s' 0xFF60)) = 1"
    unfolding schedule_def MAX_TASKS_def
    by (subst (1) e) (simp add: task_upd_def set_state_def Let_def MAX_TASKS_def)
  then have cur: "current s2 = 1" using sc by simp
  have m: "halted ?m = None" "sched ?m = ?s'" "ram ?m = ?c" by (simp_all add: demo_machine_def)
  have "schedule (sched ?m) (frame_addr ?m) = (sp', s2)" using sc by (simp only: fr m)
  from irq0_effect(2) [OF m(1) this, of quiet] cur have again: "current (sched (irq0 quiet ?m)) = 1" by simp
  have "disjoint_frames (frame_addr ?m) (0x20000 - 160)" unfolding fr by (rule disjoint_framesI) simp_all
  then have dis: "disjoint_frames (frame_addr ?m) (0x20000 - 160)" .
  have same: "\<forall>x \<in> set (frame_cells (0x20000 - 160)). ram ?m x = ?c x \<and> \<not> scratch quiet x"
    by (simp only: m quiet_def clobber.simps) simp
  have len: "length (tasks ?s) = MAX_TASKS" by (simp add: MAX_TASKS_def)
  have w: "wf_sched (sched ?m)" "current (sched ?m) \<noteq> 1" "rsp (tasks (sched ?m) ! 1) = rsp (tasks ?s' ! 1)"
    using wf by (simp_all only: m(2)) simp_all
  have tp: "0x20000 = stack (tasks ?s ! 1) + STACK_SIZE" by (simp add: STACK_SIZE_def)
  have "rip (irq0 quiet ?m) = 0x402000 \<and> regs (irq0 quiet ?m) = (\<lambda>_. 0)(RSP := 0x20000 - 8)"
    using spawned_task_starts [OF sp len m(1) w(1,2) tp same w(3) dis again] by blast
  then show ?thesis
    using sp by (intro exI [of _ ?s'] exI [of _ ?c] exI [of _ ?m]) (simp add: demo_spawned_def m(2))
qed

end
