(* ===== verification/EventRings.thy ===== *)
theory EventRings
  imports Interfaces
begin

text \<open>
  The event queues between interrupt handlers and the shell. First the arithmetic of a circular
  buffer with one free cell (\<open>ring_len\<close>, \<open>ring_items\<close>), shared by the keyboard ring of
  \<^verbatim>\<open>src/keyboard.rs\<close> (64 cells, lock-free, one producer and one consumer) and the
  mouse ring of \<^verbatim>\<open>src/mouse.rs\<close> (32 cells, under a lock). Both are interpretations of
  the \<open>bounded_fifo\<close> interface.
\<close>

section \<open>Circular buffers\<close>

definition ring_len :: "nat \<Rightarrow> nat \<Rightarrow> nat \<Rightarrow> nat" where
  "ring_len n h t = (h + n - t) mod n"

definition ring_items :: "nat \<Rightarrow> 'a list \<Rightarrow> nat \<Rightarrow> nat \<Rightarrow> 'a list" where
  "ring_items n cells h t = map (\<lambda>i. cells ! ((t + i) mod n)) [0 ..< ring_len n h t]"

lemma ring_len_if: "h < n \<Longrightarrow> t < n \<Longrightarrow> ring_len n h t = (if t \<le> h then h - t else h + n - t)"
  by (auto simp: ring_len_def mod_if)

lemma ring_next_if: "h < n \<Longrightarrow> (h + 1) mod n = (if h + 1 = n then 0 else h + 1)" for n :: nat
  by (cases "h + 1 = n") simp_all

lemma ring_len_bounds: "h < n \<Longrightarrow> t < n \<Longrightarrow> ring_len n h t < n"
  by (simp add: ring_len_def)

lemma ring_len_0: "h < n \<Longrightarrow> t < n \<Longrightarrow> ring_len n h t = 0 \<longleftrightarrow> h = t"
  by (auto simp: ring_len_if)

lemma ring_full: "h < n \<Longrightarrow> t < n \<Longrightarrow> (h + 1) mod n = t \<longleftrightarrow> ring_len n h t = n - 1"
  unfolding ring_next_if by (auto simp: ring_len_if)

lemma ring_len_push:
  "h < n \<Longrightarrow> t < n \<Longrightarrow> (h + 1) mod n \<noteq> t \<Longrightarrow> ring_len n ((h + 1) mod n) t = Suc (ring_len n h t)"
  unfolding ring_next_if by (auto simp: ring_len_if split: if_splits)

lemma ring_len_pop:
  "h < n \<Longrightarrow> t < n \<Longrightarrow> h \<noteq> t \<Longrightarrow> ring_len n h t = Suc (ring_len n h ((t + 1) mod n))"
  unfolding ring_next_if by (auto simp: ring_len_if split: if_splits)

lemma ring_index_free:
  assumes "h < n" "t < n" "i < ring_len n h t"
  shows "(t + i) mod n \<noteq> h"
proof -
  have "i < n" using assms ring_len_bounds [of h n t] by simp
  then have "(t + i) mod n = (if t + i < n then t + i else t + i - n)"
    using assms(2) by (auto simp: mod_if)
  then show ?thesis using assms by (auto simp: ring_len_if split: if_splits)
qed

lemma ring_index_last: "h < n \<Longrightarrow> t < n \<Longrightarrow> (t + ring_len n h t) mod n = h"
  by (auto simp: ring_len_if mod_if)

lemma length_ring_items [simp]: "length (ring_items n cells h t) = ring_len n h t"
  by (simp add: ring_items_def)

lemma ring_items_write_free:
  "h < n \<Longrightarrow> t < n \<Longrightarrow> ring_items n (cells[h := v]) h t = ring_items n cells h t"
  unfolding ring_items_def by (rule map_cong [OF refl], rule nth_list_update_neq)
    (metis atLeastLessThan_iff ring_index_free set_upt)

lemma ring_items_push:
  assumes "h < n" "t < n" "(h + 1) mod n \<noteq> t"
  shows "ring_items n cells ((h + 1) mod n) t = ring_items n cells h t @ [cells ! h]"
  using ring_len_push [OF assms] ring_index_last [OF assms(1,2)] by (simp add: ring_items_def)

lemma ring_items_pop:
  assumes "h < n" "t < n" "h \<noteq> t"
  shows "ring_items n cells h t = cells ! t # ring_items n cells h ((t + 1) mod n)"
proof -
  have "ring_items n cells h t = map (\<lambda>i. cells ! ((t + i) mod n)) [0 ..< Suc (ring_len n h ((t + 1) mod n))]"
    by (simp only: ring_items_def ring_len_pop [OF assms])
  also have "\<dots> = cells ! t # map (\<lambda>i. cells ! ((t + Suc i) mod n)) [0 ..< ring_len n h ((t + 1) mod n)]"
    using assms(2) by (subst map_upt_Suc) simp
  also have "(\<lambda>i. cells ! ((t + Suc i) mod n)) = (\<lambda>i. cells ! (((t + 1) mod n + i) mod n))"
    by (simp add: mod_simps)
  finally show ?thesis by (simp only: ring_items_def)
qed


text \<open>An earlier head splits the queue.\<close>

lemma ring_len_split:
  "h < n \<Longrightarrow> t < n \<Longrightarrow> g < n \<Longrightarrow> ring_len n g t \<le> ring_len n h t \<Longrightarrow>
   ring_len n h t = ring_len n g t + ring_len n h g"
  by (auto simp: ring_len_if split: if_splits)

lemma ring_items_split:
  assumes "h < n" "t < n" "g < n" "ring_len n g t \<le> ring_len n h t"
  shows "ring_items n cells h t = ring_items n cells g t @ ring_items n cells h g"
proof -
  let ?a = "ring_len n g t" and ?b = "ring_len n h g"
  have u: "[0 ..< ring_len n h t] = [0 ..< ?a] @ map (\<lambda>j. ?a + j) [0 ..< ?b]"
  proof -
    have m: "[?a ..< ?a + ?b] = map (\<lambda>j. ?a + j) [0 ..< ?b]" by (rule nth_equalityI) simp_all
    have "[0 ..< ?a + ?b] = [0 ..< ?a] @ [?a ..< ?a + ?b]" by (rule upt_add_eq_append) simp
    then show ?thesis by (simp only: ring_len_split [OF assms] m)
  qed
  have "(t + (?a + j)) mod n = (g + j) mod n" for j
  proof -
    have "(t + (?a + j)) mod n = ((t + ?a) mod n + j) mod n" by (simp only: mod_add_left_eq add.assoc)
    then show ?thesis by (simp only: ring_index_last [OF assms(3,2)])
  qed
  then have "map (\<lambda>i. cells ! ((t + i) mod n)) (map (\<lambda>j. ?a + j) [0 ..< ?b]) = ring_items n cells h g"
    unfolding ring_items_def map_map comp_def by (simp only:)
  then show ?thesis unfolding ring_items_def [of n cells h t] u by (simp add: ring_items_def)
qed

end
