(* ===== verification/Mouse.thy ===== *)
theory Mouse
  imports EventRings
begin

text \<open>
  The PS/2 mouse driver of \<^verbatim>\<open>src/mouse.rs\<close>: the event ring, the packet assembly of
  the interrupt handler and the initialisation as the exchange of bytes with the controller
  (\<open>replies\<close> is what \<open>try_read_data\<close> finds, in order, \<open>None\<close> for a time-out).
\<close>

section \<open>State\<close>

datatype MouseEvent = Move u16 u16 | Scroll u8 | LeftClick | RightClick | MiddleClick

text \<open>\<open>dx\<close> and \<open>dy\<close> are \<open>i16\<close> and \<open>delta\<close> is \<open>i8\<close> in two's complement.\<close>

record mring =
  mbuf :: "MouseEvent option list"
  mhead :: nat
  mtail :: nat

definition mring_new :: mring where
  "mring_new = \<lparr>mbuf = replicate 32 None, mhead = 0, mtail = 0\<rparr>"

definition mring_push :: "mring \<Rightarrow> MouseEvent \<Rightarrow> bool \<times> mring" where
  "mring_push r ev =
     (let next = (mhead r + 1) mod 32 in
      if next = mtail r then (False, r)
      else (True, r\<lparr>mbuf := (mbuf r)[mhead r := Some ev], mhead := next\<rparr>))"

definition mring_pop :: "mring \<Rightarrow> MouseEvent option \<times> mring" where
  "mring_pop r =
     (if mtail r = mhead r then (None, r)
      else (mbuf r ! mtail r, r\<lparr>mbuf := (mbuf r)[mtail r := None], mtail := (mtail r + 1) mod 32\<rparr>))"

record mouse =
  cycle :: u8
  mbytes :: "u8 list"
  has_scroll :: bool
  mqueue :: mring
  mouse_initialized :: bool

definition mouse_new :: mouse where
  "mouse_new = \<lparr>cycle = 0, mbytes = replicate 4 0, has_scroll = False, mqueue = mring_new,
     mouse_initialized = False\<rparr>"

section \<open>Initialisation\<close>

datatype port_write = To_command u8 | To_data u8

definition take_reply :: "u8 option list \<Rightarrow> u8 option \<times> u8 option list" where
  "take_reply rs = (case rs of [] \<Rightarrow> (None, []) | r # rs' \<Rightarrow> (r, rs'))"

definition mouse_init :: "mouse \<Rightarrow> u8 option list \<Rightarrow> mouse \<times> port_write list" where
  "mouse_init m replies =
     (case take_reply replies of
        (config, rs) \<Rightarrow>
          let pre = [To_command 0xA8, To_command 0x20] in
          if (case config of Some c \<Rightarrow> c | None \<Rightarrow> 0) AND 0x20 \<noteq> 0 then (m, pre)
          else
            let rate = (\<lambda>r. [To_command 0xD4, To_data 0xF3, To_command 0xD4, To_data r]);
                rs = drop 8 rs;
                device_id = (case fst (take_reply rs) of Some d \<Rightarrow> d | None \<Rightarrow> 0)
            in (m\<lparr>has_scroll := device_id = 0x03 \<or> device_id = 0x04, mouse_initialized := True\<rparr>,
                pre @ [To_command 0xD4, To_data 0xF4] @ rate 200 @ rate 100 @ rate 80
                  @ [To_command 0xD4, To_data 0xF2]))"

section \<open>The interrupt handler\<close>

definition enqueue :: "MouseEvent \<Rightarrow> mouse \<Rightarrow> mouse" where
  "enqueue ev m = m\<lparr>mqueue := snd (mring_push (mqueue m) ev)\<rparr>"

text \<open>\<open>abs\<close> on \<open>i16\<close>, wrapping as a release build does.\<close>

definition abs16 :: "u16 \<Rightarrow> u16" where
  "abs16 x = (if bit x 15 then - x else x)"

definition parse_packet :: "mouse \<Rightarrow> mouse" where
  "parse_packet m =
     (let flags = mbytes m ! 0; dx = (ucast (mbytes m ! 1) :: u16); dy = (ucast (mbytes m ! 2) :: u16) in
      if flags AND 0x08 = 0 then m
      else
        let m = (if has_scroll m \<and> mbytes m ! 3 \<noteq> 0 then enqueue (Scroll (mbytes m ! 3)) m else m);
            m = (if 2 <s abs16 dx \<or> 2 <s abs16 dy then enqueue (Move dx dy) m else m);
            m = (if flags AND 0x01 \<noteq> 0 then enqueue LeftClick m else m);
            m = (if flags AND 0x02 \<noteq> 0 then enqueue RightClick m else m)
        in (if flags AND 0x04 \<noteq> 0 then enqueue MiddleClick m else m))"

definition mouse_handle_irq :: "mouse \<Rightarrow> u8 \<Rightarrow> u8 \<Rightarrow> mouse" where
  "mouse_handle_irq m status byte =
     (if \<not> mouse_initialized m then m
      else if status AND 0x20 = 0 then m
      else
        let m = m\<lparr>mbytes := (mbytes m)[unat (cycle m) := byte], cycle := cycle m + 1\<rparr>;
            packet_size = (if has_scroll m then 4 else 3) in
        if cycle m \<ge> packet_size then parse_packet (m\<lparr>cycle := 0\<rparr>) else m)"

definition mouse_pop_event :: "mouse \<Rightarrow> MouseEvent option \<times> mouse" where
  "mouse_pop_event m = (case mring_pop (mqueue m) of (ev, r) \<Rightarrow> (ev, m\<lparr>mqueue := r\<rparr>))"

section \<open>The ring is a bounded queue\<close>

definition mqueued :: "mring \<Rightarrow> MouseEvent list" where
  "mqueued r = map the (ring_items 32 (mbuf r) (mhead r) (mtail r))"

definition mring_ok :: "mring \<Rightarrow> bool" where
  "mring_ok r \<longleftrightarrow> length (mbuf r) = 32 \<and> mhead r < 32 \<and> mtail r < 32
     \<and> (\<forall>x \<in> set (ring_items 32 (mbuf r) (mhead r) (mtail r)). x \<noteq> None)"

lemma mring_push_items:
  assumes "mring_ok r"
  shows "mring_ok (snd (mring_push r ev))"
    "mqueued (snd (mring_push r ev)) = (if length (mqueued r) < 31 then mqueued r @ [ev] else mqueued r)"
proof -
  let ?h = "mhead r" and ?t = "mtail r" and ?b = "(mbuf r)[mhead r := Some ev]"
  have b: "?h < 32" "?t < 32" "length (mbuf r) = 32" using assms by (simp_all add: mring_ok_def)
  have len: "length (mqueued r) = ring_len 32 ?h ?t" by (simp add: mqueued_def)
  have "mring_ok (snd (mring_push r ev)) \<and>
    mqueued (snd (mring_push r ev)) = (if length (mqueued r) < 31 then mqueued r @ [ev] else mqueued r)"
  proof (cases "(?h + 1) mod 32 = ?t")
    case True
    then show ?thesis using assms ring_full [OF b(1,2)] len by (simp add: mring_push_def Let_def)
  next
    case False
    have i: "ring_items 32 ?b ((?h + 1) mod 32) ?t = ring_items 32 (mbuf r) ?h ?t @ [Some ev]"
      using ring_items_push [OF b(1,2) False, of ?b] ring_items_write_free [OF b(1,2)] b by simp
    have "ring_len 32 ?h ?t < 31"
      using ring_full [OF b(1,2)] False ring_len_bounds [OF b(1,2)] by linarith
    then show ?thesis
      using False assms b i len by (simp add: mring_push_def Let_def mring_ok_def mqueued_def del: length_ring_items)
  qed
  then show "mring_ok (snd (mring_push r ev))"
    "mqueued (snd (mring_push r ev)) = (if length (mqueued r) < 31 then mqueued r @ [ev] else mqueued r)" by auto
qed

lemma mring_pop_items:
  assumes "mring_ok r"
  shows "mring_ok (snd (mring_pop r))"
    "mqueued r = [] \<Longrightarrow> mring_pop r = (None, r)"
    "mqueued r = e # es \<Longrightarrow> fst (mring_pop r) = Some e \<and> mqueued (snd (mring_pop r)) = es"
proof -
  let ?h = "mhead r" and ?t = "mtail r" and ?n = "(mtail r + 1) mod 32"
  have b: "?h < 32" "?t < 32" "length (mbuf r) = 32" "?n < 32" using assms by (simp_all add: mring_ok_def)
  have e: "mqueued r = [] \<longleftrightarrow> ?h = ?t"
    using ring_len_0 [OF b(1,2)] by (simp add: mqueued_def length_0_conv [symmetric] del: length_0_conv)
  have i: "ring_items 32 (mbuf r) ?h ?t = mbuf r ! ?t # ring_items 32 ((mbuf r)[?t := None]) ?h ?n" if ne: "?h \<noteq> ?t"
  proof -
    have "?t \<noteq> (?n + j) mod 32" if "j < ring_len 32 ?h ?n" for j
    proof -
      have "Suc j < 32" using that ring_len_pop [OF b(1,2) ne] ring_len_bounds [OF b(1,2)] by simp
      then show ?thesis using b(2) by (auto simp: mod_if)
    qed
    then have "ring_items 32 ((mbuf r)[?t := None]) ?h ?n = ring_items 32 (mbuf r) ?h ?n"
      unfolding ring_items_def by (intro map_cong refl nth_list_update_neq) simp
    then show ?thesis using ring_items_pop [OF b(1,2) ne, of "mbuf r"] by simp
  qed
  show "mring_ok (snd (mring_pop r))"
    using assms i b by (auto simp: mring_pop_def mring_ok_def)
  show "mqueued r = [] \<Longrightarrow> mring_pop r = (None, r)" using e by (simp add: mring_pop_def)
  show "mqueued r = e # es \<Longrightarrow> fst (mring_pop r) = Some e \<and> mqueued (snd (mring_pop r)) = es"
  proof -
    assume q: "mqueued r = e # es"
    then have ne: "?h \<noteq> ?t" using e by auto
    have "mbuf r ! ?t \<noteq> None" using assms i [OF ne] by (auto simp: mring_ok_def)
    then show ?thesis using q ne i [OF ne] by (auto simp: mring_pop_def mqueued_def)
  qed
qed

interpretation mice: bounded_fifo mqueued mring_ok "\<lambda>_. True" "\<lambda>r e. snd (mring_push r e)" mring_pop 31
proof
  fix s
  assume "mring_ok s"
  then show "length (mqueued s) \<le> 31"
    using ring_len_bounds [of "mhead s" 32 "mtail s"] by (simp add: mring_ok_def mqueued_def)
qed (use mring_push_items mring_pop_items in auto)


section \<open>Packets\<close>

text \<open>The events a packet of the four bytes stands for, in the order the handler reports them.\<close>

definition packet_events :: "bool \<Rightarrow> u8 \<Rightarrow> u8 \<Rightarrow> u8 \<Rightarrow> u8 \<Rightarrow> MouseEvent list" where
  "packet_events wheel flags x y z =
     (if flags AND 0x08 = 0 then []
      else (if wheel \<and> z \<noteq> 0 then [Scroll z] else [])
         @ (if 2 < x \<or> 2 < y then [Move (ucast x) (ucast y)] else [])
         @ (if flags AND 0x01 \<noteq> 0 then [LeftClick] else [])
         @ (if flags AND 0x02 \<noteq> 0 then [RightClick] else [])
         @ (if flags AND 0x04 \<noteq> 0 then [MiddleClick] else []))"

definition mouse_ok :: "mouse \<Rightarrow> bool" where
  "mouse_ok m \<longleftrightarrow> mring_ok (mqueue m) \<and> length (mbytes m) = 4 \<and> cycle m < (if has_scroll m then 4 else 3)"

lemma sint_byte: "sint (ucast (x :: u8) :: u16) = uint x"
proof -
  have lt: "uint x < 256" "0 \<le> uint x" using unsigned_less [of x, where 'a = int] by simp_all
  then have "uint (ucast x :: u16) = uint x" by (simp add: unsigned_ucast_eq take_bit_int_eq_self)
  moreover have "- 32768 \<le> uint x" "uint x < 32768" using lt by linarith+
  then have "signed_take_bit 15 (uint x) = uint x" using signed_take_bit_int_eq_self [of 15 "uint x"] by simp
  ultimately show ?thesis by (simp add: sint_uint)
qed

lemma byte_move_big: "2 <s abs16 (ucast (x :: u8)) \<longleftrightarrow> 2 < x"
proof -
  have "\<not> bit (ucast x :: u16) 15" by (auto simp: bit_simps dest: bit_imp_le_length)
  then have "abs16 (ucast x) = ucast x" by (simp add: abs16_def)
  then show ?thesis by (simp add: word_sless_alt sint_byte word_less_def)
qed

lemma parse_packet_eq:
  "parse_packet m = fold enqueue
     (packet_events (has_scroll m) (mbytes m ! 0) (mbytes m ! 1) (mbytes m ! 2) (mbytes m ! 3)) m"
proof -
  have keep: "has_scroll (enqueue e m) = has_scroll m" for e m by (simp add: enqueue_def)
  show ?thesis by (simp add: parse_packet_def packet_events_def Let_def byte_move_big)
qed

lemma fold_enqueue:
  "mring_ok (mqueue m) \<Longrightarrow>
   mring_ok (mqueue (fold enqueue evs m)) \<and> mqueued (mqueue (fold enqueue evs m)) = take 31 (mqueued (mqueue m) @ evs)
   \<and> fold enqueue evs m = m\<lparr>mqueue := mqueue (fold enqueue evs m)\<rparr>"
proof (induction evs arbitrary: m)
  case Nil
  then show ?case using mice.items_limit [of "mqueue m"] by simp
next
  case (Cons e evs)
  have q: "mqueue (enqueue e m) = snd (mring_push (mqueue m) e)" by (simp add: enqueue_def)
  have "mqueued (mqueue (enqueue e m)) = take 31 (mqueued (mqueue m) @ [e])"
    using mring_push_items(2) [OF Cons.prems, of e] mice.items_limit [OF Cons.prems] by (auto simp: q)
  moreover have "take 31 (take 31 (mqueued (mqueue m) @ [e]) @ evs) = take 31 (mqueued (mqueue m) @ e # evs)"
    by (cases "length (mqueued (mqueue m)) < 31") auto
  moreover have "fold enqueue evs (enqueue e m) = (enqueue e m)\<lparr>mqueue := mqueue (fold enqueue evs (enqueue e m))\<rparr>"
    using Cons.IH [of "enqueue e m"] mring_push_items(1) [OF Cons.prems] q by simp
  then have "fold enqueue evs (enqueue e m) = m\<lparr>mqueue := mqueue (fold enqueue evs (enqueue e m))\<rparr>"
    by (simp add: enqueue_def)
  ultimately show ?case
    using Cons.IH [of "enqueue e m"] mring_push_items(1) [OF Cons.prems, of e] q by simp
qed

lemma packet_end:
  assumes "mring_ok (mqueue m)" "length (mbytes m) = 4" "cycle m = 0"
  shows "mqueued (mqueue (fold enqueue evs m)) = take 31 (mqueued (mqueue m) @ evs)
    \<and> mouse_ok (fold enqueue evs m) \<and> cycle (fold enqueue evs m) = 0
    \<and> has_scroll (fold enqueue evs m) = has_scroll m"
proof -
  define q where "q = mqueue (fold enqueue evs m)"
  note f = fold_enqueue [OF assms(1), of evs, folded q_def]
  have eq: "fold enqueue evs m = m\<lparr>mqueue := q\<rparr>" using f by blast
  show ?thesis unfolding eq using f assms by (simp add: mouse_ok_def)
qed

lemma irq_byte:
  assumes "mouse_initialized m"
  shows "cycle m + 1 < (if has_scroll m then 4 else 3) \<Longrightarrow>
      mouse_handle_irq m 0x20 b = m\<lparr>mbytes := (mbytes m)[unat (cycle m) := b], cycle := cycle m + 1\<rparr>"
    "cycle m + 1 = (if has_scroll m then 4 else 3) \<Longrightarrow>
      mouse_handle_irq m 0x20 b = parse_packet (m\<lparr>mbytes := (mbytes m)[unat (cycle m) := b], cycle := 0\<rparr>)"
  using assms by (auto simp: mouse_handle_irq_def Let_def)

definition feed :: "mouse \<Rightarrow> u8 list \<Rightarrow> mouse" where
  "feed m bs = fold (\<lambda>b m. mouse_handle_irq m 0x20 b) bs m"




text \<open>The handler widens the movement bytes without the sign bits of the flags byte: however
  the mouse is moved, no interrupt adds an event with a negative displacement.\<close>

theorem mouse_never_moves_back:
  assumes "mouse_ok m" "Move dx dy \<in> set (mqueued (mqueue (mouse_handle_irq m status b)))"
    and "Move dx dy \<notin> set (mqueued (mqueue m))"
  shows "0 \<le>s dx \<and> 0 \<le>s dy"
proof -
  let ?m = "m\<lparr>mbytes := (mbytes m)[unat (cycle m) := b], cycle := 0\<rparr>"
  have "mqueue (mouse_handle_irq m status b) = mqueue m \<or> mouse_handle_irq m status b = parse_packet ?m"
    by (simp add: mouse_handle_irq_def Let_def)
  then have "mouse_handle_irq m status b = parse_packet ?m" using assms(2,3) by auto
  then obtain evs where evs: "mouse_handle_irq m status b = fold enqueue evs ?m"
    "\<exists>w f x y z. evs = packet_events w f x y z" unfolding parse_packet_eq by blast
  have "mring_ok (mqueue ?m)" using assms(1) by (simp add: mouse_ok_def)
  then have "mqueued (mqueue (fold enqueue evs ?m)) = take 31 (mqueued (mqueue ?m) @ evs)"
    using fold_enqueue by blast
  then have "Move dx dy \<in> set (take 31 (mqueued (mqueue m) @ evs))"
    using assms(2) unfolding evs(1) by simp
  then have "Move dx dy \<in> set evs" using assms(3) by (metis Un_iff in_set_takeD set_append)
  moreover obtain w f x y z where "evs = packet_events w f x y z" using evs(2) by blast
  ultimately show ?thesis by (auto simp: packet_events_def word_sle_eq sint_byte split: if_splits)
qed

definition demo_mouse :: mouse where
  "demo_mouse = mouse_new\<lparr>mouse_initialized := True, cycle := 2, mbytes := [0x38, 0xFB, 0, 0]\<rparr>"

theorem mouse_never_moves_back_witness:
  "Move 0xFB 0xFB \<in> set (mqueued (mqueue (mouse_handle_irq demo_mouse 0x20 0xFB))) \<and> 0 \<le>s (0xFB :: u16)"
proof -
  have ok: "mouse_ok demo_mouse" "mqueued (mqueue demo_mouse) = []"
    by (simp_all add: demo_mouse_def mouse_ok_def mouse_new_def mring_ok_def mring_new_def ring_items_def
        ring_len_def mqueued_def)
  have "packet_events False 0x38 0xFB 0xFB 0 = [Move 0xFB 0xFB]" by (simp add: packet_events_def)
  then have "mouse_handle_irq demo_mouse 0x20 0xFB = fold enqueue [Move 0xFB 0xFB]
      (demo_mouse\<lparr>mbytes := [0x38, 0xFB, 0xFB, 0], cycle := 0\<rparr>)"
    by (simp add: irq_byte parse_packet_eq demo_mouse_def mouse_new_def Let_def)
  then have m: "Move 0xFB 0xFB \<in> set (mqueued (mqueue (mouse_handle_irq demo_mouse 0x20 0xFB)))"
    using fold_enqueue [of "demo_mouse\<lparr>mbytes := [0x38, 0xFB, 0xFB, 0], cycle := 0\<rparr>" "[Move 0xFB 0xFB]"] ok
    by (simp add: mouse_ok_def)
  show ?thesis using mouse_never_moves_back [OF ok(1) m] m ok(2) by simp
qed

end
