(* ===== verification/RamFs.thy ===== *)
theory RamFs
  imports Interfaces
begin

text \<open>
  The in-memory file system of \<^verbatim>\<open>src/fs/ramfs.rs\<close>. Its \<open>BTreeMap\<close> is a list of
  bindings sorted by key; strings are byte strings, compared byte by byte as Rust compares them.
  Text is ASCII, so \<open>trim\<close> removes the ASCII white space. The file system is an interpretation
  of \<open>file_store\<close>.
\<close>

section \<open>Text helpers\<close>

definition is_space :: "char \<Rightarrow> bool" where
  "is_space c \<longleftrightarrow> c \<in> {CHR 0x20, CHR 0x09, CHR 0x0A, CHR 0x0B, CHR 0x0C, CHR 0x0D}"

definition trim :: "string \<Rightarrow> string" where
  "trim s = rev (dropWhile is_space (rev (dropWhile is_space s)))"

section \<open>The tree map\<close>

fun btree_insert :: "string \<Rightarrow> 'v \<Rightarrow> (string \<times> 'v) list \<Rightarrow> (string \<times> 'v) list" where
  "btree_insert k v [] = [(k, v)]"
| "btree_insert k v ((k', v') # kvs) =
     (if k < k' then (k, v) # (k', v') # kvs
      else if k = k' then (k, v) # kvs
      else (k', v') # btree_insert k v kvs)"

definition btree_remove :: "string \<Rightarrow> (string \<times> 'v) list \<Rightarrow> (string \<times> 'v) list" where
  "btree_remove k kvs = [kv \<leftarrow> kvs. fst kv \<noteq> k]"

section \<open>The file system\<close>

record ramfs =
  files :: "(string \<times> u8 list) list"

definition ramfs_new :: ramfs where
  "ramfs_new = \<lparr>files = []\<rparr>"

definition normalize :: "string \<Rightarrow> FsError + string" where
  "normalize path =
     (let path = trim path in
      if path = [] \<or> CHR ''/'' \<in> set path \<or> CHR 0x5C \<in> set path then Inl InvalidName else Inr path)"

definition ramfs_read :: "ramfs \<Rightarrow> string \<Rightarrow> FsError + u8 list" where
  "ramfs_read fs path =
     (case normalize path of Inl e \<Rightarrow> Inl e
      | Inr key \<Rightarrow> (case map_of (files fs) key of Some d \<Rightarrow> Inr d | None \<Rightarrow> Inl NotFound))"

definition ramfs_write :: "ramfs \<Rightarrow> string \<Rightarrow> u8 list \<Rightarrow> FsError + ramfs" where
  "ramfs_write fs path data =
     (case normalize path of Inl e \<Rightarrow> Inl e
      | Inr key \<Rightarrow> Inr (fs\<lparr>files := btree_insert key data (files fs)\<rparr>))"

definition ramfs_create :: "ramfs \<Rightarrow> string \<Rightarrow> FsError + ramfs" where
  "ramfs_create fs path =
     (case normalize path of Inl e \<Rightarrow> Inl e
      | Inr key \<Rightarrow>
          if map_of (files fs) key \<noteq> None then Inl Exists
          else Inr (fs\<lparr>files := btree_insert key [] (files fs)\<rparr>))"

definition ramfs_delete :: "ramfs \<Rightarrow> string \<Rightarrow> FsError + ramfs" where
  "ramfs_delete fs path =
     (case normalize path of Inl e \<Rightarrow> Inl e
      | Inr key \<Rightarrow>
          if map_of (files fs) key = None then Inl NotFound
          else Inr (fs\<lparr>files := btree_remove key (files fs)\<rparr>))"

definition ramfs_list :: "ramfs \<Rightarrow> (string \<times> nat) list" where
  "ramfs_list fs = map (\<lambda>(k, v). (k, length v)) (files fs)"

definition ramfs_impl :: "(ramfs, u8 list) fs_impl" where
  "ramfs_impl = \<lparr>fs_read = ramfs_read, fs_write = ramfs_write, fs_create = ramfs_create,
     fs_delete = ramfs_delete, fs_list = ramfs_list\<rparr>"

text \<open>The texts of \<open>Display for FsError\<close>.\<close>

fun fs_error_text :: "FsError \<Rightarrow> string" where
  "fs_error_text NotFound = ''not found''"
| "fs_error_text Exists = ''already exists''"
| "fs_error_text InvalidName = ''invalid name''"
| "fs_error_text Io = ''I/O error''"

section \<open>The tree map is a map\<close>

definition btree_ok :: "(string \<times> 'v) list \<Rightarrow> bool" where
  "btree_ok kvs \<longleftrightarrow> sorted_wrt (<) (map fst kvs)"

lemma btree_insert_keys: "set (map fst (btree_insert k v kvs)) = insert k (set (map fst kvs))"
  by (induction k v kvs rule: btree_insert.induct) auto

lemma btree_insert_ok: "btree_ok kvs \<Longrightarrow> btree_ok (btree_insert k v kvs)"
  unfolding btree_ok_def
proof (induction k v kvs rule: btree_insert.induct)
  case (2 k v k' v' kvs)
  have "set (map fst (btree_insert k v kvs)) = insert k (set (map fst kvs))" by (rule btree_insert_keys)
  then show ?case using 2 by auto
qed simp

lemma btree_insert_lookup: "btree_ok kvs \<Longrightarrow> map_of (btree_insert k v kvs) = (map_of kvs)(k \<mapsto> v)"
proof (induction k v kvs rule: btree_insert.induct)
  case (2 k v k' v' kvs)
  have tl: "btree_ok kvs" using 2(2) by (simp add: btree_ok_def)
  show ?case using 2 tl by (auto simp: fun_eq_iff)
qed (simp add: btree_ok_def)

lemma btree_remove_ok: "btree_ok kvs \<Longrightarrow> btree_ok (btree_remove k kvs)"
  by (induction kvs) (auto simp: btree_ok_def btree_remove_def)

lemma btree_remove_lookup: "map_of (btree_remove k kvs) = (map_of kvs)(k := None)"
  by (induction kvs) (auto simp: btree_remove_def fun_eq_iff)

lemma btree_keys_sorted:
  assumes "btree_ok kvs"
  shows "sorted_list_of_set (dom (map_of kvs)) = map fst kvs"
proof -
  have "sorted_wrt (<) (map fst kvs)" using assms by (simp add: btree_ok_def)
  then have "sorted_list_of_set (set (map fst kvs)) = map fst kvs"
    by (intro sorted_list_of_set.idem_if_sorted_distinct) (simp_all add: strict_sorted_iff)
  then show ?thesis by (simp add: dom_map_of_conv_image_fst)
qed

section \<open>The file system is a file store\<close>

definition ramfs_contents :: "ramfs \<Rightarrow> string \<rightharpoonup> u8 list" where
  "ramfs_contents fs = map_of (files fs)"

definition ramfs_ok :: "ramfs \<Rightarrow> bool" where
  "ramfs_ok fs \<longleftrightarrow> btree_ok (files fs)"

definition file_key :: "string \<Rightarrow> string option" where
  "file_key p = (case normalize p of Inl e \<Rightarrow> None | Inr k \<Rightarrow> Some k)"

lemma normalize_error: "normalize p = Inl e \<Longrightarrow> e = InvalidName"
  by (auto simp: normalize_def Let_def split: if_splits)

lemma ramfs_list_spec:
  assumes "ramfs_ok fs"
  shows "ramfs_list fs = map (\<lambda>k. (k, length (the (ramfs_contents fs k)))) (sorted_list_of_set (dom (ramfs_contents fs)))"
proof -
  have "distinct (map fst (files fs))"
    using assms by (simp add: ramfs_ok_def btree_ok_def strict_sorted_iff)
  then show ?thesis
    using btree_keys_sorted [of "files fs"] assms
    by (auto simp: ramfs_list_def ramfs_contents_def ramfs_ok_def intro!: map_of_is_SomeI [symmetric] arg_cong [of _ _ length])
qed

interpretation ram: file_store ramfs_impl ramfs_contents ramfs_ok file_key length "[]"
proof
  fix s p d
  assume ok: "ramfs_ok s"
  note defs = ramfs_impl_def spec_fs_def file_key_def ramfs_contents_def ramfs_ok_def
  show "fs_read ramfs_impl s p = fs_read (spec_fs file_key length []) (ramfs_contents s) p"
    using normalize_error [of p] by (auto simp: defs ramfs_read_def split: sum.split option.split)
  show "case fs_write ramfs_impl s p d of
          Inl e \<Rightarrow> fs_write (spec_fs file_key length []) (ramfs_contents s) p d = Inl e
        | Inr s' \<Rightarrow> ramfs_ok s' \<and> fs_write (spec_fs file_key length []) (ramfs_contents s) p d = Inr (ramfs_contents s')"
    using ok normalize_error [of p]
    by (auto simp: defs ramfs_write_def btree_insert_ok btree_insert_lookup split: sum.splits)
  show "case fs_create ramfs_impl s p of
          Inl e \<Rightarrow> fs_create (spec_fs file_key length []) (ramfs_contents s) p = Inl e
        | Inr s' \<Rightarrow> ramfs_ok s' \<and> fs_create (spec_fs file_key length []) (ramfs_contents s) p = Inr (ramfs_contents s')"
    using ok normalize_error [of p]
    by (auto simp: defs ramfs_create_def btree_insert_ok btree_insert_lookup split: sum.splits if_splits)
  show "case fs_delete ramfs_impl s p of
          Inl e \<Rightarrow> fs_delete (spec_fs file_key length []) (ramfs_contents s) p = Inl e
        | Inr s' \<Rightarrow> ramfs_ok s' \<and> fs_delete (spec_fs file_key length []) (ramfs_contents s) p = Inr (ramfs_contents s')"
    using ok normalize_error [of p]
    by (auto simp: defs ramfs_delete_def btree_remove_ok btree_remove_lookup split: sum.splits if_splits)
  show "fs_list ramfs_impl s = fs_list (spec_fs file_key length []) (ramfs_contents s)"
    using ramfs_list_spec [OF ok] by (simp add: ramfs_impl_def spec_fs_def)
qed

lemma ramfs_new_ok: "ramfs_ok ramfs_new" "ramfs_contents ramfs_new = Map.empty"
  by (simp_all add: ramfs_ok_def btree_ok_def ramfs_new_def ramfs_contents_def)

text \<open>C19. Any sequence of reads, writes, creations, deletions and listings on the RAM file system
  answers as the same sequence on a finite map from names to contents does, errors included, and
  listings come in name order.\<close>

theorem ramfs_refines_map:
  "fst (fs_run ramfs_impl ops ramfs_new) = fst (fs_run (spec_fs file_key length []) ops Map.empty)"
  using ram.run_refines [OF ramfs_new_ok(1), of ops] by (simp add: ramfs_new_ok(2))

end
