(* ===== verification/Calc.thy ===== *)
theory Calc
  imports Prelude
begin

text \<open>
  The calculator of \<^verbatim>\<open>src/shell/calc.rs\<close>: tokenizer, shunting-yard conversion to
  postfix and evaluation with checked 64-bit arithmetic. Input text is a HOL string, whose
  characters are bytes; an \<open>i64\<close> is an integer in range and the checked operations fail outside
  it. The reference is the expression tree: \<open>expr_value\<close> evaluates it, \<open>expr_text\<close> prints it.
\<close>

section \<open>The code\<close>

datatype Tok = Num int | Op char | LParen | RParen

datatype calc_error = Bad_number | Invalid_token | Mismatched_parens | Stack_underflow
  | Overflow_div0 | Bad_rpn | Bad_expression

definition in_i64 :: "int \<Rightarrow> bool" where
  "in_i64 n \<longleftrightarrow> - (2 ^ 63) \<le> n \<and> n < 2 ^ 63"

definition is_ws :: "char \<Rightarrow> bool" where
  "is_ws c \<longleftrightarrow> c \<in> {CHR 0x20, CHR 0x09, CHR 0x0A, CHR 0x0C, CHR 0x0D}"

definition is_dig :: "char \<Rightarrow> bool" where
  "is_dig c \<longleftrightarrow> 48 \<le> (of_char c :: nat) \<and> (of_char c :: nat) \<le> 57"

fun parse_digits :: "string \<Rightarrow> int \<Rightarrow> int" where
  "parse_digits [] n = n"
| "parse_digits (c # cs) n = parse_digits cs (10 * n + int (of_char c - 48))"

text \<open>\<open>str::parse::<i64>\<close> on the slices the tokenizer cuts: an optional minus sign and digits.\<close>

definition parse_i64 :: "string \<Rightarrow> int option" where
  "parse_i64 s =
     (let neg = (s \<noteq> [] \<and> hd s = CHR ''-'');
          ds = (if neg then tl s else s);
          n = (if neg then - parse_digits ds 0 else parse_digits ds 0) in
      if ds = [] \<or> \<not> list_all is_dig ds \<or> \<not> in_i64 n then None else Some n)"

definition starts_number :: "char \<Rightarrow> Tok list \<Rightarrow> bool" where
  "starts_number c out \<longleftrightarrow> is_dig c \<or> c = CHR ''-'' \<and>
     (out = [] \<or> (case last out of Op _ \<Rightarrow> True | LParen \<Rightarrow> True | _ \<Rightarrow> False))"

function tokenize_from :: "string \<Rightarrow> Tok list \<Rightarrow> calc_error + Tok list" where
  "tokenize_from [] out = Inr out"
| "tokenize_from (c # cs) out =
     (if is_ws c then tokenize_from cs out
      else if starts_number c out then
        (case parse_i64 (c # takeWhile is_dig cs) of
           None \<Rightarrow> Inl Bad_number
         | Some n \<Rightarrow> tokenize_from (dropWhile is_dig cs) (out @ [Num n]))
      else if c \<in> {CHR ''+'', CHR ''-'', CHR ''*'', CHR ''/'', CHR ''%''} then tokenize_from cs (out @ [Op c])
      else if c = CHR ''('' then tokenize_from cs (out @ [LParen])
      else if c = CHR '')'' then tokenize_from cs (out @ [RParen])
      else Inl Invalid_token)"
  by pat_completeness auto
termination
  by (relation "measure (\<lambda>(cs, _). length cs)") (auto simp: le_imp_less_Suc length_dropWhile_le)

definition tokenize :: "string \<Rightarrow> calc_error + Tok list" where
  "tokenize s = tokenize_from s []"

definition prec :: "char \<Rightarrow> nat" where
  "prec c = (if c \<in> {CHR ''+'', CHR ''-''} then 1
             else if c \<in> {CHR ''*'', CHR ''/'', CHR ''%''} then 2 else 0)"

fun binds :: "char \<Rightarrow> Tok \<Rightarrow> bool" where
  "binds o1 (Op t) = (prec t \<ge> prec o1)"
| "binds o1 _ = False"

text \<open>\<open>ops\<close> has its top first.\<close>

fun shunt :: "Tok list \<Rightarrow> Tok list \<Rightarrow> Tok list \<Rightarrow> calc_error + Tok list" where
  "shunt [] out ops =
     (if LParen \<in> set ops \<or> RParen \<in> set ops then Inl Mismatched_parens else Inr (out @ ops))"
| "shunt (Num n # ts) out ops = shunt ts (out @ [Num n]) ops"
| "shunt (Op c # ts) out ops =
     shunt ts (out @ takeWhile (binds c) ops) (Op c # dropWhile (binds c) ops)"
| "shunt (LParen # ts) out ops = shunt ts out (LParen # ops)"
| "shunt (RParen # ts) out ops =
     shunt ts (out @ takeWhile (\<lambda>t. t \<noteq> LParen) ops) (tl (dropWhile (\<lambda>t. t \<noteq> LParen) ops))"

definition shunting_yard :: "Tok list \<Rightarrow> calc_error + Tok list" where
  "shunting_yard ts = shunt ts [] []"

definition checked :: "int \<Rightarrow> int option" where
  "checked n = (if in_i64 n then Some n else None)"

definition trunc_div :: "int \<Rightarrow> int \<Rightarrow> int" where
  "trunc_div a b = sgn a * sgn b * (\<bar>a\<bar> div \<bar>b\<bar>)"

text \<open>\<open>checked_rem\<close> also fails where the division overflows.\<close>

definition apply_op :: "char \<Rightarrow> int \<Rightarrow> int \<Rightarrow> int option" where
  "apply_op c a b =
     (if c = CHR ''+'' then checked (a + b)
      else if c = CHR ''-'' then checked (a - b)
      else if c = CHR ''*'' then checked (a * b)
      else if c = CHR ''/'' then (if b = 0 then None else checked (trunc_div a b))
      else if c = CHR ''%'' then
        (if b = 0 \<or> checked (trunc_div a b) = None then None else Some (a - b * trunc_div a b))
      else None)"

fun eval_rpn_from :: "Tok list \<Rightarrow> int list \<Rightarrow> calc_error + int" where
  "eval_rpn_from [] st = (case st of [v] \<Rightarrow> Inr v | _ \<Rightarrow> Inl Bad_expression)"
| "eval_rpn_from (Num n # ts) st = eval_rpn_from ts (n # st)"
| "eval_rpn_from (Op c # ts) st =
     (case st of
        b # a # st' \<Rightarrow> (case apply_op c a b of None \<Rightarrow> Inl Overflow_div0 | Some r \<Rightarrow> eval_rpn_from ts (r # st'))
      | _ \<Rightarrow> Inl Stack_underflow)"
| "eval_rpn_from (LParen # ts) st = Inl Bad_rpn"
| "eval_rpn_from (RParen # ts) st = Inl Bad_rpn"

definition eval_rpn :: "Tok list \<Rightarrow> calc_error + int" where
  "eval_rpn ts = eval_rpn_from ts []"

definition calc_eval :: "string \<Rightarrow> calc_error + int" where
  "calc_eval input =
     (case tokenize input of Inl e \<Rightarrow> Inl e
      | Inr ts \<Rightarrow> (case shunting_yard ts of Inl e \<Rightarrow> Inl e | Inr rpn \<Rightarrow> eval_rpn rpn))"

section \<open>Expressions\<close>

datatype expr = Lit int | Bin char expr expr

definition is_binop :: "char \<Rightarrow> bool" where
  "is_binop c \<longleftrightarrow> c \<in> {CHR ''+'', CHR ''-'', CHR ''*'', CHR ''/'', CHR ''%''}"

fun expr_ok :: "expr \<Rightarrow> bool" where
  "expr_ok (Lit n) = in_i64 n"
| "expr_ok (Bin c a b) = (is_binop c \<and> expr_ok a \<and> expr_ok b)"

fun expr_value :: "expr \<Rightarrow> calc_error + int" where
  "expr_value (Lit n) = Inr n"
| "expr_value (Bin c a b) =
     (case expr_value a of Inl e \<Rightarrow> Inl e
      | Inr x \<Rightarrow> (case expr_value b of Inl e \<Rightarrow> Inl e
          | Inr y \<Rightarrow> (case apply_op c x y of None \<Rightarrow> Inl Overflow_div0 | Some r \<Rightarrow> Inr r)))"

fun postfix :: "expr \<Rightarrow> Tok list" where
  "postfix (Lit n) = [Num n]"
| "postfix (Bin c a b) = postfix a @ postfix b @ [Op c]"

text \<open>The tokens of an expression in a context of precedence \<open>p\<close>, with the parentheses that
  left associativity needs.\<close>

fun infix_toks :: "nat \<Rightarrow> expr \<Rightarrow> Tok list" where
  "infix_toks p (Lit n) = [Num n]"
| "infix_toks p (Bin c a b) =
     (let ts = infix_toks (prec c) a @ [Op c] @ infix_toks (Suc (prec c)) b in
      if prec c < p then [LParen] @ ts @ [RParen] else ts)"

section \<open>Evaluation of postfix\<close>

lemma eval_postfix:
  "eval_rpn_from (postfix e @ ts) st =
     (case expr_value e of Inl err \<Rightarrow> Inl err | Inr v \<Rightarrow> eval_rpn_from ts (v # st))"
proof (induction e arbitrary: ts st)
  case (Bin c a b)
  then show ?case by (simp split: sum.split option.split)
qed simp

section \<open>Shunting yard\<close>

definition below :: "nat \<Rightarrow> Tok list \<Rightarrow> bool" where
  "below p ops \<longleftrightarrow> (case ops of Op t # _ \<Rightarrow> prec t < p | _ \<Rightarrow> True)"

definition pending :: "nat \<Rightarrow> Tok list \<Rightarrow> bool" where
  "pending p ops \<longleftrightarrow> (\<forall>t \<in> set ops. \<exists>c. t = Op c \<and> p \<le> prec c)"

lemma pending_mono: "pending q ops \<Longrightarrow> p \<le> q \<Longrightarrow> pending p ops"
  by (force simp: pending_def)

lemma drain_pending:
  assumes "pending (prec c) ds" "below (prec c) ops"
  shows "takeWhile (binds c) (ds @ ops) = ds" "dropWhile (binds c) (ds @ ops) = ops"
proof -
  have all: "\<forall>t \<in> set ds. binds c t" using assms(1) by (auto simp: pending_def)
  have none: "takeWhile (binds c) ops = []" "dropWhile (binds c) ops = ops"
    using assms(2) by (auto simp: below_def split: list.splits Tok.splits)
  show "takeWhile (binds c) (ds @ ops) = ds" "dropWhile (binds c) (ds @ ops) = ops"
    using all none by (simp_all add: takeWhile_append dropWhile_append)
qed

lemma drain_paren:
  assumes "pending q ds"
  shows "takeWhile (\<lambda>t. t \<noteq> LParen) (ds @ LParen # ops) = ds"
    "dropWhile (\<lambda>t. t \<noteq> LParen) (ds @ LParen # ops) = LParen # ops"
  using assms by (induction ds) (auto simp: pending_def)

lemma shunt_infix:
  assumes "below p ops"
  shows "\<exists>pre pend. shunt (infix_toks p e @ ts) out ops = shunt ts (out @ pre) (pend @ ops)
     \<and> pre @ pend = postfix e \<and> pending p pend"
  using assms
proof (induction e arbitrary: p ops ts out)
  case (Lit n)
  then show ?case by (intro exI [of _ "[Num n]"] exI [of _ "[]"]) (simp add: pending_def)
next
  case (Bin c a b)
  have core: "\<exists>pre pend. shunt ((infix_toks (prec c) a @ [Op c] @ infix_toks (Suc (prec c)) b) @ ts) out ops
        = shunt ts (out @ pre) (pend @ ops) \<and> pre @ pend = postfix (Bin c a b) \<and> pending (prec c) pend"
    if bl: "below (prec c) ops" for ts out ops
  proof -
    obtain pa da where a: "shunt (infix_toks (prec c) a @ [Op c] @ infix_toks (Suc (prec c)) b @ ts) out ops
        = shunt ([Op c] @ infix_toks (Suc (prec c)) b @ ts) (out @ pa) (da @ ops)"
      "pa @ da = postfix a" "pending (prec c) da"
      using Bin.IH(1) [OF bl] by blast
    have "below (Suc (prec c)) (Op c # ops)" by (simp add: below_def)
    from Bin.IH(2) [OF this] obtain pb db where b: "shunt (infix_toks (Suc (prec c)) b @ ts) (out @ pa @ da) (Op c # ops)
        = shunt ts ((out @ pa @ da) @ pb) (db @ Op c # ops)"
      "pb @ db = postfix b" "pending (Suc (prec c)) db" by blast
    have "shunt ((infix_toks (prec c) a @ [Op c] @ infix_toks (Suc (prec c)) b) @ ts) out ops
        = shunt ts (out @ (pa @ da @ pb)) ((db @ [Op c]) @ ops)"
      using a(1) b(1) drain_pending [OF a(3) bl] by simp
    moreover have "(pa @ da @ pb) @ db @ [Op c] = postfix (Bin c a b)" by (simp add: a(2) [symmetric] b(2) [symmetric])
    moreover have "pending (prec c) (db @ [Op c])" using b(3) by (force simp: pending_def)
    ultimately show ?thesis by blast
  qed
  show ?case
  proof (cases "prec c < p")
    case True
    have "below (prec c) (LParen # ops)" by (simp add: below_def)
    from core [OF this, of "RParen # ts" out] obtain pre pend where
      k: "shunt ((infix_toks (prec c) a @ [Op c] @ infix_toks (Suc (prec c)) b) @ RParen # ts) out (LParen # ops)
          = shunt (RParen # ts) (out @ pre) (pend @ LParen # ops)" "pre @ pend = postfix (Bin c a b)" "pending (prec c) pend"
      by blast
    have "shunt (infix_toks p (Bin c a b) @ ts) out ops = shunt ts (out @ pre @ pend) ops"
      using True k(1) drain_paren [OF k(3), of ops] by simp
    then show ?thesis using k(2) by (intro exI [of _ "pre @ pend"] exI [of _ "[]"]) (simp add: pending_def)
  next
    case False
    then have "below (prec c) ops" using Bin.prems by (auto simp: below_def split: list.splits Tok.splits)
    from core [OF this, of ts out] show ?thesis
      using False pending_mono [of "prec c" _ p] by (auto simp: Let_def)
  qed
qed

lemma shunting_yard_infix: "shunting_yard (infix_toks 0 e) = Inr (postfix e)"
proof -
  have "below 0 []" by (simp add: below_def)
  from shunt_infix [OF this, of e "[]" "[]"] obtain pre pend where
    "shunting_yard (infix_toks 0 e) = shunt [] pre pend" "pre @ pend = postfix e" "pending 0 pend"
    by (auto simp: shunting_yard_def)
  moreover have "LParen \<notin> set pend" "RParen \<notin> set pend" using \<open>pending 0 pend\<close> by (auto simp: pending_def)
  ultimately show ?thesis by simp
qed


section \<open>Printing and reading back\<close>

function show_nat :: "nat \<Rightarrow> string" where
  "show_nat n = (if n < 10 then [char_of (48 + n)] else show_nat (n div 10) @ [char_of (48 + n mod 10)])"
  by pat_completeness auto
termination by (relation "measure id") auto

declare show_nat.simps [simp del]

definition show_int :: "int \<Rightarrow> string" where
  "show_int n = (if n < 0 then CHR ''-'' # show_nat (nat (- n)) else show_nat (nat n))"

fun show_tok :: "Tok \<Rightarrow> string" where
  "show_tok (Num n) = show_int n"
| "show_tok (Op c) = [c]"
| "show_tok LParen = ''(''"
| "show_tok RParen = '')''"

definition expr_text :: "expr \<Rightarrow> string" where
  "expr_text e = concat (map show_tok (infix_toks 0 e))"

lemma digit_char: "d < 10 \<Longrightarrow> is_dig (char_of (48 + d)) \<and> (of_char (char_of (48 + d) :: char) :: nat) = 48 + d"
  by (simp add: is_dig_def of_char_of)

lemma parse_digits_append: "parse_digits (xs @ ys) n = parse_digits ys (parse_digits xs n)"
  by (induction xs arbitrary: n) simp_all

lemma show_nat_digits: "show_nat n \<noteq> [] \<and> list_all is_dig (show_nat n) \<and> parse_digits (show_nat n) 0 = int n"
proof (induction n rule: show_nat.induct)
  case (1 n)
  have d: "n mod 10 < 10" by simp
  show ?case
  proof (cases "n < 10")
    case True
    then show ?thesis using digit_char [OF True] by (simp add: show_nat.simps [of n])
  next
    case False
    have "int (10 * (n div 10) + n mod 10) = int n" by (simp only: mult_div_mod_eq)
    then have "10 * int (n div 10) + int (n mod 10) = int n" by (simp only: of_nat_add of_nat_mult of_nat_numeral)
    then show ?thesis using 1 False digit_char [OF d] by (simp add: show_nat.simps [of n] parse_digits_append)
  qed
qed

lemma dig_not: "is_dig c \<Longrightarrow> \<not> is_ws c \<and> c \<noteq> CHR ''-'' \<and> \<not> is_binop c \<and> c \<noteq> CHR ''('' \<and> c \<noteq> CHR '')''"
  by (auto simp: is_dig_def is_ws_def is_binop_def)

lemma parse_show_int: "in_i64 n \<Longrightarrow> parse_i64 (show_int n) = Some n"
proof -
  assume n: "in_i64 n"
  show ?thesis
  proof (cases "n < 0")
    case True
    then show ?thesis using show_nat_digits [of "nat (- n)"] n by (simp add: parse_i64_def show_int_def)
  next
    case False
    obtain d ds where s: "show_nat (nat n) = d # ds" using show_nat_digits [of "nat n"] by (cases "show_nat (nat n)") auto
    have "d \<noteq> CHR ''-''" using show_nat_digits [of "nat n"] s dig_not [of d] by auto
    then show ?thesis
      using False show_nat_digits [of "nat n"] n s
      by (simp add: parse_i64_def show_int_def)
  qed
qed

text \<open>Where an operand is expected, and whether the token lists of expressions alternate.\<close>

definition expects :: "Tok list \<Rightarrow> bool" where
  "expects out \<longleftrightarrow> out = [] \<or> (case last out of Op _ \<Rightarrow> True | LParen \<Rightarrow> True | _ \<Rightarrow> False)"

fun shape :: "bool \<Rightarrow> Tok list \<Rightarrow> bool" where
  "shape s [] = (\<not> s)"
| "shape s (Num n # ts) = (s \<and> in_i64 n \<and> shape False ts)"
| "shape s (LParen # ts) = (s \<and> shape True ts)"
| "shape s (Op c # ts) = (\<not> s \<and> is_binop c \<and> shape True ts)"
| "shape s (RParen # ts) = (\<not> s \<and> shape False ts)"

lemma shape_infix: "expr_ok e \<Longrightarrow> shape False ts \<Longrightarrow> shape True (infix_toks p e @ ts)"
  by (induction e arbitrary: p ts) (simp_all add: Let_def)

lemma shape_head: "shape False ts \<Longrightarrow> takeWhile is_dig (concat (map show_tok ts)) = []"
  using dig_not by (cases ts rule: list.exhaust; cases "hd ts") auto

lemma tokenize_shape:
  "shape s ts \<Longrightarrow> s = expects out \<Longrightarrow> tokenize_from (concat (map show_tok ts)) out = Inr (out @ ts)"
proof (induction ts arbitrary: s out)
  case Nil
  then show ?case by simp
next
  case (Cons t ts)
  let ?rest = "concat (map show_tok ts)"
  have IH: "tokenize_from ?rest (out @ [t]) = Inr (out @ t # ts)" if "shape (expects (out @ [t])) ts"
    using Cons.IH [OF that refl] by simp
  show ?case
  proof (cases t)
    case (Num n)
    have n: "in_i64 n" "expects out" and sh: "shape False ts" using Cons.prems by (simp_all add: Num)
    obtain c cs where s: "show_int n = c # cs" "list_all is_dig cs" "is_dig c \<or> c = CHR ''-''"
      using show_nat_digits [of "nat n"] show_nat_digits [of "nat (- n)"]
      by (cases "n < 0"; cases "show_nat (nat n)") (auto simp: show_int_def)
    have "takeWhile is_dig (cs @ ?rest) = cs" "dropWhile is_dig (cs @ ?rest) = ?rest"
      using s(2) shape_head [OF sh]
      by (auto simp: takeWhile_append dropWhile_append list_all_iff takeWhile_eq_Nil_iff dropWhile_eq_self_iff)
    moreover have "starts_number c out" "\<not> is_ws c"
      using s(3) n(2) dig_not by (auto simp: starts_number_def expects_def is_ws_def)
    ultimately show ?thesis
      using parse_show_int [OF n(1)] IH sh s(1) by (simp add: Num expects_def)
  next
    case (Op c)
    have c: "is_binop c" "\<not> expects out" "shape True ts" using Cons.prems by (simp_all add: Op)
    have "\<not> is_ws c" "\<not> starts_number c out"
      using c dig_not [of c] by (auto simp: starts_number_def expects_def is_binop_def is_ws_def)
    then show ?thesis using IH c by (simp add: Op expects_def is_binop_def)
  next
    case LParen
    then show ?thesis using IH Cons.prems by (simp add: expects_def is_ws_def starts_number_def is_dig_def)
  next
    case RParen
    then show ?thesis using IH Cons.prems by (simp add: expects_def is_ws_def starts_number_def is_dig_def)
  qed
qed



text \<open>A closing parenthesis without an opening one and operands in postfix order are not
  rejected: the first is dropped, the second is evaluated.\<close>

theorem calc_accepts_malformed:
  "calc_eval ''1)'' = Inr 1 \<and> calc_eval ''1 2+'' = Inr 3 \<and> calc_eval ''(1'' = Inl Mismatched_parens"
  by code_simp

end
