(* ===== verification/Keyboard.thy ===== *)
theory Keyboard
  imports EventRings
begin

text \<open>
  The keyboard driver of \<^verbatim>\<open>src/keyboard.rs\<close>: the encoding of key events in 32-bit
  cells, the lock-free ring with its relaxed loads and stores as single steps, the scancode
  tables and the interrupt handler with its shift, control and extended-prefix flags.
\<close>

section \<open>Events and their encoding\<close>

text \<open>\<open>Char\<close> of the source is \<open>Char_key\<close> (\<open>Char\<close> is the constructor of HOL characters); the
  payload of \<open>Ctrl\<close> is a Rust \<open>char\<close>, a 32-bit scalar.\<close>

datatype KeyEvent = Char_key u8 | Up | Down | Left | Right | Backspace | Enter | Escape
  | Ctrl u32 | PageUp | PageDown

definition BUF_SIZE :: nat where "BUF_SIZE = 64"

fun encode :: "KeyEvent \<Rightarrow> u32" where
  "encode (Char_key c) = push_bit 8 1 OR ucast c"
| "encode Up = push_bit 8 2"
| "encode Down = push_bit 8 3"
| "encode Left = push_bit 8 4"
| "encode Right = push_bit 8 5"
| "encode Backspace = push_bit 8 6"
| "encode Enter = push_bit 8 7"
| "encode Escape = push_bit 8 8"
| "encode (Ctrl c) = push_bit 8 9 OR c"
| "encode PageUp = push_bit 8 10"
| "encode PageDown = push_bit 8 11"

definition decode :: "u32 \<Rightarrow> KeyEvent option" where
  "decode val =
     (if val = 0 then None
      else let typ = drop_bit 8 val; data = (ucast val :: u8) in
        if typ = 1 then Some (Char_key data)
        else if typ = 2 then Some Up
        else if typ = 3 then Some Down
        else if typ = 4 then Some Left
        else if typ = 5 then Some Right
        else if typ = 6 then Some Backspace
        else if typ = 7 then Some Enter
        else if typ = 8 then Some Escape
        else if typ = 9 then Some (Ctrl (ucast data))
        else if typ = 10 then Some PageUp
        else if typ = 11 then Some PageDown
        else None)"

text \<open>The events the driver produces: control characters come from a byte.\<close>

fun event_valid :: "KeyEvent \<Rightarrow> bool" where
  "event_valid (Ctrl c) = (c < 256)"
| "event_valid _ = True"

section \<open>The ring\<close>

record kring =
  buf :: "u32 list"
  head :: nat
  tail :: nat

definition KEYBUF :: kring where
  "KEYBUF = \<lparr>buf = replicate BUF_SIZE 0, head = 0, tail = 0\<rparr>"

definition ring_push :: "kring \<Rightarrow> KeyEvent \<Rightarrow> kring" where
  "ring_push r ev =
     (let h = head r; t = tail r; next = (h + 1) mod BUF_SIZE in
      if next = t then r else r\<lparr>buf := (buf r)[h := encode ev], head := next\<rparr>)"

definition ring_pop :: "kring \<Rightarrow> KeyEvent option \<times> kring" where
  "ring_pop r =
     (let t = tail r; h = head r in
      if t = h then (None, r)
      else let val = buf r ! t in (decode val, r\<lparr>tail := (t + 1) mod BUF_SIZE\<rparr>))"

definition ring_clear :: "kring \<Rightarrow> kring" where
  "ring_clear r = r\<lparr>tail := head r\<rparr>"

section \<open>Scancodes\<close>

definition LOWER :: "u8 list" where
  "LOWER = [0, 27, 49, 50, 51, 52, 53, 54, 55, 56, 57, 48, 45, 61, 8,
     9, 113, 119, 101, 114, 116, 121, 117, 105, 111, 112, 91, 93, 10,
     0, 97, 115, 100, 102, 103, 104, 106, 107, 108, 59, 39, 96, 0,
     92, 122, 120, 99, 118, 98, 110, 109, 44, 46, 47, 0, 42, 0, 32]"

definition UPPER :: "u8 list" where
  "UPPER = [0, 27, 33, 64, 35, 36, 37, 94, 38, 42, 40, 41, 95, 43, 8,
     9, 81, 87, 69, 82, 84, 89, 85, 73, 79, 80, 123, 125, 10,
     0, 65, 83, 68, 70, 71, 72, 74, 75, 76, 58, 34, 126, 0,
     124, 90, 88, 67, 86, 66, 78, 77, 60, 62, 63, 0, 42, 0, 32]"

definition scancode_to_ascii :: "u8 \<Rightarrow> bool \<Rightarrow> u8 option" where
  "scancode_to_ascii sc shift =
     (if unat sc \<ge> length LOWER then None
      else let c = if shift then UPPER ! unat sc else LOWER ! unat sc in
        if c = 0 \<or> c = 27 then None else Some c)"

record kbd =
  keybuf :: kring
  shift :: bool
  ctrl :: bool
  extended :: bool

definition kbd_init :: kbd where
  "kbd_init = \<lparr>keybuf = KEYBUF, shift = False, ctrl = False, extended = False\<rparr>"

definition handle_release :: "kbd \<Rightarrow> u8 \<Rightarrow> kbd" where
  "handle_release k sc =
     (if sc = 0x2A \<or> sc = 0x36 then k\<lparr>shift := False\<rparr>
      else if sc = 0x1D then k\<lparr>ctrl := False\<rparr>
      else k)"

definition translate_extended :: "u8 \<Rightarrow> KeyEvent option" where
  "translate_extended sc =
     (if sc = 0x48 then Some Up
      else if sc = 0x50 then Some Down
      else if sc = 0x4B then Some Left
      else if sc = 0x4D then Some Right
      else if sc = 0x49 then Some PageUp
      else if sc = 0x51 then Some PageDown
      else None)"

definition translate :: "kbd \<Rightarrow> u8 \<Rightarrow> KeyEvent option \<times> kbd" where
  "translate k sc =
     (if sc = 0x2A \<or> sc = 0x36 then (None, k\<lparr>shift := True\<rparr>)
      else if sc = 0x1D then (None, k\<lparr>ctrl := True\<rparr>)
      else if sc = 0x0E then (Some Backspace, k)
      else if sc = 0x1C then (Some Enter, k)
      else if sc = 0x01 then (Some Escape, k)
      else case scancode_to_ascii sc (shift k) of
          None \<Rightarrow> (None, k)
        | Some c \<Rightarrow> (Some (if ctrl k then Ctrl (ucast c) else Char_key c), k))"

definition push_event :: "kbd \<Rightarrow> KeyEvent option \<Rightarrow> kbd" where
  "push_event k ev = (case ev of None \<Rightarrow> k | Some e \<Rightarrow> k\<lparr>keybuf := ring_push (keybuf k) e\<rparr>)"

text \<open>\<open>status\<close> is what port 0x64 reads, \<open>sc\<close> what port 0x60 reads.\<close>

definition kbd_handle_irq :: "kbd \<Rightarrow> u8 \<Rightarrow> u8 \<Rightarrow> kbd" where
  "kbd_handle_irq k status sc =
     (if status AND 0x20 \<noteq> 0 then k
      else if sc = 0xE0 then k\<lparr>extended := True\<rparr>
      else if extended k then push_event (k\<lparr>extended := False\<rparr>) (translate_extended sc)
      else if sc AND 0x80 \<noteq> 0 then handle_release k (sc AND 0x7F)
      else case translate k sc of (ev, k') \<Rightarrow> push_event k' ev)"

definition pop_event :: "kbd \<Rightarrow> KeyEvent option \<times> kbd" where
  "pop_event k = (case ring_pop (keybuf k) of (ev, r) \<Rightarrow> (ev, k\<lparr>keybuf := r\<rparr>))"

definition flush :: "kbd \<Rightarrow> kbd" where
  "flush k = k\<lparr>keybuf := ring_clear (keybuf k)\<rparr>"

text \<open>\<open>read_line\<close> on the events it pops: the line typed up to \<open>Enter\<close>, and the events left.\<close>

fun read_line :: "KeyEvent list \<Rightarrow> u8 list \<Rightarrow> (u8 list \<times> KeyEvent list) option" where
  "read_line [] line = None"
| "read_line (ev # evs) line =
     (case ev of
        Char_key c \<Rightarrow> read_line evs (line @ [c])
      | Backspace \<Rightarrow> read_line evs (butlast line)
      | Enter \<Rightarrow> Some (line, evs)
      | _ \<Rightarrow> read_line evs line)"

section \<open>Encoding\<close>

lemma ucast_ucast_take_bit: "(ucast (ucast (c :: u32) :: u8) :: u32) = take_bit 8 c"
  by (rule bit_word_eqI) (auto simp: bit_simps)

lemma ucast_or_8: "(ucast (push_bit 8 (x :: u32) OR ucast (c :: u8)) :: u8) = c"
  by (rule bit_word_eqI) (auto simp: bit_simps)

lemma drop_or_8: "x < 2 ^ 24 \<Longrightarrow> drop_bit 8 (push_bit 8 (x :: u32) OR ucast (c :: u8)) = x"
proof (rule bit_word_eqI)
  fix n assume x: "x < 2 ^ 24" and n: "n < LENGTH(32)"
  have "\<not> bit x n" if "24 \<le> n"
  proof -
    have "take_bit 24 x = x" using x by (intro take_bit_word_small) (simp add: word_less_nat_alt)
    then show ?thesis using that by (metis bit_take_bit_iff leD)
  qed
  moreover have "\<not> bit c (n + 8)" by (auto dest: bit_imp_le_length)
  ultimately show "bit (drop_bit 8 (push_bit 8 x OR ucast c)) n = bit x n"
    using n by (cases "24 \<le> n") (auto simp: bit_simps)
qed

lemma decode_encode: "event_valid ev \<Longrightarrow> decode (encode ev) = Some ev"
proof (cases ev)
  case (Char_key c)
  then show ?thesis
    using drop_or_8 [of 1 c] ucast_or_8 [of 1 c] by (auto simp: decode_def Let_def)
next
  case (Ctrl c)
  assume "event_valid ev"
  then have "take_bit 8 c = c" by (intro take_bit_word_small) (simp add: Ctrl word_less_nat_alt)
  then obtain b :: u8 where c: "c = ucast b" by (metis ucast_ucast_take_bit)
  show ?thesis
    using drop_or_8 [of 9 b] ucast_or_8 [of 9 b] by (auto simp: Ctrl c decode_def Let_def)
qed (simp_all add: decode_def Let_def)


section \<open>The ring is a bounded queue\<close>

definition queued :: "kring \<Rightarrow> KeyEvent list" where
  "queued r = map (the \<circ> decode) (ring_items BUF_SIZE (buf r) (head r) (tail r))"

definition kring_ok :: "kring \<Rightarrow> bool" where
  "kring_ok r \<longleftrightarrow> length (buf r) = BUF_SIZE \<and> head r < BUF_SIZE \<and> tail r < BUF_SIZE
     \<and> (\<forall>x \<in> set (ring_items BUF_SIZE (buf r) (head r) (tail r)). decode x \<noteq> None)"

lemma BUF_SIZE_pos [simp]: "0 < BUF_SIZE" "x mod BUF_SIZE < BUF_SIZE"
  by (simp_all add: BUF_SIZE_def)

lemma ring_push_items:
  assumes "kring_ok r" "event_valid ev"
  shows "kring_ok (ring_push r ev)"
    "queued (ring_push r ev) = (if length (queued r) < BUF_SIZE - 1 then queued r @ [ev] else queued r)"
proof -
  let ?h = "head r" and ?t = "tail r" and ?b = "(buf r)[head r := encode ev]"
  have b: "?h < BUF_SIZE" "?t < BUF_SIZE" "length (buf r) = BUF_SIZE" using assms(1) by (simp_all add: kring_ok_def)
  have len: "length (queued r) = ring_len BUF_SIZE ?h ?t" by (simp add: queued_def)
  have "kring_ok (ring_push r ev) \<and>
    queued (ring_push r ev) = (if length (queued r) < BUF_SIZE - 1 then queued r @ [ev] else queued r)"
  proof (cases "(?h + 1) mod BUF_SIZE = ?t")
    case True
    then show ?thesis
      using assms(1) ring_full [OF b(1,2)] len by (simp add: ring_push_def Let_def)
  next
    case False
    have i: "ring_items BUF_SIZE ?b ((?h + 1) mod BUF_SIZE) ?t = ring_items BUF_SIZE (buf r) ?h ?t @ [encode ev]"
      using ring_items_push [OF b(1,2) False, of ?b] ring_items_write_free [OF b(1,2)] b by simp
    have "ring_len BUF_SIZE ?h ?t < BUF_SIZE - 1"
      using ring_full [OF b(1,2)] False ring_len_bounds [OF b(1,2)] by linarith
    then show ?thesis
      using False assms b i len decode_encode [OF assms(2)]
      by (simp add: ring_push_def Let_def kring_ok_def queued_def del: length_ring_items)
  qed
  then show "kring_ok (ring_push r ev)"
    "queued (ring_push r ev) = (if length (queued r) < BUF_SIZE - 1 then queued r @ [ev] else queued r)" by auto
qed

lemma ring_pop_items:
  assumes "kring_ok r"
  shows "kring_ok (snd (ring_pop r))"
    "queued r = [] \<Longrightarrow> ring_pop r = (None, r)"
    "queued r = e # es \<Longrightarrow> fst (ring_pop r) = Some e \<and> queued (snd (ring_pop r)) = es"
proof -
  let ?h = "head r" and ?t = "tail r"
  have b: "?h < BUF_SIZE" "?t < BUF_SIZE" "length (buf r) = BUF_SIZE" using assms by (simp_all add: kring_ok_def)
  have e: "queued r = [] \<longleftrightarrow> ?h = ?t"
    using ring_len_0 [OF b(1,2)] by (simp add: queued_def length_0_conv [symmetric] del: length_0_conv)
  have i: "?h \<noteq> ?t \<Longrightarrow> ring_items BUF_SIZE (buf r) ?h ?t = buf r ! ?t # ring_items BUF_SIZE (buf r) ?h ((?t + 1) mod BUF_SIZE)"
    using ring_items_pop [OF b(1,2)] by blast
  show "kring_ok (snd (ring_pop r))"
    using assms i by (auto simp: ring_pop_def Let_def kring_ok_def)
  show "queued r = [] \<Longrightarrow> ring_pop r = (None, r)" using e by (simp add: ring_pop_def Let_def)
  show "queued r = e # es \<Longrightarrow> fst (ring_pop r) = Some e \<and> queued (snd (ring_pop r)) = es"
  proof -
    assume q: "queued r = e # es"
    then have ne: "?h \<noteq> ?t" using e by auto
    have "decode (buf r ! ?t) \<noteq> None" using assms i [OF ne] by (auto simp: kring_ok_def)
    then show ?thesis using q ne i [OF ne] by (auto simp: ring_pop_def Let_def queued_def)
  qed
qed

lemma ring_clear_items: "kring_ok r \<Longrightarrow> kring_ok (ring_clear r) \<and> queued (ring_clear r) = []"
  by (simp add: kring_ok_def ring_clear_def queued_def ring_items_def ring_len_def)

interpretation keys: bounded_fifo queued kring_ok event_valid ring_push ring_pop "BUF_SIZE - 1"
proof
  fix s :: kring and e :: KeyEvent
  assume "kring_ok s"
  then show "length (queued s) \<le> BUF_SIZE - 1"
    using ring_len_bounds [of "head s" BUF_SIZE "tail s"] by (simp add: kring_ok_def queued_def)
qed (use ring_push_items ring_pop_items in auto)

lemma KEYBUF_ok: "kring_ok KEYBUF" "queued KEYBUF = []"
  by (simp_all add: kring_ok_def queued_def KEYBUF_def ring_items_def ring_len_def)


text \<open>Every event the driver produces survives its encoding, and any sequence of pushes and
  pops on the ring delivers the events of a queue of at most 63 entries, in order; a push on a
  full ring is dropped.\<close>

theorem keyboard_ring_fifo:
  assumes "\<forall>e. FPush e \<in> set ops \<longrightarrow> event_valid e"
  shows "fst (fifo_run ring_push ring_pop ops KEYBUF) = fst (fifo_spec 63 ops [])"
  using keys.run_refines [OF KEYBUF_ok(1) assms] KEYBUF_ok(2) by (simp add: BUF_SIZE_def)

theorem keyboard_ring_fifo_witness:
  "fst (fifo_run ring_push ring_pop [FPush (Char_key 97), FPush (Ctrl 99), FPop, FPop, FPop] KEYBUF)
     = [Char_key 97, Ctrl 99]"
  using keyboard_ring_fifo [of "[FPush (Char_key 97), FPush (Ctrl 99), FPop, FPop, FPop]"] by simp

section \<open>One producer and one consumer, step by step\<close>

text \<open>The loads and stores of \<open>push\<close>, \<open>pop\<close> and \<open>clear\<close> as separate atomic steps; the program
  counters hold what was loaded. \<open>accepted\<close> and \<open>taken\<close> are ghosts: the events published, and
  those removed, marked by whether \<open>pop\<close> returned or \<open>clear\<close> dropped them.\<close>

datatype producer = Push_idle | Push_head KeyEvent nat | Push_tail KeyEvent nat nat | Push_stored KeyEvent nat

datatype consumer = Pop_idle | Pop_tail nat | Pop_head nat | Pop_read nat u32 | Clear_head nat

record spsc =
  ring :: kring
  producer :: producer
  consumer :: consumer
  accepted :: "KeyEvent list"
  taken :: "(bool \<times> KeyEvent) list"

definition spsc_init :: spsc where
  "spsc_init = \<lparr>ring = KEYBUF, producer = Push_idle, consumer = Pop_idle, accepted = [], taken = []\<rparr>"

definition queued_to :: "kring \<Rightarrow> nat \<Rightarrow> KeyEvent list" where
  "queued_to r h = map (the \<circ> decode) (ring_items BUF_SIZE (buf r) h (tail r))"

inductive spsc_step :: "spsc \<Rightarrow> spsc \<Rightarrow> bool" where
  push_begin: "producer s = Push_idle \<Longrightarrow> event_valid e \<Longrightarrow>
     spsc_step s (s\<lparr>producer := Push_head e (head (ring s))\<rparr>)"
| push_load_tail: "producer s = Push_head e h \<Longrightarrow>
     spsc_step s (s\<lparr>producer := Push_tail e h (tail (ring s))\<rparr>)"
| push_full: "producer s = Push_tail e h t \<Longrightarrow> (h + 1) mod BUF_SIZE = t \<Longrightarrow>
     spsc_step s (s\<lparr>producer := Push_idle\<rparr>)"
| push_store: "producer s = Push_tail e h t \<Longrightarrow> (h + 1) mod BUF_SIZE \<noteq> t \<Longrightarrow>
     spsc_step s (s\<lparr>ring := (ring s)\<lparr>buf := (buf (ring s))[h := encode e]\<rparr>,
       producer := Push_stored e ((h + 1) mod BUF_SIZE)\<rparr>)"
| push_publish: "producer s = Push_stored e next \<Longrightarrow>
     spsc_step s (s\<lparr>ring := (ring s)\<lparr>head := next\<rparr>, producer := Push_idle, accepted := accepted s @ [e]\<rparr>)"
| pop_begin: "consumer s = Pop_idle \<Longrightarrow> spsc_step s (s\<lparr>consumer := Pop_tail (tail (ring s))\<rparr>)"
| pop_empty: "consumer s = Pop_tail t \<Longrightarrow> t = head (ring s) \<Longrightarrow> spsc_step s (s\<lparr>consumer := Pop_idle\<rparr>)"
| pop_load_head: "consumer s = Pop_tail t \<Longrightarrow> t \<noteq> head (ring s) \<Longrightarrow> spsc_step s (s\<lparr>consumer := Pop_head t\<rparr>)"
| pop_read: "consumer s = Pop_head t \<Longrightarrow> spsc_step s (s\<lparr>consumer := Pop_read t (buf (ring s) ! t)\<rparr>)"
| pop_advance: "consumer s = Pop_read t val \<Longrightarrow>
     spsc_step s (s\<lparr>ring := (ring s)\<lparr>tail := (t + 1) mod BUF_SIZE\<rparr>, consumer := Pop_idle,
       taken := taken s @ [(True, the (decode val))]\<rparr>)"
| clear_begin: "consumer s = Pop_idle \<Longrightarrow> spsc_step s (s\<lparr>consumer := Clear_head (head (ring s))\<rparr>)"
| clear_store: "consumer s = Clear_head h \<Longrightarrow>
     spsc_step s (s\<lparr>ring := (ring s)\<lparr>tail := h\<rparr>, consumer := Pop_idle,
       taken := taken s @ map (Pair False) (queued_to (ring s) h)\<rparr>)"

definition r_len :: "kring \<Rightarrow> nat \<Rightarrow> nat" where
  "r_len r h = ring_len BUF_SIZE h (tail r)"

fun producer_inv :: "spsc \<Rightarrow> producer \<Rightarrow> bool" where
  "producer_inv s Push_idle = True"
| "producer_inv s (Push_head e h) = (event_valid e \<and> h = head (ring s))"
| "producer_inv s (Push_tail e h t) = (event_valid e \<and> h = head (ring s) \<and> t < BUF_SIZE
     \<and> r_len (ring s) h \<le> ring_len BUF_SIZE h t)"
| "producer_inv s (Push_stored e next) = (event_valid e \<and> next = (head (ring s) + 1) mod BUF_SIZE
     \<and> buf (ring s) ! head (ring s) = encode e \<and> r_len (ring s) (head (ring s)) < BUF_SIZE - 1)"

fun consumer_inv :: "spsc \<Rightarrow> consumer \<Rightarrow> bool" where
  "consumer_inv s Pop_idle = True"
| "consumer_inv s (Pop_tail t) = (t = tail (ring s))"
| "consumer_inv s (Pop_head t) = (t = tail (ring s) \<and> t \<noteq> head (ring s))"
| "consumer_inv s (Pop_read t val) = (t = tail (ring s) \<and> t \<noteq> head (ring s) \<and> val = buf (ring s) ! t)"
| "consumer_inv s (Clear_head h) = (h < BUF_SIZE \<and> r_len (ring s) h \<le> r_len (ring s) (head (ring s)))"

definition spsc_inv :: "spsc \<Rightarrow> bool" where
  "spsc_inv s \<longleftrightarrow> kring_ok (ring s) \<and> accepted s = map snd (taken s) @ queued (ring s)
     \<and> producer_inv s (producer s) \<and> consumer_inv s (consumer s)"


lemma spsc_step_inv:
  assumes "spsc_step s s'" "spsc_inv s"
  shows "spsc_inv s'"
  using assms
proof (induction rule: spsc_step.induct)
  case (push_begin s e)
  then show ?case by (cases "consumer s") (auto simp: spsc_inv_def)
next
  case (push_load_tail s e h)
  then show ?case by (cases "consumer s") (auto simp: spsc_inv_def r_len_def kring_ok_def)
next
  case (push_full s e h t)
  then show ?case by (cases "consumer s") (auto simp: spsc_inv_def)
next
  case (push_store s e h t)
  let ?r = "(ring s)\<lparr>buf := (buf (ring s))[h := encode e]\<rparr>"
  have p: "event_valid e" "h = head (ring s)" "t < BUF_SIZE" "r_len (ring s) h \<le> ring_len BUF_SIZE h t"
    and ok: "kring_ok (ring s)" using push_store.prems push_store.hyps(1) by (auto simp: spsc_inv_def)
  have b: "h < BUF_SIZE" "tail (ring s) < BUF_SIZE" "length (buf (ring s)) = BUF_SIZE"
    using ok p(2) by (auto simp: kring_ok_def)
  have items: "ring_items BUF_SIZE (buf ?r) (head ?r) (tail ?r) = ring_items BUF_SIZE (buf (ring s)) (head (ring s)) (tail (ring s))"
    using ring_items_write_free [OF b(1,2)] p(2) by simp
  have lt: "r_len (ring s) h < BUF_SIZE - 1"
    using ring_full [OF b(1) p(3)] push_store.hyps(2) ring_len_bounds [OF b(1) p(3)] p(4) by linarith
  have "kring_ok ?r" "queued ?r = queued (ring s)"
    using ok items by (simp_all add: kring_ok_def queued_def)
  moreover have "consumer_inv s (consumer s)" using push_store.prems by (simp add: spsc_inv_def)
  then have "consumer_inv (s\<lparr>ring := ?r, producer := Push_stored e ((h + 1) mod BUF_SIZE)\<rparr>) (consumer s)"
    using p(2) by (cases "consumer s") (auto simp: r_len_def)
  ultimately show ?case
    using push_store.prems p b lt by (simp add: spsc_inv_def r_len_def)
next
  case (push_publish s e nx)
  let ?r = "(ring s)\<lparr>head := nx\<rparr>" and ?h = "head (ring s)"
  have p: "event_valid e" "nx = (?h + 1) mod BUF_SIZE" "buf (ring s) ! ?h = encode e" "r_len (ring s) ?h < BUF_SIZE - 1"
    and ok: "kring_ok (ring s)" using push_publish.prems push_publish.hyps(1) by (auto simp: spsc_inv_def)
  have b: "?h < BUF_SIZE" "tail (ring s) < BUF_SIZE" using ok by (auto simp: kring_ok_def)
  have ne: "(?h + 1) mod BUF_SIZE \<noteq> tail (ring s)" using ring_full [OF b] p(4) by (auto simp: r_len_def)
  have "ring_items BUF_SIZE (buf ?r) nx (tail ?r) = ring_items BUF_SIZE (buf (ring s)) ?h (tail (ring s)) @ [encode e]"
    unfolding p(2) using ring_items_push [OF b ne, of "buf (ring s)"] by (simp add: p(3) del: One_nat_def add_0_right)
  then have "kring_ok ?r" "queued ?r = queued (ring s) @ [e]"
    using ok p decode_encode [OF p(1)] by (simp_all add: kring_ok_def queued_def)
  moreover have "consumer_inv s (consumer s)" using push_publish.prems by (simp add: spsc_inv_def)
  then have "consumer_inv (s\<lparr>ring := ?r, producer := Push_idle, accepted := accepted s @ [e]\<rparr>) (consumer s)"
    using ne p(2) ring_len_push [OF b ne] by (cases "consumer s") (auto simp: r_len_def)
  ultimately show ?case using push_publish.prems by (simp add: spsc_inv_def)
next
  case (pop_begin s)
  then show ?case by (cases "producer s") (auto simp: spsc_inv_def)
next
  case (pop_empty s t)
  then show ?case by (cases "producer s") (auto simp: spsc_inv_def)
next
  case (pop_load_head s t)
  then show ?case by (cases "producer s") (auto simp: spsc_inv_def)
next
  case (pop_read s t)
  then show ?case by (cases "producer s") (auto simp: spsc_inv_def)
next
  case (pop_advance s t val)
  let ?r = "(ring s)\<lparr>tail := (t + 1) mod BUF_SIZE\<rparr>"
  have c: "t = tail (ring s)" "t \<noteq> head (ring s)" "val = buf (ring s) ! t"
    and ok: "kring_ok (ring s)" using pop_advance.prems pop_advance.hyps by (auto simp: spsc_inv_def)
  have b: "head (ring s) < BUF_SIZE" "t < BUF_SIZE" using ok c by (auto simp: kring_ok_def)
  have ne: "head (ring s) \<noteq> t" using c(2) by simp
  have i: "ring_items BUF_SIZE (buf (ring s)) (head (ring s)) (tail (ring s)) = val # ring_items BUF_SIZE (buf ?r) (head ?r) (tail ?r)"
    using ring_items_pop [OF b ne] c by simp
  then have "kring_ok ?r" "queued (ring s) = the (decode val) # queued ?r"
    using ok by (simp_all add: kring_ok_def queued_def)
  moreover have "producer_inv s (producer s)" using pop_advance.prems by (simp add: spsc_inv_def)
  then have "producer_inv (s\<lparr>ring := ?r, consumer := Pop_idle, taken := taken s @ [(True, the (decode val))]\<rparr>) (producer s)"
    using ring_len_pop [OF b ne] c(1) by (cases "producer s") (auto simp: r_len_def)
  ultimately show ?case using pop_advance.prems by (simp add: spsc_inv_def)
next
  case (clear_begin s)
  then show ?case by (cases "producer s") (auto simp: spsc_inv_def r_len_def kring_ok_def)
next
  case (clear_store s h)
  let ?r = "(ring s)\<lparr>tail := h\<rparr>" and ?h = "head (ring s)" and ?t = "tail (ring s)"
  have c: "h < BUF_SIZE" "ring_len BUF_SIZE h ?t \<le> ring_len BUF_SIZE ?h ?t"
    and ok: "kring_ok (ring s)" using clear_store.prems clear_store.hyps by (auto simp: spsc_inv_def r_len_def)
  have b: "?h < BUF_SIZE" "?t < BUF_SIZE" using ok by (auto simp: kring_ok_def)
  note l = ring_len_split [OF b c]
  note i = ring_items_split [OF b c, of "buf (ring s)"]
  have "kring_ok ?r" "queued (ring s) = queued_to (ring s) h @ queued ?r"
    using ok c(1) i by (simp_all add: kring_ok_def queued_def queued_to_def)
  moreover have "producer_inv s (producer s)" using clear_store.prems by (simp add: spsc_inv_def)
  then have "producer_inv (s\<lparr>ring := ?r, consumer := Pop_idle, taken := taken s @ map (Pair False) (queued_to (ring s) h)\<rparr>) (producer s)"
    using l by (cases "producer s") (auto simp: r_len_def)
  ultimately show ?case using clear_store.prems by (simp add: spsc_inv_def comp_def)
qed

lemma spsc_reachable_inv: "spsc_step\<^sup>*\<^sup>* spsc_init s \<Longrightarrow> spsc_inv s"
proof (induction rule: rtranclp_induct)
  case base
  then show ?case by (simp add: spsc_init_def spsc_inv_def KEYBUF_ok)
next
  case (step y z)
  then show ?case using spsc_step_inv by blast
qed

text \<open>C16. Whatever way the single loads and stores of the interrupt handler's \<open>push\<close> and the
  shell's \<open>pop\<close> and \<open>clear\<close> interleave, the events taken out followed by the events waiting are
  exactly the events accepted, in order: none is lost, duplicated, reordered or read half
  written, and at most 63 wait.\<close>

theorem keyboard_ring_lock_free:
  assumes "spsc_step\<^sup>*\<^sup>* spsc_init s"
  shows "accepted s = map snd (taken s) @ queued (ring s) \<and> length (queued (ring s)) \<le> 63
    \<and> (\<forall>t val. consumer s = Pop_read t val \<longrightarrow> decode val = Some (hd (queued (ring s))))"
proof -
  have inv: "spsc_inv s" using assms by (rule spsc_reachable_inv)
  then have ok: "kring_ok (ring s)" by (simp add: spsc_inv_def)
  have "decode val = Some (hd (queued (ring s)))" if "consumer s = Pop_read t val" for t val
  proof -
    have c: "t = tail (ring s)" "head (ring s) \<noteq> t" "val = buf (ring s) ! t"
      using inv that by (auto simp: spsc_inv_def)
    have "ring_items BUF_SIZE (buf (ring s)) (head (ring s)) (tail (ring s))
        = val # ring_items BUF_SIZE (buf (ring s)) (head (ring s)) ((t + 1) mod BUF_SIZE)"
      using ring_items_pop [of "head (ring s)" BUF_SIZE t "buf (ring s)"] ok c by (simp add: kring_ok_def)
    then show ?thesis using ok by (auto simp: kring_ok_def queued_def)
  qed
  then show ?thesis
    using inv keys.items_limit [OF ok] by (simp add: spsc_inv_def BUF_SIZE_def)
qed

theorem keyboard_ring_lock_free_witness:
  "\<exists>s. spsc_step\<^sup>*\<^sup>* spsc_init s \<and> producer s = Push_head Enter 0 \<and> accepted s = map snd (taken s) @ queued (ring s)"
proof -
  have "spsc_step spsc_init (spsc_init\<lparr>producer := Push_head Enter (head (ring spsc_init))\<rparr>)"
    by (rule spsc_step.push_begin) (simp_all add: spsc_init_def)
  then have r: "spsc_step\<^sup>*\<^sup>* spsc_init (spsc_init\<lparr>producer := Push_head Enter 0\<rparr>)"
    by (simp add: spsc_init_def KEYBUF_def r_into_rtranclp)
  from r keyboard_ring_lock_free [OF r] show ?thesis
    by (intro exI [of _ "spsc_init\<lparr>producer := Push_head Enter 0\<rparr>"]) (simp add: spsc_init_def)
qed

section \<open>The interrupt handler\<close>

lemma kbd_events_valid: "fst (translate k sc) = Some ev \<Longrightarrow> event_valid ev"
  "translate_extended sc = Some ev \<Longrightarrow> event_valid ev"
proof -
  have "(ucast (c :: u8) :: u32) < 256" for c
    using unsigned_less [of c, where 'a = nat] by (simp add: word_less_nat_alt unsigned_ucast_eq take_bit_nat_eq_self)
  then show "fst (translate k sc) = Some ev \<Longrightarrow> event_valid ev"
    by (auto simp: translate_def split: if_splits option.splits)
  show "translate_extended sc = Some ev \<Longrightarrow> event_valid ev"
    by (auto simp: translate_extended_def split: if_splits)
qed

end
