(* ===== verification/Shell.thy ===== *)
theory Shell
  imports RamFs Calc Keyboard
begin

text \<open>
  The command shell of \<^verbatim>\<open>src/shell/mod.rs\<close>: line history, the line editor as a
  function of the key and serial events, argument parsing, the dispatch of a line to a command,
  and the commands on RAM files as state transformers that return what they print. Text is ASCII.
\<close>

section \<open>History\<close>

definition MAX_HISTORY :: nat where "MAX_HISTORY = 16"

record history =
  items :: "string list"
  index :: int

definition history_new :: history where
  "history_new = \<lparr>items = [], index = -1\<rparr>"

definition history_push :: "history \<Rightarrow> string \<Rightarrow> history" where
  "history_push h cmd =
     (if cmd = [] then h\<lparr>index := -1\<rparr>
      else if items h \<noteq> [] \<and> last (items h) = cmd then h\<lparr>index := -1\<rparr>
      else let is = items h @ [cmd]
           in \<lparr>items = (if length is > MAX_HISTORY then drop 1 is else is), index = -1\<rparr>)"

definition history_prev :: "history \<Rightarrow> string option \<times> history" where
  "history_prev h =
     (let len = length (items h) in
      if len = 0 then (None, h)
      else let i = (if index h < 0 then int (len - 1) else if index h > 0 then index h - 1 else index h)
           in (Some (items h ! nat i), h\<lparr>index := i\<rparr>))"

definition history_next :: "history \<Rightarrow> string option \<times> history" where
  "history_next h =
     (let len = length (items h) in
      if len = 0 \<or> index h < 0 then (None, h)
      else if nat (index h) \<ge> len - 1 then (None, h\<lparr>index := -1\<rparr>)
      else (Some (items h ! nat (index h + 1)), h\<lparr>index := index h + 1\<rparr>))"

section \<open>The line editor\<close>

definition LINE_BUF :: nat where "LINE_BUF = 256"

definition byte_char :: "u8 \<Rightarrow> char" where
  "byte_char c = char_of (unat c)"

definition type_char :: "string \<Rightarrow> u8 \<Rightarrow> string" where
  "type_char line c = (if length line < LINE_BUF then line @ [byte_char c] else line)"

definition load_line :: "string \<Rightarrow> string" where
  "load_line s = take LINE_BUF s"

datatype line_end = Editing | Entered | Cancelled

fun key_event :: "history \<Rightarrow> string \<Rightarrow> KeyEvent \<Rightarrow> history \<times> string \<times> line_end" where
  "key_event h line (Char_key c) = (h, type_char line c, Editing)"
| "key_event h line Backspace = (h, butlast line, Editing)"
| "key_event h line Enter = (h, line, Entered)"
| "key_event h line Up =
     (case history_prev h of (Some cmd, h') \<Rightarrow> (h', load_line cmd, Editing) | (None, h') \<Rightarrow> (h', line, Editing))"
| "key_event h line Down =
     (case history_next h of (Some cmd, h') \<Rightarrow> (h', load_line cmd, Editing) | (None, h') \<Rightarrow> (h', [], Editing))"
| "key_event h line (Ctrl c) = (if c = 99 then (h, [], Cancelled) else (h, line, Editing))"
| "key_event h line _ = (h, line, Editing)"

definition serial_event :: "string \<Rightarrow> u8 \<Rightarrow> string \<times> line_end" where
  "serial_event line b =
     (if b = 13 \<or> b = 10 then (line, Entered)
      else if b = 0x7F \<or> b = 0x08 then (butlast line, Editing)
      else if b = 0x03 then ([], Cancelled)
      else if 0x20 \<le> b \<and> b \<le> 0x7E then (type_char line b, Editing)
      else (line, Editing))"

definition is_control :: "char \<Rightarrow> bool" where
  "is_control c \<longleftrightarrow> (of_char c :: nat) < 32 \<or> (of_char c :: nat) = 127"

text \<open>What happens to a finished line: nothing, a dispatch, or the message for bad input.\<close>

datatype submitted = Ignored | Run_line string | Invalid_input

definition submit :: "history \<Rightarrow> string \<Rightarrow> history \<times> submitted" where
  "submit h line =
     (let trimmed = trim line in
      if trimmed = [] then (h, Ignored)
      else if list_all (\<lambda>c. c \<noteq> CHR 0x00 \<and> (\<not> is_control c \<or> c = CHR 0x0A \<or> c = CHR 0x09)) trimmed
      then (history_push h trimmed, Run_line trimmed)
      else (h, Invalid_input))"

section \<open>Parsing\<close>

function split_whitespace :: "string \<Rightarrow> string list" where
  "split_whitespace s =
     (let s = dropWhile is_space s in
      if s = [] then []
      else takeWhile (\<lambda>c. \<not> is_space c) s # split_whitespace (dropWhile (\<lambda>c. \<not> is_space c) s))"
  by pat_completeness auto
termination
proof (relation "measure length")
  fix s x :: string
  assume x: "x = dropWhile is_space s" "x \<noteq> []"
  then obtain c cs where c: "x = c # cs" by (meson neq_Nil_conv)
  then have "\<not> is_space c" using x by (metis hd_dropWhile list.sel(1))
  then have "dropWhile (\<lambda>c. \<not> is_space c) x = dropWhile (\<lambda>c. \<not> is_space c) cs" using c by simp
  then show "(dropWhile (\<lambda>c. \<not> is_space c) x, s) \<in> measure length"
    using c x(1) length_dropWhile_le [of "\<lambda>c. \<not> is_space c" cs] length_dropWhile_le [of is_space s] by simp
qed simp

declare split_whitespace.simps [simp del]

definition is_valid_filename :: "string \<Rightarrow> bool" where
  "is_valid_filename name \<longleftrightarrow> name \<noteq> [] \<and> CHR ''/'' \<notin> set name \<and> CHR 0x5C \<notin> set name
     \<and> CHR 0x00 \<notin> set name \<and> length name \<le> 255"

definition quoted :: "string \<Rightarrow> bool" where
  "quoted s \<longleftrightarrow> length s \<ge> 2 \<and> hd s = CHR 0x22 \<and> last s = CHR 0x22"

definition parse_write_args :: "string \<Rightarrow> (string \<times> string) option" where
  "parse_write_args s =
     (let s = trim s in
      if s = [] \<or> (\<forall>c \<in> set s. \<not> is_space c) then None
      else
        let path = trim (takeWhile (\<lambda>c. \<not> is_space c) s) in
        if \<not> is_valid_filename path then None
        else
          let rest = trim (dropWhile (\<lambda>c. \<not> is_space c) s) in
          if rest = [] then None
          else Some (path, if quoted rest then butlast (tl rest) else rest))"

definition strip_prefix :: "string \<Rightarrow> string \<Rightarrow> string option" where
  "strip_prefix p s = (if take (length p) s = p then Some (drop (length p) s) else None)"

text \<open>\<open>u8::from_str\<close> and its wider cousins: an optional plus sign and digits, in range.\<close>

definition parse_unsigned :: "nat \<Rightarrow> string \<Rightarrow> nat option" where
  "parse_unsigned limit s =
     (let ds = (if s \<noteq> [] \<and> hd s = CHR ''+'' then tl s else s) in
      if ds = [] \<or> \<not> list_all is_dig ds \<or> parse_digits ds 0 > int limit then None
      else Some (nat (parse_digits ds 0)))"

fun split_on :: "char \<Rightarrow> string \<Rightarrow> string list" where
  "split_on c [] = [[]]"
| "split_on c (x # xs) =
     (case split_on c xs of (w # ws) \<Rightarrow> if x = c then [] # w # ws else (x # w) # ws | [] \<Rightarrow> [[x]])"

definition parse_ip :: "string \<Rightarrow> nat list option" where
  "parse_ip s =
     (let parts = split_on CHR ''.'' s in
      if length parts \<noteq> 4 then None
      else let ns = map (parse_unsigned 255) parts in
        if None \<in> set ns then None else Some (map the ns))"

fun hex_digit :: "char \<Rightarrow> nat option" where
  "hex_digit c =
     (let n = of_char c in
      if 48 \<le> n \<and> n \<le> 57 then Some (n - 48)
      else if 65 \<le> n \<and> n \<le> 70 then Some (n - 55)
      else if 97 \<le> n \<and> n \<le> 102 then Some (n - 87)
      else None)"

definition parse_hex :: "string \<Rightarrow> nat option" where
  "parse_hex s =
     (let s = (case strip_prefix ''0x'' s of Some t \<Rightarrow> t | None \<Rightarrow> s);
          ds = (if s \<noteq> [] \<and> hd s = CHR ''+'' then tl s else s);
          vs = map hex_digit ds;
          n = fold (\<lambda>v n. 16 * n + the v) vs 0 in
      if ds = [] \<or> None \<in> set vs \<or> n \<ge> 2 ^ 32 then None else Some n)"

section \<open>File commands\<close>

text \<open>Each returns the file system and the line it prints; the format arguments of the source are
  the arguments of the output constructors.\<close>

datatype shell_output = Said string | Created string | Wrote nat string | Removed string
  | Shown "u8 list" | Copied string string nat | Moved string string | Fs_failed string FsError
  | Files "(string \<times> nat) list"

definition bytes_of :: "string \<Rightarrow> u8 list" where
  "bytes_of s = map (\<lambda>c. word_of_nat (of_char c)) s"

definition cmd_ls :: "ramfs \<Rightarrow> ramfs \<times> shell_output" where
  "cmd_ls fs = (fs, Files (ramfs_list fs))"

definition cmd_touch :: "ramfs \<Rightarrow> string \<Rightarrow> ramfs \<times> shell_output" where
  "cmd_touch fs path =
     (if \<not> is_valid_filename path then (fs, Said (''touch: invalid filename (max 255 chars, no / '' @ [CHR 0x5C] @ '' or null bytes)''))
      else case ramfs_create fs path of
          Inr fs' \<Rightarrow> (fs', Created path)
        | Inl e \<Rightarrow> (fs, Fs_failed ''touch'' e))"

definition cmd_write :: "ramfs \<Rightarrow> string \<Rightarrow> ramfs \<times> shell_output" where
  "cmd_write fs line =
     (let rest = trim (case strip_prefix ''write'' line of Some r \<Rightarrow> r | None \<Rightarrow> []) in
      case parse_write_args rest of
        None \<Rightarrow> (fs, Said (''usage: write <file> '' @ [CHR 0x22] @ ''content'' @ [CHR 0x22] @ '' (filename must be valid)''))
      | Some (path, content) \<Rightarrow>
          (case ramfs_write fs path (bytes_of content) of
             Inr fs' \<Rightarrow> (fs', Wrote (length content) path)
           | Inl e \<Rightarrow> (fs, Fs_failed ''write'' e)))"

definition cmd_cat :: "ramfs \<Rightarrow> string \<Rightarrow> ramfs \<times> shell_output" where
  "cmd_cat fs path =
     (if \<not> is_valid_filename path then (fs, Said ''cat: invalid filename'')
      else case ramfs_read fs path of
          Inr data \<Rightarrow> (fs, Shown data)
        | Inl e \<Rightarrow> (fs, Fs_failed ''cat'' e))"

definition cmd_rm :: "ramfs \<Rightarrow> string \<Rightarrow> ramfs \<times> shell_output" where
  "cmd_rm fs path =
     (if \<not> is_valid_filename path then (fs, Said ''rm: invalid filename'')
      else case ramfs_delete fs path of
          Inr fs' \<Rightarrow> (fs', Removed path)
        | Inl e \<Rightarrow> (fs, Fs_failed ''rm'' e))"

definition cmd_cp :: "ramfs \<Rightarrow> string \<Rightarrow> string \<Rightarrow> ramfs \<times> shell_output" where
  "cmd_cp fs src dst =
     (if \<not> is_valid_filename src \<or> \<not> is_valid_filename dst then (fs, Said ''cp: invalid filename'')
      else case ramfs_read fs src of
          Inl e \<Rightarrow> (fs, Fs_failed ''cp'' e)
        | Inr data \<Rightarrow> (case ramfs_write fs dst data of
              Inl e \<Rightarrow> (fs, Fs_failed ''cp'' e)
            | Inr fs' \<Rightarrow> (fs', Copied src dst (length data))))"

definition cmd_mv :: "ramfs \<Rightarrow> string \<Rightarrow> string \<Rightarrow> ramfs \<times> shell_output" where
  "cmd_mv fs src dst =
     (if \<not> is_valid_filename src \<or> \<not> is_valid_filename dst then (fs, Said ''mv: invalid filename'')
      else case ramfs_read fs src of
          Inl e \<Rightarrow> (fs, Fs_failed ''mv'' e)
        | Inr data \<Rightarrow> (case ramfs_write fs dst data of
              Inl e \<Rightarrow> (fs, Fs_failed ''mv'' e)
            | Inr fs' \<Rightarrow> (case ramfs_delete fs' src of
                  Inl e \<Rightarrow> (fs', Fs_failed ''mv: failed to delete source'' e)
                | Inr fs'' \<Rightarrow> (fs'', Moved src dst))))"


section \<open>Dispatch\<close>

datatype command = Cmd_help | Cmd_ls | Cmd_touch string | Cmd_write string | Cmd_cat string | Cmd_rm string
  | Cmd_cp string string | Cmd_mv string string | Cmd_mem bool | Cmd_free | Cmd_lspci | Cmd_ifconfig
  | Cmd_cpuinfo | Cmd_netinfo | Cmd_calc string | Cmd_arpwhois | Cmd_looptest | Cmd_netdiag | Cmd_panic
  | Cmd_spawn string | Cmd_ps | Cmd_shutdown | Cmd_clear | Cmd_edit string
  | Cmd_hexdump "string option" "string option" | Cmd_uptime | Cmd_dhcp | Cmd_env | Cmd_ping string
  | Cmd_tcplisten string | Cmd_tcpconnect string string | Cmd_tcpsend string string | Cmd_tcprecv string
  | Cmd_tcpclose string | Cmd_tcpstat | Cmd_ext3ls string | Cmd_ext3cat string | Cmd_ext3info | Cmd_fb
  | Cmd_httpget string string string | Usage string | Unknown string

definition arg1 :: "(string \<Rightarrow> command) \<Rightarrow> string \<Rightarrow> string list \<Rightarrow> command" where
  "arg1 c usage parts = (case parts of a # _ \<Rightarrow> c a | [] \<Rightarrow> Usage usage)"

definition arg2 :: "(string \<Rightarrow> string \<Rightarrow> command) \<Rightarrow> string \<Rightarrow> string list \<Rightarrow> command" where
  "arg2 c usage parts = (case parts of a # b # _ \<Rightarrow> c a b | _ \<Rightarrow> Usage usage)"

definition nth_opt :: "'a list \<Rightarrow> nat \<Rightarrow> 'a option" where
  "nth_opt xs i = (if i < length xs then Some (xs ! i) else None)"

definition or_default :: "'a option \<Rightarrow> 'a \<Rightarrow> 'a" where
  "or_default x d = (case x of Some a \<Rightarrow> a | None \<Rightarrow> d)"

text \<open>\<open>line\<close> is trimmed; \<open>parts\<close> are the words after the command.\<close>

definition dispatch_word :: "string \<Rightarrow> string \<Rightarrow> string list \<Rightarrow> command" where
  "dispatch_word line cmd parts =
     (if cmd = ''help'' then Cmd_help
      else if cmd = ''ls'' then Cmd_ls
      else if cmd = ''touch'' then arg1 Cmd_touch ''usage: touch <file>'' parts
      else if cmd = ''write'' then Cmd_write line
      else if cmd = ''cat'' then arg1 Cmd_cat ''usage: cat <file>'' parts
      else if cmd = ''rm'' then arg1 Cmd_rm ''usage: rm <file>'' parts
      else if cmd = ''cp'' then arg2 Cmd_cp ''usage: cp <source> <dest>'' parts
      else if cmd = ''mv'' then arg2 Cmd_mv ''usage: mv <source> <dest>'' parts
      else if cmd = ''mem'' then Cmd_mem (nth_opt parts 0 = Some ''-v'')
      else if cmd = ''free'' then Cmd_free
      else if cmd = ''lspci'' then Cmd_lspci
      else if cmd = ''ifconfig'' then Cmd_ifconfig
      else if cmd = ''cpuinfo'' then Cmd_cpuinfo
      else if cmd = ''netinfo'' then Cmd_netinfo
      else if cmd = ''calc'' then
        (let e = trim (drop 4 line) in if e \<noteq> [] then Cmd_calc e else Usage ''usage: calc <expr>'')
      else if cmd = ''arpwhois'' then Cmd_arpwhois
      else if cmd = ''looptest'' then Cmd_looptest
      else if cmd = ''netdiag'' then Cmd_netdiag
      else if cmd = ''panic'' then Cmd_panic
      else if cmd = ''spawn'' then arg1 Cmd_spawn ''usage: spawn <name>'' parts
      else if cmd = ''ps'' then Cmd_ps
      else if cmd = ''shutdown'' then Cmd_shutdown
      else if cmd = ''clear'' then Cmd_clear
      else if cmd = ''edit'' then arg1 Cmd_edit ''usage: edit <file>'' parts
      else if cmd = ''hexdump'' then Cmd_hexdump (nth_opt parts 0) (nth_opt parts 1)
      else if cmd = ''uptime'' then Cmd_uptime
      else if cmd = ''dhcp'' then Cmd_dhcp
      else if cmd = ''env'' then Cmd_env
      else if cmd = ''ping'' then arg1 Cmd_ping ''usage: ping <ip>'' parts
      else if cmd = ''tcplisten'' then arg1 Cmd_tcplisten ''usage: tcplisten <port>'' parts
      else if cmd = ''tcpconnect'' then arg2 Cmd_tcpconnect ''usage: tcpconnect <ip> <port>'' parts
      else if cmd = ''tcpsend'' then
        arg1 (\<lambda>idx. Cmd_tcpsend idx (or_default (nth_opt (split_whitespace line) 2) [])) ''usage: tcpsend <idx> <data>'' parts
      else if cmd = ''tcprecv'' then arg1 Cmd_tcprecv ''usage: tcprecv <idx>'' parts
      else if cmd = ''tcpclose'' then arg1 Cmd_tcpclose ''usage: tcpclose <idx>'' parts
      else if cmd = ''tcpstat'' then Cmd_tcpstat
      else if cmd = ''ext3ls'' then Cmd_ext3ls (or_default (nth_opt parts 0) ''/'')
      else if cmd = ''ext3cat'' then arg1 Cmd_ext3cat ''usage: ext3cat <path>'' parts
      else if cmd = ''ext3info'' then Cmd_ext3info
      else if cmd = ''fb'' then Cmd_fb
      else if cmd = ''httpget'' then
        arg2 (\<lambda>ip port. Cmd_httpget ip port (or_default (nth_opt parts 2) ''/'')) ''usage: httpget <ip> <port> [path]'' parts
      else Unknown cmd)"

definition dispatch :: "string \<Rightarrow> command option" where
  "dispatch line =
     (let line = trim line in
      case split_whitespace line of
        [] \<Rightarrow> None
      | cmd # parts \<Rightarrow> Some (dispatch_word line cmd parts))"

text \<open>The commands on RAM files, by the line that calls them.\<close>

definition run_file_command :: "ramfs \<Rightarrow> string \<Rightarrow> (ramfs \<times> shell_output) option" where
  "run_file_command fs line =
     (case dispatch line of
        Some Cmd_ls \<Rightarrow> Some (cmd_ls fs)
      | Some (Cmd_touch p) \<Rightarrow> Some (cmd_touch fs p)
      | Some (Cmd_write l) \<Rightarrow> Some (cmd_write fs l)
      | Some (Cmd_cat p) \<Rightarrow> Some (cmd_cat fs p)
      | Some (Cmd_rm p) \<Rightarrow> Some (cmd_rm fs p)
      | Some (Cmd_cp a b) \<Rightarrow> Some (cmd_cp fs a b)
      | Some (Cmd_mv a b) \<Rightarrow> Some (cmd_mv fs a b)
      | _ \<Rightarrow> None)"

section \<open>Words and trimming\<close>

definition word_ok :: "string \<Rightarrow> bool" where
  "word_ok w \<longleftrightarrow> w \<noteq> [] \<and> list_all (\<lambda>c. \<not> is_space c) w"

lemma trim_id: "s \<noteq> [] \<Longrightarrow> \<not> is_space (hd s) \<Longrightarrow> \<not> is_space (last s) \<Longrightarrow> trim s = s"
proof -
  assume a: "s \<noteq> []" "\<not> is_space (hd s)" "\<not> is_space (last s)"
  have "dropWhile is_space s = s" using a by (cases s) auto
  moreover have "dropWhile is_space (rev s) = rev s" using a by (cases s rule: rev_cases) auto
  ultimately show ?thesis by (simp add: trim_def)
qed

lemma trim_space: "is_space c \<Longrightarrow> trim (c # s) = trim s"
  by (simp add: trim_def)

lemma trim_word: "word_ok w \<Longrightarrow> trim w = w"
  by (intro trim_id) (auto simp: word_ok_def list_all_iff)

lemma take_drop_word:
  assumes "word_ok w" "is_space c"
  shows "takeWhile (\<lambda>c. \<not> is_space c) (w @ c # s) = w" "dropWhile (\<lambda>c. \<not> is_space c) (w @ c # s) = c # s"
  using assms by (simp_all add: word_ok_def list_all_iff takeWhile_append dropWhile_append)

lemma split_word_rest:
  assumes "word_ok w" "is_space c"
  shows "split_whitespace (w @ c # s) = w # split_whitespace s"
proof -
  have d: "dropWhile is_space (w @ c # s) = w @ c # s" using assms by (cases w) (auto simp: word_ok_def)
  have "split_whitespace (c # s) = split_whitespace s"
    using assms(2) by (simp add: split_whitespace.simps [of "c # s"] split_whitespace.simps [of s])
  then show ?thesis
    using assms d take_drop_word [OF assms, of s] by (simp add: split_whitespace.simps [of "w @ c # s"] Let_def)
qed

lemma split_one_word: "word_ok w \<Longrightarrow> split_whitespace w = [w]"
proof -
  assume w: "word_ok w"
  have "dropWhile is_space w = w" using w by (cases w) (auto simp: word_ok_def)
  moreover have "takeWhile (\<lambda>c. \<not> is_space c) w = w" using w by (simp add: word_ok_def list_all_iff)
  ultimately have "split_whitespace w = w # split_whitespace (dropWhile (\<lambda>c. \<not> is_space c) w)"
    using w by (subst split_whitespace.simps) (simp add: word_ok_def Let_def)
  also have "dropWhile (\<lambda>c. \<not> is_space c) w = []" using w by (simp add: word_ok_def list_all_iff)
  finally show ?thesis by (simp add: split_whitespace.simps [of "[]"])
qed

lemma file_key_word:
  assumes "word_ok f" "is_valid_filename f"
  shows "normalize f = Inr f" "file_key f = Some f"
  using trim_word [OF assms(1)] assms by (auto simp: normalize_def file_key_def is_valid_filename_def Let_def)


section \<open>Files through the shell\<close>

lemma ramfs_impl_simps [simp]:
  "fs_read ramfs_impl = ramfs_read" "fs_write ramfs_impl = ramfs_write" "fs_create ramfs_impl = ramfs_create"
  "fs_delete ramfs_impl = ramfs_delete" "fs_list ramfs_impl = ramfs_list"
  by (simp_all add: ramfs_impl_def)

lemma parse_write_quoted:
  assumes "word_ok f" "is_valid_filename f"
  shows "parse_write_args (f @ [CHR 0x20, CHR 0x22] @ body @ [CHR 0x22]) = Some (f, body)"
proof -
  let ?s = "f @ [CHR 0x20, CHR 0x22] @ body @ [CHR 0x22]" and ?q = "CHR 0x22 # body @ [CHR 0x22]"
  have sp: "is_space CHR 0x20" "\<not> is_space CHR 0x22" by (simp_all add: is_space_def)
  have "trim ?s = ?s" using assms(1) sp by (intro trim_id) (auto simp: word_ok_def list_all_iff hd_append)
  moreover have "takeWhile (\<lambda>c. \<not> is_space c) ?s = f" "dropWhile (\<lambda>c. \<not> is_space c) ?s = CHR 0x20 # ?q"
    using take_drop_word [OF assms(1) sp(1), of ?q] by simp_all
  moreover have "trim (CHR 0x20 # ?q) = ?q"
  proof -
    have "trim ?q = ?q" using sp(2) by (intro trim_id) simp_all
    then show ?thesis using trim_space [OF sp(1), of ?q] by simp
  qed
  moreover have "quoted ?q" by (simp add: quoted_def)
  ultimately show ?thesis
    using sp(1) assms(2) trim_word [OF assms(1)] by (simp add: parse_write_args_def Let_def)
qed

lemma dispatch_words:
  assumes "word_ok cmd" "s \<noteq> []" "\<not> is_space (last s)"
  shows "dispatch (cmd @ CHR 0x20 # s) = Some (dispatch_word (cmd @ CHR 0x20 # s) cmd (split_whitespace s))"
proof -
  have sp: "is_space CHR 0x20" by (simp add: is_space_def)
  have "trim (cmd @ CHR 0x20 # s) = cmd @ CHR 0x20 # s"
    using assms by (intro trim_id) (auto simp: word_ok_def list_all_iff hd_append)
  then show ?thesis using split_word_rest [OF assms(1) sp] by (simp add: dispatch_def Let_def)
qed

lemma dispatch_word_known:
  "dispatch_word line ''write'' parts = Cmd_write line" "dispatch_word line ''cat'' (f # parts) = Cmd_cat f"
  by (simp_all add: dispatch_word_def arg1_def)

text \<open>The line \<open>write f "text"\<close>, whatever the text, stores exactly its bytes in the file, and
  \<open>cat f\<close> then shows them; every other file is untouched.\<close>

theorem shell_write_cat_roundtrip:
  assumes "ramfs_ok fs" "word_ok f" "is_valid_filename f"
  shows "\<exists>fs'. run_file_command fs (''write '' @ f @ [CHR 0x20, CHR 0x22] @ body @ [CHR 0x22])
        = Some (fs', Wrote (length body) f)
     \<and> run_file_command fs' (''cat '' @ f) = Some (fs', Shown (bytes_of body))
     \<and> (\<forall>k. k \<noteq> f \<longrightarrow> ramfs_contents fs' k = ramfs_contents fs k)"
proof -
  let ?args = "f @ [CHR 0x20, CHR 0x22] @ body @ [CHR 0x22]"
  let ?line = "''write'' @ CHR 0x20 # ?args"
  have w: "word_ok ''write''" "word_ok ''cat''" by (simp_all add: word_ok_def is_space_def)
  have q: "\<not> is_space CHR 0x22" by (simp add: is_space_def)
  have "dispatch ?line = Some (Cmd_write ?line)"
    using dispatch_words [OF w(1), of ?args] q by (simp add: dispatch_word_known)
  moreover obtain fs' where fs': "ramfs_write fs f (bytes_of body) = Inr fs'"
    "ramfs_contents fs' = (ramfs_contents fs)(f \<mapsto> bytes_of body)" "ramfs_read fs' f = Inr (bytes_of body)"
    using ram.read_after_write [OF assms(1), of f f "bytes_of body"] file_key_word [OF assms(2,3)] by auto
  moreover have "trim (CHR 0x20 # ?args) = ?args"
  proof -
    have "trim ?args = ?args" using assms(2) q by (intro trim_id) (auto simp: word_ok_def list_all_iff hd_append)
    then show ?thesis using trim_space [of "CHR 0x20" ?args] by (simp add: is_space_def)
  qed
  ultimately have 1: "run_file_command fs ?line = Some (fs', Wrote (length body) f)"
    using parse_write_quoted [OF assms(2,3), of body]
    by (simp add: run_file_command_def cmd_write_def strip_prefix_def)
  have "\<not> is_space (last f)" "f \<noteq> []" using assms(2) by (auto simp: word_ok_def list_all_iff)
  then have "dispatch (''cat'' @ CHR 0x20 # f) = Some (Cmd_cat f)"
    using dispatch_words [OF w(2)] split_one_word [OF assms(2)] by (simp add: dispatch_word_known)
  then have "run_file_command fs' (''cat '' @ f) = Some (fs', Shown (bytes_of body))"
    using fs'(3) assms(3) by (simp add: run_file_command_def cmd_cat_def)
  then show ?thesis using 1 fs'(2) by auto
qed

theorem shell_write_cat_roundtrip_witness:
  "\<exists>fs'. run_file_command fs' ''cat notes'' = Some (fs', Shown (bytes_of ''a b''))"
proof -
  have "word_ok ''notes''" "is_valid_filename ''notes''"
    by (simp_all add: word_ok_def is_space_def is_valid_filename_def)
  from shell_write_cat_roundtrip [OF ramfs_new_ok(1) this, of "''a b''"] show ?thesis by auto
qed

text \<open>\<open>mv\<close> between two names moves the content and touches nothing else; \<open>mv f f\<close> reports
  success and deletes the file.\<close>

theorem shell_mv:
  assumes "ramfs_ok fs" "is_valid_filename src" "is_valid_filename dst"
    and "file_key src = Some a" "file_key dst = Some b" "ramfs_contents fs a = Some d"
  shows "\<exists>fs'. cmd_mv fs src dst = (fs', Moved src dst)
     \<and> ramfs_contents fs' = (if a = b then (ramfs_contents fs)(a := None) else (ramfs_contents fs)(a := None, b \<mapsto> d))"
proof -
  have rd: "ramfs_read fs src = Inr d" using ram.read_law [OF assms(1), of src] assms(4,6) by (simp add: spec_fs_def)
  obtain f1 where f1: "ramfs_write fs dst d = Inr f1" "ramfs_ok f1" "ramfs_contents f1 = (ramfs_contents fs)(b \<mapsto> d)"
    using ram.read_after_write [OF assms(1,5), of d] by auto
  have "ramfs_contents f1 a = Some d" using f1(3) assms(6) by simp
  from ram.gone_after_delete [OF f1(2) assms(4) this] obtain f2 where
    "ramfs_delete f1 src = Inr f2" "ramfs_contents f2 = (ramfs_contents f1)(a := None)" by auto
  then show ?thesis using rd f1 assms(2,3) by (auto simp: cmd_mv_def fun_upd_twist)
qed

definition one_file :: ramfs where
  "one_file = \<lparr>files = [(''f'', [1, 2, 3])]\<rparr>"

theorem shell_mv_witness: "\<exists>fs'. cmd_mv one_file ''f'' ''f'' = (fs', Moved ''f'' ''f'') \<and> ramfs_contents fs' ''f'' = None"
proof -
  have k: "file_key ''f'' = Some ''f''" "is_valid_filename ''f''"
    by (simp_all add: file_key_def normalize_def trim_def is_space_def is_valid_filename_def)
  have "ramfs_ok one_file" "ramfs_contents one_file ''f'' = Some [1, 2, 3]"
    by (simp_all add: ramfs_ok_def btree_ok_def one_file_def ramfs_contents_def)
  from shell_mv [OF this(1) k(2,2,1,1) this(2)] show ?thesis by auto
qed

section \<open>History\<close>

definition history_ok :: "history \<Rightarrow> bool" where
  "history_ok h \<longleftrightarrow> length (items h) \<le> MAX_HISTORY \<and> -1 \<le> index h \<and> index h < int (length (items h))
     \<and> distinct_adj (items h) \<and> [] \<notin> set (items h)"

fun browse_up :: "nat \<Rightarrow> history \<Rightarrow> string list \<times> history" where
  "browse_up 0 h = ([], h)"
| "browse_up (Suc n) h = (case history_prev h of (r, h') \<Rightarrow>
     (case browse_up n h' of (rs, h'') \<Rightarrow> (case r of Some c \<Rightarrow> c # rs | None \<Rightarrow> rs, h'')))"

lemma browse_up_from:
  "n \<le> k \<Longrightarrow> k < length (items h) \<Longrightarrow> index h = int k \<Longrightarrow>
   fst (browse_up n h) = map (\<lambda>j. items h ! (k - Suc j)) [0 ..< n]"
proof (induction n arbitrary: h k)
  case (Suc n)
  let ?h = "h\<lparr>index := int (k - 1)\<rparr>"
  have p: "history_prev h = (Some (items h ! (k - 1)), ?h)"
    using Suc.prems by (auto simp: history_prev_def Let_def nat_diff_distrib of_nat_diff)
  have "fst (browse_up n ?h) = map (\<lambda>j. items h ! (k - 1 - Suc j)) [0 ..< n]"
    using Suc.IH [of "k - 1" ?h] Suc.prems by simp
  moreover have "map (\<lambda>j. items h ! (k - Suc j)) [0 ..< Suc n]
      = items h ! (k - 1) # map (\<lambda>j. items h ! (k - 1 - Suc j)) [0 ..< n]"
    by (subst map_upt_Suc) simp
  moreover obtain rs h2 where "browse_up n ?h = (rs, h2)" by fastforce
  ultimately show ?case using p by simp
qed simp

text \<open>The history keeps at most 16 lines, none empty and no two equal ones in a row, with its
  cursor in range, through every push and browse; a pushed line is the first one that the up arrow
  brings back, and going up repeatedly walks the lines from newest to oldest.\<close>

theorem history_keeps_lines:
  assumes "history_ok h"
  shows "history_ok (history_push h cmd) \<and> history_ok (snd (history_prev h)) \<and> history_ok (snd (history_next h))
    \<and> (cmd \<noteq> [] \<longrightarrow> fst (history_prev (history_push h cmd)) = Some cmd)
    \<and> (index h = -1 \<longrightarrow> fst (browse_up (length (items h)) h) = rev (items h))"
proof (intro conjI impI)
  show "history_ok (history_push h cmd)"
  proof (cases "cmd = [] \<or> items h \<noteq> [] \<and> last (items h) = cmd")
    case True
    then show ?thesis using assms by (auto simp: history_ok_def history_push_def Let_def)
  next
    case False
    let ?is = "items h @ [cmd]"
    have adj: "distinct_adj ?is" "[] \<notin> set ?is"
      using assms False by (auto simp: history_ok_def distinct_adj_append_iff)
    moreover have "distinct_adj (tl xs)" if "distinct_adj xs" for xs :: "string list"
      using that by (cases xs) (auto dest: distinct_adj_ConsD)
    moreover have "set (tl xs) \<subseteq> set xs" for xs :: "string list" by (cases xs) auto
    ultimately have "distinct_adj (tl ?is)" "[] \<notin> set (tl ?is)" by blast+
    moreover define xs where "xs = (if length ?is > MAX_HISTORY then tl ?is else ?is)"
    ultimately have "distinct_adj xs" "[] \<notin> set xs" using adj by simp_all
    moreover have "length xs \<le> MAX_HISTORY" using assms by (auto simp: xs_def history_ok_def)
    moreover have "history_push h cmd = \<lparr>items = xs, index = -1\<rparr>"
    proof -
      have c: "(cmd = []) = False" "(items h \<noteq> [] \<and> last (items h) = cmd) = False" using False by auto
      have d: "drop 1 ys = tl ys" for ys :: "string list" by (simp add: drop_Suc)
      show ?thesis unfolding history_push_def Let_def xs_def c d if_False by (rule refl)
    qed
    ultimately show ?thesis by (simp add: history_ok_def)
  qed
  show "history_ok (snd (history_prev h))" "history_ok (snd (history_next h))"
    using assms by (auto simp: history_ok_def history_prev_def history_next_def Let_def)
next
  assume "cmd \<noteq> []"
  then show "fst (history_prev (history_push h cmd)) = Some cmd"
    by (auto simp: history_push_def history_prev_def Let_def nth_append last_conv_nth MAX_HISTORY_def nth_drop)
next
  assume i: "index h = -1"
  show "fst (browse_up (length (items h)) h) = rev (items h)"
  proof (cases "items h")
    case Nil
    then show ?thesis by simp
  next
    case (Cons x xs)
    let ?n = "length xs"
    have p: "history_prev h = (Some (items h ! ?n), h\<lparr>index := int ?n\<rparr>)"
      using i Cons by (simp add: history_prev_def Let_def)
    have "fst (browse_up ?n (h\<lparr>index := int ?n\<rparr>)) = map (\<lambda>j. items h ! (?n - Suc j)) [0 ..< ?n]"
      using browse_up_from [of ?n ?n "h\<lparr>index := int ?n\<rparr>"] Cons by simp
    moreover obtain rs h2 where "browse_up ?n (h\<lparr>index := int ?n\<rparr>) = (rs, h2)" by fastforce
    ultimately have "fst (browse_up (length (items h)) h) = items h ! ?n # map (\<lambda>j. items h ! (?n - Suc j)) [0 ..< ?n]"
      using p Cons by simp
    also have "\<dots> = rev (items h)"
    proof (rule nth_equalityI)
      have len: "length (items h) = Suc ?n" by (simp add: Cons)
      then show "length (items h ! ?n # map (\<lambda>j. items h ! (?n - Suc j)) [0 ..< ?n]) = length (rev (items h))" by simp
      fix i assume i: "i < length (items h ! ?n # map (\<lambda>j. items h ! (?n - Suc j)) [0 ..< ?n])"
      then have "rev (items h) ! i = items h ! (?n - i)" using len by (simp add: rev_nth)
      then show "(items h ! ?n # map (\<lambda>j. items h ! (?n - Suc j)) [0 ..< ?n]) ! i = rev (items h) ! i"
        using i by (cases i) simp_all
    qed
    finally show ?thesis .
  qed
qed

theorem history_keeps_lines_witness:
  "fst (history_prev (history_push history_new ''ls'')) = Some ''ls''"
proof -
  have "history_ok history_new" by (simp add: history_ok_def history_new_def)
  from history_keeps_lines [OF this, of "''ls''"] show ?thesis by simp
qed

end
