(* ===== verification/Editor.thy ===== *)
theory Editor
  imports RamFs Keyboard
begin

text \<open>
  The text editor of \<^verbatim>\<open>src/shell/editor.rs\<close> as a state machine on key events: the
  buffer, the insertion offset \<open>cursor\<close>, the displayed position \<open>row\<close>, \<open>col\<close>, and the file
  system it saves to. Text is ASCII, so byte offsets are character offsets; \<open>redraw\<close> and the
  status line are output.
\<close>

section \<open>Lines\<close>

text \<open>\<open>str::lines\<close>: split at line feeds, no last line for a final line feed, a carriage return
  before a line feed dropped.\<close>

fun split_lines :: "string \<Rightarrow> string \<Rightarrow> string list" where
  "split_lines [] cur = (if cur = [] then [] else [cur])"
| "split_lines (c # cs) cur =
     (if c = CHR 0x0A then (if cur \<noteq> [] \<and> last cur = CHR 0x0D then butlast cur else cur) # split_lines cs []
      else split_lines cs (cur @ [c]))"

definition lines_of :: "string \<Rightarrow> string list" where
  "lines_of s = split_lines s []"

definition line_count :: "string \<Rightarrow> nat" where
  "line_count s = max (length (lines_of s)) 1"

definition line_len :: "string \<Rightarrow> nat \<Rightarrow> nat" where
  "line_len s row = (if row < length (lines_of s) then length (lines_of s ! row) else 0)"

fun pos_in_lines :: "string list \<Rightarrow> nat \<Rightarrow> nat \<Rightarrow> nat \<Rightarrow> (nat \<times> nat) option" where
  "pos_in_lines [] r i offset = None"
| "pos_in_lines (l # ls) r i offset =
     (if i + (length l + 1) > offset then Some (r, offset - i)
      else pos_in_lines ls (r + 1) (i + (length l + 1)) offset)"

definition offset_to_pos :: "string \<Rightarrow> nat \<Rightarrow> nat \<times> nat" where
  "offset_to_pos s offset =
     (case pos_in_lines (lines_of s) 0 0 offset of
        Some p \<Rightarrow> p
      | None \<Rightarrow> let rows = line_count s in (rows - 1, line_len s (rows - 1)))"

section \<open>The editor\<close>

record editor =
  path :: string
  buffer :: string
  cursor :: nat
  row :: nat
  col :: nat
  dirty :: bool
  disk :: ramfs
  closed :: bool

definition to_bytes :: "string \<Rightarrow> u8 list" where
  "to_bytes s = map (\<lambda>c. word_of_nat (of_char c)) s"

definition from_bytes :: "u8 list \<Rightarrow> string" where
  "from_bytes d = map (\<lambda>b. char_of (unat b)) d"

definition editor_open :: "ramfs \<Rightarrow> string \<Rightarrow> editor" where
  "editor_open fs p =
     (let text = (case ramfs_read fs p of Inr data \<Rightarrow> from_bytes data | Inl _ \<Rightarrow> []);
          text = (if text \<noteq> [] \<and> last text \<noteq> CHR 0x0A then text @ [CHR 0x0A] else text)
      in \<lparr>path = p, buffer = text, cursor = length text, row = 0, col = 0, dirty = False, disk = fs, closed = False\<rparr>)"

definition insert_char :: "char \<Rightarrow> editor \<Rightarrow> editor" where
  "insert_char c e =
     (let b = take (cursor e) (buffer e) @ c # drop (cursor e) (buffer e);
          n = cursor e + 1; (r, k) = offset_to_pos b n
      in e\<lparr>buffer := b, cursor := n, dirty := True, row := r, col := k\<rparr>)"

definition remove_char :: "editor \<Rightarrow> editor" where
  "remove_char e =
     (let b = take (cursor e - 1) (buffer e) @ drop (cursor e) (buffer e); n = cursor e - 1;
          (r, k) = offset_to_pos b n
      in e\<lparr>buffer := b, cursor := n, dirty := True, row := r, col := k\<rparr>)"

fun editor_key :: "KeyEvent \<Rightarrow> editor \<Rightarrow> editor" where
  "editor_key Escape e = e\<lparr>closed := True\<rparr>"
| "editor_key (Ctrl c) e =
     (if c = 115 \<or> c = 83 then
        e\<lparr>disk := (case ramfs_write (disk e) (path e) (to_bytes (buffer e)) of Inr fs \<Rightarrow> fs | Inl _ \<Rightarrow> disk e),
          dirty := False\<rparr>
      else e)"
| "editor_key Up e =
     (if row e > 0 then e\<lparr>row := row e - 1, col := min (col e) (line_len (buffer e) (row e - 1))\<rparr> else e)"
| "editor_key Down e =
     (if row e + 1 < line_count (buffer e)
      then e\<lparr>row := row e + 1, col := min (col e) (line_len (buffer e) (row e + 1))\<rparr> else e)"
| "editor_key Left e =
     (if col e > 0 then e\<lparr>col := col e - 1\<rparr>
      else if row e > 0 then e\<lparr>row := row e - 1, col := line_len (buffer e) (row e - 1)\<rparr>
      else e)"
| "editor_key Right e =
     (if col e < line_len (buffer e) (row e) then e\<lparr>col := col e + 1\<rparr>
      else if row e + 1 < line_count (buffer e) then e\<lparr>row := row e + 1, col := 0\<rparr>
      else e)"
| "editor_key Backspace e =
     (if cursor e > 0 then remove_char e else e)"
| "editor_key Enter e = insert_char CHR 0x0A e"
| "editor_key (Char_key c) e = insert_char (char_of (unat c)) e"
| "editor_key _ e = e"

definition editor_run :: "KeyEvent list \<Rightarrow> editor \<Rightarrow> editor" where
  "editor_run evs e = fold (\<lambda>ev e. if closed e then e else editor_key ev e) evs e"

section \<open>Where the text goes\<close>

text \<open>What typing at the end of a text makes of it; every other key leaves it alone.\<close>

fun type_at_end :: "KeyEvent \<Rightarrow> string \<Rightarrow> string" where
  "type_at_end Backspace s = butlast s"
| "type_at_end Enter s = s @ [CHR 0x0A]"
| "type_at_end (Char_key c) s = s @ [char_of (unat c)]"
| "type_at_end _ s = s"

text \<open>The editing state seen from a path: the insertion offset at the end, a sound file system.\<close>

definition at_end :: "string \<Rightarrow> editor \<Rightarrow> bool" where
  "at_end p e \<longleftrightarrow> cursor e = length (buffer e) \<and> path e = p \<and> ramfs_ok (disk e)"

lemma insert_char_simps [simp]:
  "buffer (insert_char c e) = take (cursor e) (buffer e) @ c # drop (cursor e) (buffer e)"
  "cursor (insert_char c e) = cursor e + 1" "path (insert_char c e) = path e"
  "disk (insert_char c e) = disk e" "closed (insert_char c e) = closed e"
  by (simp_all add: insert_char_def Let_def split: prod.split)

lemma remove_char_simps [simp]:
  "buffer (remove_char e) = take (cursor e - 1) (buffer e) @ drop (cursor e) (buffer e)"
  "cursor (remove_char e) = cursor e - 1" "path (remove_char e) = path e"
  "disk (remove_char e) = disk e" "closed (remove_char e) = closed e"
  by (simp_all add: remove_char_def Let_def split: prod.split)

lemma ramfs_write_ok: "ramfs_ok fs \<Longrightarrow> ramfs_write fs p d = Inr fs' \<Longrightarrow> ramfs_ok fs'"
  using ram.write_law [of fs p d] by (simp add: ramfs_impl_def)

lemma editor_key_at_end:
  assumes "at_end p e"
  shows "at_end p (editor_key ev e) \<and> buffer (editor_key ev e) = type_at_end ev (buffer e)
    \<and> closed (editor_key ev e) = (ev = Escape \<or> closed e)"
proof (cases ev)
  case (Ctrl c)
  then show ?thesis using assms ramfs_write_ok by (auto simp: at_end_def split: sum.splits)
qed (use assms in \<open>auto simp: at_end_def butlast_conv_take\<close>)

lemma editor_run_at_end:
  assumes "at_end p e" "Escape \<notin> set evs" "\<not> closed e"
  shows "at_end p (editor_run evs e) \<and> buffer (editor_run evs e) = fold type_at_end evs (buffer e)"
  using assms
proof (induction evs arbitrary: e)
  case (Cons ev evs)
  have "at_end p (editor_key ev e)" "buffer (editor_key ev e) = type_at_end ev (buffer e)" "\<not> closed (editor_key ev e)"
    using editor_key_at_end [OF Cons.prems(1), of ev] Cons.prems(2,3) by auto
  then show ?case using Cons.IH [of "editor_key ev e"] Cons.prems by (simp add: editor_run_def)
qed (simp add: editor_run_def)

text \<open>C21. The arrow keys move the displayed position but not the insertion offset: whatever keys
  are pressed between opening and leaving, characters are added and removed only at the end of the
  buffer, and saving writes that buffer.\<close>

theorem editor_edits_at_end:
  assumes "ramfs_ok fs" "Escape \<notin> set evs" "file_key p = Some k"
  shows "let e = editor_open fs p; e' = editor_run evs e; t = fold type_at_end evs (buffer e) in
    buffer e' = t \<and> cursor e' = length t \<and> ramfs_read (disk (editor_key (Ctrl 115) e')) p = Inr (to_bytes t)"
proof -
  let ?e = "editor_open fs p"
  have "at_end p ?e" "\<not> closed ?e" using assms(1) by (simp_all add: editor_open_def at_end_def Let_def)
  then have run: "at_end p (editor_run evs ?e)" "buffer (editor_run evs ?e) = fold type_at_end evs (buffer ?e)"
    using editor_run_at_end [of p ?e evs] assms(2) by simp_all
  then have "ramfs_ok (disk (editor_run evs ?e))" "path (editor_run evs ?e) = p" by (simp_all add: at_end_def)
  moreover define d where "d = to_bytes (fold type_at_end evs (buffer ?e))"
  ultimately obtain fs' where "ramfs_write (disk (editor_run evs ?e)) p d = Inr fs'" "ramfs_read fs' p = Inr d"
    using ram.read_after_write [of "disk (editor_run evs ?e)" p k d] assms(3) by (auto simp: ramfs_impl_def)
  then show ?thesis
    using run by (simp add: Let_def at_end_def d_def)
qed

theorem editor_edits_at_end_witness:
  "buffer (editor_run [Char_key 97, Up, Left, Left, Char_key 98] (editor_open ramfs_new ''f'')) = ''ab''"
proof -
  have "file_key ''f'' = Some ''f''" by (simp add: file_key_def normalize_def trim_def is_space_def)
  from editor_edits_at_end [OF ramfs_new_ok(1) _ this, of "[Char_key 97, Up, Left, Left, Char_key 98]"]
  have "buffer (editor_run [Char_key 97, Up, Left, Left, Char_key 98] (editor_open ramfs_new ''f''))
      = fold type_at_end [Char_key 97, Up, Left, Left, Char_key 98] (buffer (editor_open ramfs_new ''f''))"
    by (simp add: Let_def)
  moreover have "buffer (editor_open ramfs_new ''f'') = []"
    by (simp add: editor_open_def ramfs_read_def normalize_def trim_def is_space_def ramfs_new_def Let_def)
  moreover have "char_of (97 :: nat) = CHR ''a''" "char_of (98 :: nat) = CHR ''b''" by code_simp+
  ultimately show ?thesis by simp
qed

end
