(* ===== verification/NetHeaders.thy ===== *)
theory NetHeaders
  imports Prelude
begin

text \<open>
  The packet formats of \<^verbatim>\<open>src/drivers/net\<close>: Ethernet (\<^verbatim>\<open>ethernet.rs\<close>), IPv4
  (\<^verbatim>\<open>ipv4.rs\<close>), UDP (\<^verbatim>\<open>udp.rs\<close>) and ARP (\<^verbatim>\<open>arp.rs\<close>), and the Internet
  checksum. A parser takes the bytes and returns the header or \<open>None\<close>; a builder takes the output
  buffer and returns the number of bytes written with the buffer, or \<open>None\<close> when it is too
  short. Addresses (\<open>[u8; 4]\<close>, \<open>[u8; 6]\<close>) are byte lists of that length.
\<close>

section \<open>Buffers filled from the front\<close>

text \<open>The builders write a header field by field, each where the one before ended.\<close>

lemma patch_append:
  assumes "k = a + length ys" "k + length zs \<le> length xs"
  shows "patch (patch xs a ys) k zs = patch xs a (ys @ zs)"
proof -
  have "min (length xs) a = a" "min a (length xs) = a" using assms by auto
  then show ?thesis using assms by (simp add: patch_def ac_simps)
qed

lemma patch_patch_inside:
  assumes "a + length ys + length zs + length ws \<le> length xs" "k = a + length ys" "length zs = length zs'"
  shows "patch (patch xs a (ys @ zs @ ws)) k zs' = patch xs a (ys @ zs' @ ws)"
proof -
  have "min (length xs) a = a" "min a (length xs) = a" using assms by auto
  then show ?thesis using assms by (simp add: patch_def ac_simps)
qed

lemma take_patch_zero: "length ys \<le> length xs \<Longrightarrow> n = length ys \<Longrightarrow> take n (patch xs 0 ys) = ys"
  by (simp add: patch_def)

lemma patch_patch_front:
  "length zs \<le> length ys \<Longrightarrow> length ys \<le> length xs \<Longrightarrow>
   patch (patch xs 0 ys) 0 zs = patch xs 0 (zs @ drop (length zs) ys)"
  by (simp add: patch_def)

section \<open>The Internet checksum\<close>

text \<open>\<open>ck_sum\<close> is the loop that adds the big-endian 16-bit words and the odd last byte, \<open>ck_fold\<close>
  the loop that folds the carries back in.\<close>

fun ck_sum :: "u8 list \<Rightarrow> u32 \<Rightarrow> u32" where
  "ck_sum (a # b # xs) s = ck_sum xs (s + ucast (of_be16 a b))"
| "ck_sum [a] s = s + push_bit 8 (ucast a)"
| "ck_sum [] s = s"

lemma unat_high_half: "unat (drop_bit 16 s :: u32) = unat s div 65536"
proof -
  have "take_bit 32 (unat s) = unat s" using u32_less [of s] by (simp add: take_bit_nat_eq_self)
  then show ?thesis by (simp only: unsigned_drop_bit_eq) (simp add: drop_bit_eq_div)
qed

lemma unat_low_half: "unat (s AND 0xFFFF :: u32) = unat s mod 65536"
proof -
  have "s AND 0xFFFF = take_bit 16 s" by (simp add: take_bit_eq_mask mask_eq_exp_minus_1)
  then show ?thesis by (simp only: unsigned_take_bit_eq) (simp add: take_bit_eq_mod)
qed

lemma unat_fold_step:
  "unat ((s AND 0xFFFF) + drop_bit 16 s :: u32) = unat s mod 65536 + unat s div 65536"
  using u32_less [of s] by (simp add: unat_word_ariths unat_high_half unat_low_half)

lemma high_half_zero: "drop_bit 16 s = 0 \<longleftrightarrow> unat (s :: u32) < 65536"
  by (metis unat_high_half div_eq_0_iff unsigned_0 unsigned_eq_0_iff zero_neq_numeral)

function ck_fold :: "u32 \<Rightarrow> u32" where
  "ck_fold s = (if drop_bit 16 s = 0 then s else ck_fold ((s AND 0xFFFF) + drop_bit 16 s))"
  by auto

lemma fold_decreases: "65536 \<le> (n :: nat) \<Longrightarrow> n mod 65536 + n div 65536 < n"
  using mult_div_mod_eq [of 65536 n] by linarith

termination ck_fold
  by (relation "measure unat") (simp_all add: unat_fold_step high_half_zero fold_decreases not_less)

declare ck_fold.simps [simp del]

definition checksum :: "u8 list \<Rightarrow> u16" where
  "checksum data = NOT (ucast (ck_fold (ck_sum data 0)))"

subsection \<open>Its meaning\<close>

fun word_sum :: "u8 list \<Rightarrow> nat" where
  "word_sum (a # b # xs) = unat (of_be16 a b) + word_sum xs"
| "word_sum [a] = 256 * unat a"
| "word_sum [] = 0"

lemma word_sum_append: "even (length xs) \<Longrightarrow> word_sum (xs @ ys) = word_sum xs + word_sum ys"
  by (induction xs rule: word_sum.induct) auto

lemma word_sum_bound: "word_sum xs \<le> 65535 * ((length xs + 1) div 2)"
proof (induction xs rule: word_sum.induct)
  case (1 a b xs)
  then show ?case using u16_less [of "of_be16 a b"] by simp
next
  case (2 a)
  then show ?case using u8_less [of a] by simp
qed simp

lemma word_sum_be16: "word_sum (be16 w) = unat w"
  using of_be16_nth [of w] by (simp add: be16_def)

lemma word_sum_be32: "word_sum (be32 w) = unat w div 65536 + unat w mod 65536"
proof -
  have a: "of_be16 (ucast (drop_bit 24 w)) (ucast (drop_bit 16 w)) = (ucast (drop_bit 16 w) :: u16)"
    by (rule bit_word_eqI) (auto simp: of_be16_def bit_simps)
  have b: "of_be16 (ucast (drop_bit 8 w)) (ucast w) = (ucast w :: u16)"
    by (rule bit_word_eqI) (auto simp: of_be16_def bit_simps)
  show ?thesis
    using u32_less [of w]
    by (simp add: be32_def a b unsigned_ucast_eq unat_high_half take_bit_eq_mod)
qed

lemma unat_ck_sum:
  "unat s + word_sum xs < 2 ^ 32 \<Longrightarrow> unat (ck_sum xs s) = unat s + word_sum xs"
proof (induction xs s rule: ck_sum.induct)
  case (1 a b xs s)
  have u: "unat (ucast (of_be16 a b) :: u32) = unat (of_be16 a b)"
    using u16_less [of "of_be16 a b"] by (simp add: unsigned_ucast_eq take_bit_nat_eq_self)
  have "unat (s + ucast (of_be16 a b)) = unat s + unat (of_be16 a b)"
    using 1(2) u by (simp add: unat_word_ariths)
  with 1 show ?case by simp
next
  case (2 a s)
  have "unat (push_bit 8 (ucast a) :: u32) = 256 * unat a"
    using u8_less [of a]
    by (simp add: push_bit_eq_mult unat_word_ariths unsigned_ucast_eq take_bit_nat_eq_self)
  with 2 show ?case by (simp add: unat_word_ariths)
qed simp

lemma ck_fold_small: "unat (ck_fold s) < 65536"
proof (induction s rule: ck_fold.induct)
  case (1 s)
  then show ?case by (cases "drop_bit 16 s = 0") (auto simp: ck_fold.simps [of s] high_half_zero)
qed

lemma fold_mod: "(n mod 65536 + n div 65536) mod 65535 = (n :: nat) mod 65535"
proof -
  have "n = (n mod 65536 + n div 65536) + 65535 * (n div 65536)"
    using mult_div_mod_eq [of 65536 n] by linarith
  then show ?thesis by (metis mod_mult_self2)
qed

lemma ck_fold_mod: "unat (ck_fold s) mod 65535 = unat s mod 65535"
proof (induction s rule: ck_fold.induct)
  case (1 s)
  then show ?case
    by (cases "drop_bit 16 s = 0") (simp_all add: ck_fold.simps [of s] unat_fold_step fold_mod)
qed

lemma ck_fold_pos: "0 < unat s \<Longrightarrow> 0 < unat (ck_fold s)"
proof (induction s rule: ck_fold.induct)
  case (1 s)
  show ?case
  proof (cases "drop_bit 16 s = 0")
    case True
    with 1 show ?thesis by (simp add: ck_fold.simps [of s])
  next
    case False
    then have "0 < unat s div 65536" by (simp add: high_half_zero)
    then have "0 < unat ((s AND 0xFFFF) + drop_bit 16 s)" by (simp only: unat_fold_step)
    with 1 False show ?thesis by (simp add: ck_fold.simps [of s])
  qed
qed

lemma unat_not_u16: "unat (NOT (x :: u16)) = 65535 - unat x"
proof -
  have "NOT x = - 1 - x" by (simp add: not_eq_complement)
  moreover have "unat (- 1 - x) = unat (- 1 :: u16) - unat x"
    by (rule unat_sub) (rule word_order.extremum)
  moreover have "unat (- 1 :: u16) = 65535"
    by (simp only: unsigned_minus_1_eq_mask mask_eq_exp_minus_1) simp
  ultimately show ?thesis by simp
qed

lemma unat_complement: "unat (NOT (ucast (t :: u32)) :: u16) = 65535 - unat t mod 65536"
  by (simp only: unat_not_u16 unsigned_ucast_eq) (simp add: take_bit_eq_mod)

lemma multiple_of_65535: "(n :: nat) mod 65535 = 0 \<Longrightarrow> 0 < n \<Longrightarrow> n < 65536 \<Longrightarrow> n = 65535"
  by (cases "n < 65535") simp_all

text \<open>Adding the complement of the sum to the sum verifies: whatever the other words are, a
  receiver that checksums the whole gets zero.\<close>

lemma checksum_verifies:
  fixes s t :: u32
  assumes "unat t = unat s + unat (NOT (ucast (ck_fold s)) :: u16)"
  shows "NOT (ucast (ck_fold t) :: u16) = 0"
proof -
  let ?f = "unat (ck_fold s)"
  have f: "?f < 65536" by (rule ck_fold_small)
  have t: "unat t = unat s + (65535 - ?f)" using assms f by (simp add: unat_complement)
  have "(unat s + (65535 - ?f)) mod 65535 = (?f + (65535 - ?f)) mod 65535"
    by (metis ck_fold_mod mod_add_left_eq)
  then have "unat (ck_fold t) mod 65535 = 0" using f t by (simp add: ck_fold_mod)
  moreover have "0 < unat t"
  proof (cases "unat s = 0")
    case True
    then have "s = 0" by (simp add: unsigned_eq_0_iff)
    then have "?f = 0" by (simp add: ck_fold.simps [of 0])
    then show ?thesis using t by simp
  next
    case False
    then show ?thesis using t by simp
  qed
  then have "0 < unat (ck_fold t)" by (rule ck_fold_pos)
  ultimately have "unat (ck_fold t) = 65535"
    by (rule multiple_of_65535 [OF _ _ ck_fold_small])
  then have "unat (NOT (ucast (ck_fold t)) :: u16) = 0" by (simp add: unat_complement)
  then show ?thesis by (simp only: unsigned_eq_0_iff)
qed

section \<open>Ethernet\<close>

record EthernetFrame =
  eth_dst :: "u8 list"
  eth_src :: "u8 list"
  ethertype :: u16
  eth_payload :: "u8 list"

definition eth_parse :: "u8 list \<Rightarrow> EthernetFrame option" where
  "eth_parse data =
     (if length data < 60 then None
      else Some \<lparr>eth_dst = slc 0 6 data, eth_src = slc 6 12 data,
        ethertype = of_be16 (data ! 12) (data ! 13), eth_payload = drop 14 data\<rparr>)"

definition eth_build :: "u8 list \<Rightarrow> u8 list \<Rightarrow> u16 \<Rightarrow> u8 list \<Rightarrow> u8 list \<Rightarrow> (nat \<times> u8 list) option" where
  "eth_build dst src et payload out =
     (let len = 14 + length payload in
      if length out < len then None
      else
        let out = patch out 0 dst;
            out = patch out 6 src;
            out = patch out 12 (be16 et);
            out = patch out 14 payload
        in Some (len, out))"

section \<open>IPv4\<close>

record Ipv4Packet =
  ip_version :: u8
  ip_header_len :: u8
  ip_total_len :: u16
  ip_protocol :: u8
  ip_src :: "u8 list"
  ip_dst :: "u8 list"
  ip_payload :: "u8 list"

definition ip_parse :: "u8 list \<Rightarrow> Ipv4Packet option" where
  "ip_parse data =
     (if length data < 20 then None
      else
        let version_ihl = data ! 0;
            header_len = (version_ihl AND 0x0F) * 4 in
        if length data < unat header_len then None
        else Some \<lparr>ip_version = drop_bit 4 version_ihl, ip_header_len = header_len,
          ip_total_len = of_be16 (data ! 2) (data ! 3), ip_protocol = data ! 9,
          ip_src = slc 12 16 data, ip_dst = slc 16 20 data,
          ip_payload = drop (unat header_len) data\<rparr>)"

definition ip_build ::
    "u8 list \<Rightarrow> u8 list \<Rightarrow> u8 \<Rightarrow> u16 \<Rightarrow> u8 list \<Rightarrow> (nat \<times> u8 list) option" where
  "ip_build src dst protocol payload_len out =
     (if length out < 20 then None
      else
        let total_len = 20 + payload_len;
            out = patch out 0 [0x45];
            out = patch out 1 [0];
            out = patch out 2 (be16 total_len);
            out = patch out 4 [0, 0];
            out = patch out 6 [0, 0];
            out = patch out 8 [64];
            out = patch out 9 [protocol];
            out = patch out 10 [0, 0];
            out = patch out 12 src;
            out = patch out 16 dst;
            cksum = checksum (take 20 out);
            out = patch out 10 (be16 cksum)
        in Some (20, out))"

section \<open>UDP\<close>

record UdpHeader =
  udp_src_port :: u16
  udp_dst_port :: u16
  udp_length :: u16
  udp_payload :: "u8 list"

definition udp_parse :: "u8 list \<Rightarrow> UdpHeader option" where
  "udp_parse data =
     (if length data < 8 then None
      else Some \<lparr>udp_src_port = of_be16 (data ! 0) (data ! 1),
        udp_dst_port = of_be16 (data ! 2) (data ! 3),
        udp_length = of_be16 (data ! 4) (data ! 5), udp_payload = drop 8 data\<rparr>)"

definition udp_build :: "u16 \<Rightarrow> u16 \<Rightarrow> u8 list \<Rightarrow> u8 list \<Rightarrow> (nat \<times> u8 list) option" where
  "udp_build src_port dst_port payload out =
     (let len = 8 + length payload in
      if length out < len then None
      else
        let out = patch out 0 (be16 src_port);
            out = patch out 2 (be16 dst_port);
            out = patch out 4 (be16 (of_nat len));
            out = patch out 6 [0, 0];
            out = patch out 8 payload
        in Some (len, out))"

section \<open>ARP\<close>

record ArpPacket =
  hw_type :: u16
  proto_type :: u16
  arp_opcode :: u16
  sender_mac :: "u8 list"
  sender_ip :: "u8 list"
  target_mac :: "u8 list"
  target_ip :: "u8 list"

definition arp_build_request :: "u8 list \<Rightarrow> u8 list \<Rightarrow> u8 list \<Rightarrow> u8 list \<Rightarrow> (nat \<times> u8 list) option" where
  "arp_build_request smac sip tip out =
     (if length out < 28 then None
      else
        let out = patch out 0 (be16 1);
            out = patch out 2 (be16 0x0800);
            out = patch out 4 [6];
            out = patch out 5 [4];
            out = patch out 6 (be16 1);
            out = patch out 8 smac;
            out = patch out 14 sip;
            out = patch out 18 (replicate 6 0);
            out = patch out 24 tip
        in Some (28, out))"

definition arp_parse :: "u8 list \<Rightarrow> ArpPacket option" where
  "arp_parse data =
     (if length data < 28 then None
      else
        let hw = of_be16 (data ! 0) (data ! 1); proto = of_be16 (data ! 2) (data ! 3) in
        if hw \<noteq> 1 \<or> proto \<noteq> 0x0800 \<or> data ! 4 \<noteq> 6 \<or> data ! 5 \<noteq> 4 then None
        else Some \<lparr>hw_type = hw, proto_type = proto, arp_opcode = of_be16 (data ! 6) (data ! 7),
          sender_mac = slc 8 14 data, sender_ip = slc 14 18 data,
          target_mac = slc 18 24 data, target_ip = slc 24 28 data\<rparr>)"

section \<open>What the builders write\<close>

lemma eth_build_bytes:
  assumes "length dst = 6" "length src = 6" "14 + length payload \<le> length out"
  shows "eth_build dst src et payload out =
    Some (14 + length payload, patch out 0 (dst @ src @ be16 et @ payload))"
  using assms by (simp add: eth_build_def Let_def patch_append)

lemma udp_build_bytes:
  assumes "8 + length payload \<le> length out"
  shows "udp_build sp dp payload out = Some (8 + length payload,
    patch out 0 (be16 sp @ be16 dp @ be16 (of_nat (8 + length payload)) @ [0, 0] @ payload))"
  using assms by (simp add: udp_build_def Let_def patch_append)

lemma arp_build_bytes:
  assumes "length smac = 6" "length sip = 4" "length tip = 4" "28 \<le> length out"
  shows "arp_build_request smac sip tip out = Some (28,
    patch out 0 (be16 1 @ be16 0x0800 @ [6, 4] @ be16 1 @ smac @ sip @ replicate 6 0 @ tip))"
  using assms by (simp add: arp_build_request_def Let_def patch_append)

definition ip_header :: "u8 list \<Rightarrow> u8 list \<Rightarrow> u8 \<Rightarrow> u16 \<Rightarrow> u16 \<Rightarrow> u8 list" where
  "ip_header src dst protocol total_len cksum =
     ([0x45, 0] @ be16 total_len @ [0, 0, 0, 0, 64, protocol]) @ be16 cksum @ src @ dst"

lemma be16_zero [simp]: "be16 0 = [0, 0]"
  by (simp add: be16_def)

lemma length_ip_header [simp]: "length src = 4 \<Longrightarrow> length dst = 4 \<Longrightarrow> length (ip_header src dst p t c) = 20"
  by (simp add: ip_header_def)

lemma ip_build_bytes:
  assumes "length src = 4" "length dst = 4" "20 \<le> length out"
  shows "ip_build src dst protocol n out =
    Some (20, patch out 0 (ip_header src dst protocol (20 + n)
      (checksum (ip_header src dst protocol (20 + n) 0))))"
proof -
  let ?h = "[0x45, 0] @ be16 (20 + n) @ [0, 0, 0, 0, 64, protocol]"
  have step: "patch (patch out 0 (?h @ [0, 0] @ src @ dst)) 10 c = patch out 0 (?h @ c @ src @ dst)"
    if "length c = 2" for c
    using assms that by (intro patch_patch_inside) auto
  have tk: "take 20 (patch out 0 (?h @ [0, 0] @ src @ dst)) = ?h @ [0, 0] @ src @ dst"
    using assms by (intro take_patch_zero) auto
  show ?thesis
    using assms step [simplified] tk [simplified]
    by (simp add: ip_build_def Let_def patch_append ip_header_def)
qed

section \<open>Parsing what was built\<close>

lemma ip_header_verifies:
  assumes "length src = 4" "length dst = 4"
  shows "checksum (ip_header src dst p t (checksum (ip_header src dst p t 0))) = 0"
proof -
  let ?pre = "[0x45, 0] @ be16 t @ [0, 0, 0, 0, 64, p]"
  have ws: "word_sum (ip_header src dst p t c) = word_sum (ip_header src dst p t 0) + unat c" for c
    by (simp only: ip_header_def word_sum_append [of ?pre] word_sum_append [of "be16 _"] word_sum_be16)
       (simp add: word_sum_append word_sum_be16 unat_of_be16)
  have small: "word_sum (ip_header src dst p t c) < 2 ^ 32" for c
    using word_sum_bound [of "ip_header src dst p t c"] assms by simp
  have un: "unat (ck_sum (ip_header src dst p t c) 0) = word_sum (ip_header src dst p t c)" for c
    using small [of c] by (subst unat_ck_sum) simp_all
  show ?thesis
    unfolding checksum_def
    by (rule checksum_verifies [where s = "ck_sum (ip_header src dst p t 0) 0"]) (simp only: un ws [of "NOT _"])
qed

text \<open>What \<open>ip_build\<close> writes is a header any receiver accepts: its 20 bytes checksum to
  zero, and parsing it with the payload behind it returns the protocol, the addresses, the
  total length and the payload.\<close>

theorem ipv4_build_parse:
  assumes "length src = 4" "length dst = 4" "20 \<le> length out"
  shows "\<exists>out'. ip_build src dst protocol n out = Some (20, out') \<and> length out' = length out
    \<and> checksum (take 20 out') = 0
    \<and> ip_parse (take 20 out' @ payload) = Some \<lparr>ip_version = 4, ip_header_len = 20,
        ip_total_len = 20 + n, ip_protocol = protocol, ip_src = src, ip_dst = dst, ip_payload = payload\<rparr>"
proof -
  let ?c = "checksum (ip_header src dst protocol (20 + n) 0)"
  let ?h = "ip_header src dst protocol (20 + n) ?c"
  have len: "length ?h = 20" using assms by simp
  have "ip_parse (?h @ payload) = Some \<lparr>ip_version = 4, ip_header_len = 20,
      ip_total_len = 20 + n, ip_protocol = protocol, ip_src = src, ip_dst = dst, ip_payload = payload\<rparr>"
    using assms by (simp add: ip_parse_def Let_def ip_header_def nth_append slc_def drop_bit_eq_div)
  moreover have "take 20 (patch out 0 ?h) = ?h" using assms(3) len by (intro take_patch_zero) auto
  ultimately show ?thesis
    using ip_build_bytes [OF assms] ip_header_verifies [OF assms(1,2)] assms(3) len by simp
qed

theorem ipv4_build_parse_witness:
  "\<exists>out'. ip_build [10, 0, 2, 15] [10, 0, 2, 2] 6 4 (replicate 24 0) = Some (20, out') \<and> length out' = 24
    \<and> checksum (take 20 out') = 0
    \<and> ip_parse (take 20 out' @ [1, 2, 3, 4]) = Some \<lparr>ip_version = 4, ip_header_len = 20,
        ip_total_len = 24, ip_protocol = 6, ip_src = [10, 0, 2, 15], ip_dst = [10, 0, 2, 2],
        ip_payload = [1, 2, 3, 4]\<rparr>"
  using ipv4_build_parse [of "[10, 0, 2, 15]" "[10, 0, 2, 2]" "replicate 24 0" 6 4 "[1, 2, 3, 4]"] by simp

lemma ip_parse_header:
  assumes "length src = 4" "length dst = 4"
  shows "ip_parse (ip_header src dst p t c @ rest) = Some \<lparr>ip_version = 4, ip_header_len = 20,
    ip_total_len = t, ip_protocol = p, ip_src = src, ip_dst = dst, ip_payload = rest\<rparr>"
  using assms by (simp add: ip_parse_def Let_def ip_header_def nth_append slc_def drop_bit_eq_div)

lemma eth_parse_frame:
  assumes "length dst = 6" "length src = 6" "60 \<le> 14 + length payload"
  shows "eth_parse (dst @ src @ be16 et @ payload) =
    Some \<lparr>eth_dst = dst, eth_src = src, ethertype = et, eth_payload = payload\<rparr>"
  using assms by (simp add: eth_parse_def nth_append slc_def)

lemma udp_parse_datagram:
  "udp_parse (be16 sp @ be16 dp @ be16 l @ [0, 0] @ payload) =
    Some \<lparr>udp_src_port = sp, udp_dst_port = dp, udp_length = l, udp_payload = payload\<rparr>"
  by (simp add: udp_parse_def nth_append)

lemma arp_parse_request:
  assumes "length smac = 6" "length sip = 4" "length tip = 4"
  shows "arp_parse (be16 1 @ be16 0x0800 @ [6, 4] @ be16 1 @ smac @ sip @ replicate 6 0 @ tip) =
    Some \<lparr>hw_type = 1, proto_type = 0x0800, arp_opcode = 1, sender_mac = smac, sender_ip = sip,
      target_mac = replicate 6 0, target_ip = tip\<rparr>"
  using assms by (simp add: arp_parse_def Let_def nth_append slc_def)

end
