(* ===== verification/Nic.thy ===== *)
theory Nic
  imports Prelude
begin

text \<open>
  PCI configuration (\<^verbatim>\<open>src/drivers/pci.rs\<close>), the RTL8139 driver
  (\<^verbatim>\<open>src/drivers/net/rtl8139.rs\<close>), the e1000 stub (\<^verbatim>\<open>e1000.rs\<close>) and the NIC
  status and configuration of \<^verbatim>\<open>src/drivers/net/mod.rs\<close>. The hardware is outside the
  program: what a read of a port returns is an argument (\<open>pci\<close> the configuration space by
  address, \<open>polls\<close> the successive values of a polled register with the clock at that read), and
  what the driver writes to ports is returned as a list of writes in order.
\<close>

datatype io_write = OutB u16 u8 | OutW u16 u16 | OutL u16 u32

section \<open>PCI configuration space\<close>

record PciDevice =
  pci_bus :: u8
  pci_slot :: u8
  pci_func :: u8
  vendor_id :: u16
  device_id :: u16
  pci_class :: u8
  pci_subclass :: u8

definition pci_config_address :: "u8 \<Rightarrow> u8 \<Rightarrow> u8 \<Rightarrow> u8 \<Rightarrow> u32" where
  "pci_config_address bus slot func offset =
     push_bit 16 (ucast bus) OR push_bit 11 (ucast slot) OR push_bit 8 (ucast func)
       OR (ucast offset AND 0xFC) OR 0x80000000"

definition read_config_dword :: "(u32 \<Rightarrow> u32) \<Rightarrow> u8 \<Rightarrow> u8 \<Rightarrow> u8 \<Rightarrow> u8 \<Rightarrow> u32" where
  "read_config_dword pci bus slot func offset = pci (pci_config_address bus slot func offset)"

definition write_config_dword :: "u8 \<Rightarrow> u8 \<Rightarrow> u8 \<Rightarrow> u8 \<Rightarrow> u32 \<Rightarrow> io_write list" where
  "write_config_dword bus slot func offset value =
     [OutL 0xCF8 (pci_config_address bus slot func offset), OutL 0xCFC value]"

definition enable_bus_mastering :: "(u32 \<Rightarrow> u32) \<Rightarrow> PciDevice \<Rightarrow> io_write list" where
  "enable_bus_mastering pci dev =
     (let cmd = read_config_dword pci (pci_bus dev) (pci_slot dev) (pci_func dev) 0x04 OR 0x05
      in write_config_dword (pci_bus dev) (pci_slot dev) (pci_func dev) 0x04 cmd)"

definition probe_device :: "(u32 \<Rightarrow> u32) \<Rightarrow> u8 \<Rightarrow> u8 \<Rightarrow> u8 \<Rightarrow> PciDevice option" where
  "probe_device pci bus slot func =
     (let dword = read_config_dword pci bus slot func 0; vendor = ucast (dword AND 0xFFFF) in
      if vendor = 0xFFFF then None
      else
        let device = ucast (drop_bit 16 dword AND 0xFFFF);
            class_rev = read_config_dword pci bus slot func 0x08
        in Some \<lparr>pci_bus = bus, pci_slot = slot, pci_func = func, vendor_id = vendor,
             device_id = device, pci_class = ucast (drop_bit 24 class_rev AND 0xFF),
             pci_subclass = ucast (drop_bit 16 class_rev AND 0xFF)\<rparr>)"

definition scan_bus0 :: "(u32 \<Rightarrow> u32) \<Rightarrow> PciDevice list" where
  "scan_bus0 pci = List.map_filter (\<lambda>slot. probe_device pci 0 (of_nat slot) 0) [0..<32]"

definition read_bar :: "(u32 \<Rightarrow> u32) \<Rightarrow> PciDevice \<Rightarrow> u8 \<Rightarrow> u32" where
  "read_bar pci dev bar = read_config_dword pci (pci_bus dev) (pci_slot dev) (pci_func dev) (0x10 + bar * 4)"

fun find_network_from :: "(u32 \<Rightarrow> u32) \<Rightarrow> nat list \<Rightarrow> PciDevice option" where
  "find_network_from pci [] = None"
| "find_network_from pci (slot # slots) =
     (case probe_device pci 0 (of_nat slot) 0 of
        None \<Rightarrow> find_network_from pci slots
      | Some dev \<Rightarrow> if pci_class dev = 0x02 then Some dev else find_network_from pci slots)"

definition find_network_on_bus0 :: "(u32 \<Rightarrow> u32) \<Rightarrow> PciDevice option" where
  "find_network_on_bus0 pci = find_network_from pci [0..<32]"

lemma find_network_from_eq:
  "find_network_from pci slots =
     List.find (\<lambda>d. pci_class d = 0x02) (List.map_filter (\<lambda>slot. probe_device pci 0 (of_nat slot) 0) slots)"
  by (induction slots) (simp_all add: List.map_filter_simps split: option.split)

text \<open>The search of the NIC is the first network controller in the scan of the bus.\<close>

lemma find_network_scan: "find_network_on_bus0 pci = List.find (\<lambda>d. pci_class d = 0x02) (scan_bus0 pci)"
  by (simp add: find_network_on_bus0_def scan_bus0_def find_network_from_eq)

section \<open>The RTL8139\<close>

definition RX_BUF_SIZE :: nat where
  "RX_BUF_SIZE = 8192 + 16"

record rtl =
  rtl_initialized :: bool
  io_base :: u16
  tx_bufs :: "u8 list list"
  tx_desc :: u8

text \<open>\<open>initialise\<close>: \<open>cr_reads\<close> is what the command register returns while the chip resets; the
  result is \<open>None\<close> as long as it has not finished.\<close>

definition rtl_init ::
    "u16 \<Rightarrow> u8 list \<Rightarrow> u32 \<Rightarrow> u16 \<Rightarrow> u32 \<Rightarrow> u16 \<Rightarrow> rtl \<Rightarrow> (u8 list \<times> io_write list \<times> rtl) option" where
  "rtl_init io cr_reads mac_low mac_high rx_addr cbr s =
     (if \<forall>r \<in> set cr_reads. r AND 0x10 \<noteq> 0 then None
      else Some
        ([ucast mac_low, ucast (drop_bit 8 mac_low), ucast (drop_bit 16 mac_low),
          ucast (drop_bit 24 mac_low), ucast mac_high, ucast (drop_bit 8 mac_high)],
         [OutB (io + 0x37) 0x10, OutL (io + 0x30) rx_addr, OutW (io + 0x3C) 0x0005,
          OutL (io + 0x44) 0x00000F0F, OutL (io + 0x40) 0x000000E0, OutB (io + 0x37) (0x04 OR 0x08),
          OutW (io + 0x3E) 0xFFFF, OutW (io + 0x38) cbr],
         s\<lparr>io_base := io, rtl_initialized := True\<rparr>))"

definition set_loopback :: "bool \<Rightarrow> u32 \<Rightarrow> rtl \<Rightarrow> io_write list" where
  "set_loopback on tcr s =
     [OutL (io_base s + 0x40)
        (if on then (tcr AND NOT 0x300) OR 0x100 else (tcr AND NOT 0x300) OR 0x000000E0)]"

subsection \<open>Transmission\<close>

definition tx_registers :: "nat \<Rightarrow> u16 \<times> u16" where
  "tx_registers desc =
     (if desc = 0 then (0x10, 0x20) else if desc = 1 then (0x14, 0x24)
      else if desc = 2 then (0x18, 0x28) else (0x1C, 0x2C))"

text \<open>The polling loop: \<open>None\<close> when the reads given end before it does.\<close>

fun tx_wait :: "u64 \<Rightarrow> (u32 \<times> u64) list \<Rightarrow> (unit + unit) option" where
  "tx_wait deadline [] = None"
| "tx_wait deadline ((status, now) # polls) =
     (if status AND 0x8000 \<noteq> 0 then Some (Inr ())
      else if status AND 0x00400000 \<noteq> 0 then Some (Inl ())
      else if now \<ge> deadline then Some (Inl ())
      else tx_wait deadline polls)"

definition rtl_send ::
    "(nat \<Rightarrow> u32) \<Rightarrow> u64 \<Rightarrow> (u32 \<times> u64) list \<Rightarrow> u8 list \<Rightarrow> rtl
      \<Rightarrow> (unit + unit) option \<times> io_write list \<times> rtl" where
  "rtl_send buf_addr start polls frame s =
     (if \<not> rtl_initialized s then (Some (Inl ()), [], s)
      else if length frame > 1514 then (Some (Inl ()), [], s)
      else
        let io = io_base s; desc = unat (tx_desc s) mod 4; (tsd, tsad) = tx_registers desc in
        (tx_wait (start + 100) polls,
         [OutW (io + 0x3E) 0xFFFF, OutL (io + tsad) (buf_addr desc),
          OutL (io + tsd) (of_nat (length frame)), OutB (io + 0xD9) 0x40],
         s\<lparr>tx_desc := tx_desc s + 1,
           tx_bufs := (tx_bufs s)[desc := patch (tx_bufs s ! desc) 0 frame]\<rparr>))"

definition rtl_ok :: "rtl \<Rightarrow> bool" where
  "rtl_ok s \<longleftrightarrow> length (tx_bufs s) = 4 \<and> (\<forall>b \<in> set (tx_bufs s). length b = 1514)"

lemma tx_wait_returns: "\<exists>(st, now) \<in> set polls. now \<ge> deadline \<Longrightarrow> tx_wait deadline polls \<noteq> None"
  by (induction deadline polls rule: tx_wait.induct) auto

subsection \<open>Reception\<close>

text \<open>\<open>rx_volatile_u16\<close> with the pointer as an offset into the ring.\<close>

definition rx_volatile_u16 :: "u8 list \<Rightarrow> nat \<Rightarrow> u16" where
  "rx_volatile_u16 ring off =
     (if off + 1 \<ge> RX_BUF_SIZE then 0 else of_le16 (ring ! off) (ring ! (off + 1)))"

definition rx_copy :: "u8 list \<Rightarrow> nat \<Rightarrow> nat \<Rightarrow> u8 list" where
  "rx_copy ring data_start actual_size =
     (if data_start + actual_size \<le> RX_BUF_SIZE
      then map (\<lambda>i. ring ! (data_start + i)) [0..<actual_size]
      else let first = RX_BUF_SIZE - data_start in
        map (\<lambda>i. ring ! (data_start + i)) [0..<first] @ map (\<lambda>i. ring ! i) [0..<actual_size - first])"

definition rx_next :: "nat \<Rightarrow> nat \<Rightarrow> nat" where
  "rx_next capr pkt_size =
     (let nxt = 4 * ((capr + 4 + pkt_size + 3) div 4) in if nxt \<ge> RX_BUF_SIZE then 0 else nxt)"

definition rtl_poll_rx :: "u8 list \<Rightarrow> u16 \<Rightarrow> u16 \<Rightarrow> rtl \<Rightarrow> u8 list option \<times> io_write list" where
  "rtl_poll_rx ring capr cbr s =
     (if \<not> rtl_initialized s then (None, [])
      else if capr = cbr then (None, [])
      else
        let pkt_size = unat (rx_volatile_u16 ring (unat capr + 2)) in
        if pkt_size < 4 \<or> pkt_size > 1518 + 4 then (None, [OutW (io_base s + 0x38) cbr])
        else (Some (rx_copy ring (unat capr + 4) (pkt_size - 4)),
              [OutW (io_base s + 0x38) (of_nat (rx_next (unat capr) pkt_size))]))"

lemma rx_copy_circular:
  assumes "a \<le> RX_BUF_SIZE" "k \<le> RX_BUF_SIZE"
  shows "rx_copy ring a k = map (\<lambda>i. ring ! ((a + i) mod RX_BUF_SIZE)) [0..<k]"
proof (cases "a + k \<le> RX_BUF_SIZE")
  case True
  then show ?thesis by (simp add: rx_copy_def)
next
  case False
  have "(a + i) mod RX_BUF_SIZE = i - (RX_BUF_SIZE - a)" if "\<not> i < RX_BUF_SIZE - a" "i < k" for i
    using that assms by (simp add: le_mod_geq)
  then show ?thesis
    using False assms by (intro nth_equalityI) (auto simp: rx_copy_def Let_def nth_append)
qed

lemma rx_next_range: "rx_next c p < RX_BUF_SIZE" "4 dvd rx_next c p"
  by (simp_all add: rx_next_def Let_def RX_BUF_SIZE_def)

text \<open>C22. A poll of an initialised NIC that finds a packet of a legal size in the ring returns
  exactly its bytes, read circularly from behind the four byte header and without the four
  bytes of CRC, and moves CAPR to a four byte aligned offset inside the ring; every index read
  is inside the ring.\<close>

theorem poll_rx_reads_packet:
  assumes "rtl_initialized s" "length ring = RX_BUF_SIZE" "capr \<noteq> cbr"
    and "unat capr + 4 \<le> RX_BUF_SIZE"
    and "n = unat (of_le16 (ring ! (unat capr + 2)) (ring ! (unat capr + 3)))" "4 \<le> n" "n \<le> 1522"
  shows "\<exists>c. rtl_poll_rx ring capr cbr s =
      (Some (map (\<lambda>i. ring ! ((unat capr + 4 + i) mod RX_BUF_SIZE)) [0..<n - 4]),
       [OutW (io_base s + 0x38) c]) \<and> unat c < RX_BUF_SIZE \<and> 4 dvd unat c"
proof -
  have size: "unat (rx_volatile_u16 ring (unat capr + 2)) = n"
    using assms(4,5) by (simp add: rx_volatile_u16_def numeral_eq_Suc)
  have copy: "rx_copy ring (unat capr + 4) (n - 4)
      = map (\<lambda>i. ring ! ((unat capr + 4 + i) mod RX_BUF_SIZE)) [0..<n - 4]"
    using assms(4,7) by (intro rx_copy_circular) (simp_all add: RX_BUF_SIZE_def)
  have "unat (of_nat (rx_next (unat capr) n) :: u16) = rx_next (unat capr) n"
    using rx_next_range(1) [of "unat capr" n]
    by (simp add: RX_BUF_SIZE_def unsigned_of_nat take_bit_nat_eq_self)
  then show ?thesis
    using assms(1,3,6,7) rx_next_range [of "unat capr" n]
    by (simp only: rtl_poll_rx_def Let_def size copy) simp
qed

theorem poll_rx_reads_packet_witness:
  "\<exists>c. rtl_poll_rx ([1, 0, 8, 0, 0xAA, 0xBB, 0xCC, 0xDD] @ replicate 8200 0) 0 12
        \<lparr>rtl_initialized = True, io_base = 0xC000, tx_bufs = replicate 4 (replicate 1514 0), tx_desc = 0\<rparr>
      = (Some [0xAA, 0xBB, 0xCC, 0xDD], [OutW (0xC000 + 0x38) c])
    \<and> unat c < RX_BUF_SIZE \<and> 4 dvd unat c"
proof -
  let ?s = "\<lparr>rtl_initialized = True, io_base = 0xC000, tx_bufs = replicate 4 (replicate 1514 0), tx_desc = 0\<rparr> :: rtl"
  let ?ring = "[1, 0, 8, 0, 0xAA, 0xBB, 0xCC, 0xDD] @ replicate 8200 0 :: u8 list"
  have data: "map (\<lambda>i. ?ring ! ((unat (0 :: u16) + 4 + i) mod RX_BUF_SIZE)) [0..<8 - 4] = [0xAA, 0xBB, 0xCC, 0xDD]"
    by (simp add: RX_BUF_SIZE_def upt_rec)
  have size: "8 = unat (of_le16 (?ring ! (unat (0 :: u16) + 2)) (?ring ! (unat (0 :: u16) + 3)))"
    by (simp add: of_le16_def unat_of_be16)
  have "length ?ring = RX_BUF_SIZE" by (simp add: RX_BUF_SIZE_def)
  from poll_rx_reads_packet [OF _ this _ _ size, of ?s 12] show ?thesis
    unfolding data by (simp add: RX_BUF_SIZE_def)
qed

text \<open>A transmission of a frame that fits leaves the frame in the buffer of its descriptor and
  programs that descriptor with its address and length; the descriptors take turns.\<close>

lemma rtl_send_programs:
  assumes "rtl_ok s" "rtl_initialized s" "length frame \<le> 1514" "unat (tx_desc s) mod 4 = d"
    and "rtl_send addr start polls frame s = (r, ws, s')"
  shows "rtl_ok s' \<and> take (length frame) (tx_bufs s' ! d) = frame
    \<and> (\<forall>e < 4. e \<noteq> d \<longrightarrow> tx_bufs s' ! e = tx_bufs s ! e)
    \<and> OutL (io_base s + snd (tx_registers d)) (addr d) \<in> set ws
    \<and> OutL (io_base s + fst (tx_registers d)) (of_nat (length frame)) \<in> set ws
    \<and> r = tx_wait (start + 100) polls"
proof -
  have d: "d < 4" using assms(4) by auto
  have b: "length (tx_bufs s ! d) = 1514" "length (tx_bufs s) = 4"
    using assms(1) d by (auto simp: rtl_ok_def)
  have "length (patch (tx_bufs s ! d) 0 frame) = 1514" using b assms(3) by simp
  moreover have "take (length frame) (patch (tx_bufs s ! d) 0 frame) = frame"
    by (simp add: patch_def)
  ultimately show ?thesis
    using assms b d set_update_subset_insert [of "tx_bufs s" d "patch (tx_bufs s ! d) 0 frame"]
    by (auto simp: rtl_send_def rtl_ok_def Let_def split: prod.splits)
qed

lemma tx_desc_rotates:
  "rtl_initialized s \<Longrightarrow> length frame \<le> 1514 \<Longrightarrow> rtl_send addr start polls frame s = (r, ws, s') \<Longrightarrow>
   unat (tx_desc s') mod 4 = (unat (tx_desc s) + 1) mod 4"
proof -
  have "(unat (tx_desc s) + 1) mod 256 mod 4 = (unat (tx_desc s) + 1) mod 4"
    by (rule mod_mod_cancel) simp
  then show "rtl_initialized s \<Longrightarrow> length frame \<le> 1514 \<Longrightarrow> rtl_send addr start polls frame s = (r, ws, s') \<Longrightarrow> ?thesis"
    by (auto simp: rtl_send_def Let_def unat_word_ariths split: prod.splits)
qed

section \<open>The active NIC and the network configuration\<close>

datatype NicKind = NicNone | E1000 | Rtl8139

record NetStatus =
  nic_kind :: NicKind
  link_up :: bool
  nic_mac :: "u8 list"
  nic_pci :: "PciDevice option"

record NetConfig =
  cfg_ip :: "u8 list"
  cfg_subnet :: "u8 list"
  cfg_gateway :: "u8 list"
  cfg_dns :: "u8 list"

definition e1000_default_mac :: "u8 list" where
  "e1000_default_mac = [0x52, 0x54, 0x00, 0x12, 0x34, 0x56]"

text \<open>\<open>net_init\<close>: what the RTL8139 answers during its reset is passed on to \<open>rtl_init\<close>. The
  result is the new status (\<open>None\<close> when the status is left as it was), the port writes and the
  driver state; the whole is \<open>None\<close> while the chip resets.\<close>

definition net_init ::
    "(u32 \<Rightarrow> u32) \<Rightarrow> u8 list \<Rightarrow> u32 \<Rightarrow> u16 \<Rightarrow> u32 \<Rightarrow> u16 \<Rightarrow> rtl
      \<Rightarrow> (NetStatus option \<times> io_write list \<times> rtl) option" where
  "net_init pci cr_reads mac_low mac_high rx_addr cbr s =
     (case find_network_on_bus0 pci of
        None \<Rightarrow> Some (None, [], s)
      | Some dev \<Rightarrow>
          if vendor_id dev = 0x8086 then
            Some (Some \<lparr>nic_kind = E1000, link_up = False, nic_mac = e1000_default_mac,
                        nic_pci = Some dev\<rparr>, [], s)
          else if vendor_id dev = 0x10EC \<and> device_id dev = 0x8139 then
            (let ws = enable_bus_mastering pci dev;
                 io = ucast (read_bar pci dev 0 AND NOT 0x3) in
             case rtl_init io cr_reads mac_low mac_high rx_addr cbr s of
               None \<Rightarrow> None
             | Some (mac, ws', s') \<Rightarrow>
                 Some (Some \<lparr>nic_kind = Rtl8139, link_up = True, nic_mac = mac,
                             nic_pci = Some dev\<rparr>, ws @ ws', s'))
          else
            Some (Some \<lparr>nic_kind = NicNone, link_up = False, nic_mac = replicate 6 0,
                        nic_pci = Some dev\<rparr>, [], s))"

definition net_send ::
    "NetStatus \<Rightarrow> (nat \<Rightarrow> u32) \<Rightarrow> u64 \<Rightarrow> (u32 \<times> u64) list \<Rightarrow> u8 list \<Rightarrow> rtl
      \<Rightarrow> (unit + unit) option \<times> io_write list \<times> rtl" where
  "net_send st buf_addr start polls frame s =
     (case nic_kind st of
        Rtl8139 \<Rightarrow> rtl_send buf_addr start polls frame s
      | _ \<Rightarrow> (Some (Inl ()), [], s))"

definition net_poll_rx :: "NetStatus \<Rightarrow> u8 list \<Rightarrow> u16 \<Rightarrow> u16 \<Rightarrow> rtl \<Rightarrow> u8 list option \<times> io_write list" where
  "net_poll_rx st ring capr cbr s =
     (case nic_kind st of Rtl8139 \<Rightarrow> rtl_poll_rx ring capr cbr s | _ \<Rightarrow> (None, []))"

end
