(* ===== verification/Tcp.thy ===== *)
theory Tcp
  imports NetHeaders Nic
begin

text \<open>
  The TCP implementation of \<^verbatim>\<open>src/drivers/net/tcp.rs\<close>: segment format, connection
  table, the handlers of the ten connection states, retransmission and the periodic poll.
  A handler works on a connection and the list of frames handed to the NIC so far
  (\<open>super::send\<close> ignores what the NIC answers, so the frames are all it does). The
  configuration, the MAC address and the clock are an \<open>env\<close>; the clock does not move
  within one call, which holds the lock of the table.
\<close>

section \<open>Constants\<close>

definition MSS :: nat where "MSS = 536"
definition WINDOW :: u16 where "WINDOW = 8192"
definition RTO_MS :: u64 where "RTO_MS = 1000"
definition MAX_RETRIES :: u8 where "MAX_RETRIES = 3"
definition MAX_CONNS :: nat where "MAX_CONNS = 4"

definition FIN :: u8 where "FIN = 0x01"
definition SYN :: u8 where "SYN = 0x02"
definition RST :: u8 where "RST = 0x04"
definition PSH :: u8 where "PSH = 0x08"
definition ACK :: u8 where "ACK = 0x10"

lemmas flag_defs = FIN_def SYN_def RST_def PSH_def ACK_def

datatype TcpState = Closed | Listen | SynSent | SynReceived | Established
  | FinWait1 | FinWait2 | CloseWait | LastAck | TimeWait

section \<open>Segments\<close>

record TcpHeader =
  src_port :: u16
  dst_port :: u16
  tcp_seq :: u32
  tcp_ack :: u32
  data_offset :: u8
  tcp_flags :: u8
  tcp_window :: u16
  tcp_cksum :: u16
  tcp_urgent :: u16
  tcp_payload :: "u8 list"

definition tcp_parse :: "u8 list \<Rightarrow> TcpHeader option" where
  "tcp_parse data =
     (if length data < 20 then None
      else
        let off = drop_bit 4 (data ! 12) * 4 in
        if off < 20 \<or> unat off > length data then None
        else Some \<lparr>src_port = of_be16 (data ! 0) (data ! 1), dst_port = of_be16 (data ! 2) (data ! 3),
          tcp_seq = of_be32 (data ! 4) (data ! 5) (data ! 6) (data ! 7),
          tcp_ack = of_be32 (data ! 8) (data ! 9) (data ! 10) (data ! 11),
          data_offset = off, tcp_flags = data ! 13 AND 0x3F,
          tcp_window = of_be16 (data ! 14) (data ! 15), tcp_cksum = of_be16 (data ! 16) (data ! 17),
          tcp_urgent = of_be16 (data ! 18) (data ! 19), tcp_payload = drop (unat off) data\<rparr>)"

definition tcp_checksum :: "u8 list \<Rightarrow> u8 list \<Rightarrow> u8 list \<Rightarrow> u16" where
  "tcp_checksum sip dip segment =
     (let sum = ucast (of_be16 (sip ! 0) (sip ! 1)) + ucast (of_be16 (sip ! 2) (sip ! 3))
          + ucast (of_be16 (dip ! 0) (dip ! 1)) + ucast (of_be16 (dip ! 2) (dip ! 3))
          + 6 + of_nat (length segment)
      in NOT (ucast (ck_fold (ck_sum segment sum))))"

definition tcp_build ::
    "u16 \<Rightarrow> u16 \<Rightarrow> u32 \<Rightarrow> u32 \<Rightarrow> u8 \<Rightarrow> u16 \<Rightarrow> u8 list \<Rightarrow> u8 list \<Rightarrow> u8 list \<Rightarrow> u8 list
      \<Rightarrow> (nat \<times> u8 list) option" where
  "tcp_build sp dp seq ack flags window sip dip payload out =
     (let total = 20 + length payload in
      if length out < total then None
      else
        let out = patch out 0 (be16 sp);
            out = patch out 2 (be16 dp);
            out = patch out 4 (be32 seq);
            out = patch out 8 (be32 ack);
            out = patch out 12 [push_bit 4 5];
            out = patch out 13 [flags];
            out = patch out 14 (be16 window);
            out = patch out 16 [0, 0];
            out = patch out 18 [0, 0];
            out = patch out 20 payload;
            cksum = tcp_checksum sip dip (take total out);
            out = patch out 16 (be16 cksum)
        in Some (total, out))"

section \<open>Connections\<close>

record TcpConn =
  conn_state :: TcpState
  local_port :: u16
  remote_ip :: "u8 list"
  remote_port :: u16
  local_seq :: u32
  remote_seq :: u32
  local_ack :: u32
  send_buf :: "u8 list"
  send_len :: nat
  send_acked :: nat
  recv_buf :: "u8 list"
  recv_len :: nat
  last_tx_time :: u64
  last_tx_seq :: u32
  last_tx_len :: nat
  last_tx_flags :: u8
  last_tx_payload :: "u8 list"
  retries :: u8
  rto_ms :: u64

definition tcp_new :: TcpConn where
  "tcp_new = \<lparr>conn_state = Closed, local_port = 0, remote_ip = replicate 4 0, remote_port = 0,
     local_seq = 0, remote_seq = 0, local_ack = 0, send_buf = replicate 1024 0, send_len = 0,
     send_acked = 0, recv_buf = replicate 4096 0, recv_len = 0, last_tx_time = 0, last_tx_seq = 0,
     last_tx_len = 0, last_tx_flags = 0, last_tx_payload = replicate 536 0, retries = 0,
     rto_ms = RTO_MS\<rparr>"

definition tcp_closed :: "TcpConn \<Rightarrow> bool" where
  "tcp_closed c \<longleftrightarrow> conn_state c = Closed \<or> conn_state c = TimeWait"

definition tcp_conns_new :: "TcpConn list" where
  "tcp_conns_new = replicate MAX_CONNS tcp_new"

record env =
  env_cfg :: "NetConfig option"
  env_mac :: "u8 list"
  env_now :: u64

type_synonym io = "TcpConn \<times> u8 list list"

definition isn :: "env \<Rightarrow> u32" where
  "isn e = ucast (env_now e)"

definition seq_lt :: "u32 \<Rightarrow> u32 \<Rightarrow> bool" where
  "seq_lt a b \<longleftrightarrow> b - a < 0x80000000"

section \<open>Sending\<close>

text \<open>\<open>resolve_mac\<close> sends a request and answers the broadcast address without waiting.\<close>

definition tcp_resolve_mac :: "env \<Rightarrow> u8 list \<Rightarrow> u8 list list \<Rightarrow> u8 list \<times> u8 list list" where
  "tcp_resolve_mac e ip out =
     (replicate 6 0xFF,
      case arp_build_request (env_mac e) [10, 0, 2, 15] ip (replicate 28 0) of
        None \<Rightarrow> out
      | Some (len, arp_buf) \<Rightarrow>
          (case eth_build (replicate 6 0xFF) (env_mac e) 0x0806 (take len arp_buf) (replicate 42 0) of
             None \<Rightarrow> out
           | Some (eth_len, eth_buf) \<Rightarrow> out @ [take eth_len eth_buf]))"

definition record_tx :: "u8 \<Rightarrow> u8 list \<Rightarrow> u64 \<Rightarrow> TcpConn \<Rightarrow> TcpConn" where
  "record_tx flags payload now c =
     (if flags AND (SYN OR FIN) \<noteq> 0 \<or> payload \<noteq> [] then
        c\<lparr>last_tx_time := now, last_tx_seq := local_seq c, last_tx_len := length payload,
          last_tx_flags := flags,
          last_tx_payload := patch (last_tx_payload c) 0 (take (min (length payload) MSS) payload)\<rparr>
      else c)"

definition send_segment_raw :: "env \<Rightarrow> u8 \<Rightarrow> u8 list \<Rightarrow> io \<Rightarrow> io" where
  "send_segment_raw e flags payload = (\<lambda>(c, out).
     case env_cfg e of None \<Rightarrow> (c, out)
     | Some cfg \<Rightarrow>
         (case tcp_build (local_port c) (remote_port c) (local_seq c) (local_ack c) flags WINDOW
                 (cfg_ip cfg) (remote_ip c) payload (replicate (20 + MSS) 0) of
            None \<Rightarrow> (c, out)
          | Some (tcp_len, tcp_buf) \<Rightarrow>
              let c' = record_tx flags payload (env_now e) c in
              (case ip_build (cfg_ip cfg) (remote_ip c) 6 (of_nat tcp_len) (replicate (40 + MSS) 0) of
                 None \<Rightarrow> (c', out)
               | Some (ip_hdr_len, ip_buf) \<Rightarrow>
                   let ip_buf = patch ip_buf ip_hdr_len (take tcp_len tcp_buf);
                       (dst_mac, out) = tcp_resolve_mac e (cfg_gateway cfg) out in
                   (case eth_build dst_mac (env_mac e) 0x0800 (take (ip_hdr_len + tcp_len) ip_buf)
                           (replicate (54 + MSS) 0) of
                      None \<Rightarrow> (c', out)
                    | Some (eth_len, eth_buf) \<Rightarrow> (c', out @ [take eth_len eth_buf])))))"

definition send_segment :: "env \<Rightarrow> u8 \<Rightarrow> u8 list \<Rightarrow> io \<Rightarrow> io" where
  "send_segment e flags payload = (\<lambda>(c, out).
     let consumed = (if flags AND SYN \<noteq> 0 then 1 else 0) + (if flags AND FIN \<noteq> 0 then 1 else 0)
           + of_nat (length payload)
     in send_segment_raw e flags payload (c\<lparr>local_seq := local_seq c + consumed\<rparr>, out))"

definition flush_send :: "env \<Rightarrow> io \<Rightarrow> io" where
  "flush_send e = (\<lambda>(c, out).
     if send_len c = 0 then (c, out)
     else send_segment e (PSH OR ACK) (take (min (send_len c) MSS) (send_buf c)) (c, out))"

section \<open>The handlers\<close>

definition handle_listen :: "env \<Rightarrow> TcpHeader \<Rightarrow> io \<Rightarrow> io" where
  "handle_listen e h = (\<lambda>(c, out).
     if tcp_flags h AND SYN = 0 then (c, out)
     else send_segment e (SYN OR ACK) []
       (c\<lparr>remote_seq := tcp_seq h + 1, local_ack := tcp_seq h + 1, conn_state := SynReceived\<rparr>, out))"

definition handle_syn_sent :: "env \<Rightarrow> TcpHeader \<Rightarrow> io \<Rightarrow> io" where
  "handle_syn_sent e h = (\<lambda>(c, out).
     if tcp_flags h AND (SYN OR ACK) \<noteq> (SYN OR ACK) then (c, out)
     else if tcp_ack h \<noteq> local_seq c then (c, out)
     else flush_send e (send_segment_raw e ACK []
       (c\<lparr>remote_seq := tcp_seq h + 1, local_ack := tcp_seq h + 1, conn_state := Established,
          retries := 0, rto_ms := RTO_MS\<rparr>, out)))"

definition handle_syn_received :: "TcpHeader \<Rightarrow> io \<Rightarrow> io" where
  "handle_syn_received h = (\<lambda>(c, out).
     if tcp_flags h AND ACK = 0 then (c, out)
     else if tcp_ack h \<noteq> local_seq c then (c, out)
     else (c\<lparr>conn_state := Established, retries := 0, rto_ms := RTO_MS\<rparr>, out))"

text \<open>\<open>process_ack\<close> is the first part of \<open>handle_established\<close>, \<open>store_payload\<close> the copy into the
  receive buffer that four handlers share.\<close>

definition process_ack :: "env \<Rightarrow> TcpHeader \<Rightarrow> io \<Rightarrow> io" where
  "process_ack e h = (\<lambda>(c, out).
     let ack = tcp_ack h; acked_start = local_seq c - of_nat (send_len c) in
     if seq_lt acked_start ack \<or> ack = local_seq c then
       let acked = ack - acked_start;
           acked = (if acked > of_nat (send_len c) then of_nat (send_len c) else acked);
           c = c\<lparr>retries := 0, rto_ms := RTO_MS\<rparr>;
           a = unat acked;
           c = (if acked > 0 then c\<lparr>send_buf := patch (send_buf c) 0 (slc a (send_len c) (send_buf c)),
                                    send_len := send_len c - a\<rparr> else c)
       in flush_send e (c\<lparr>send_acked := unat ack\<rparr>, out)
     else (c, out))"

definition store_payload :: "TcpHeader \<Rightarrow> TcpConn \<Rightarrow> TcpConn" where
  "store_payload h c =
     (let n = min (length (tcp_payload h)) (length (recv_buf c) - recv_len c) in
      c\<lparr>recv_buf := patch (recv_buf c) (recv_len c) (take n (tcp_payload h)),
        recv_len := recv_len c + n,
        remote_seq := remote_seq c + of_nat (length (tcp_payload h))\<rparr>)"

definition handle_established :: "env \<Rightarrow> TcpHeader \<Rightarrow> io \<Rightarrow> io" where
  "handle_established e h io0 =
     (let fin = (\<lambda>(c, out).
            if tcp_flags h AND FIN \<noteq> 0 then
              (case send_segment_raw e ACK []
                  (c\<lparr>remote_seq := remote_seq c + 1, local_ack := remote_seq c + 1\<rparr>, out) of
                 (c, out) \<Rightarrow> (c\<lparr>conn_state := CloseWait\<rparr>, out))
            else (c, out));
          (c, out) = (if tcp_flags h AND ACK \<noteq> 0 then process_ack e h io0 else io0) in
      if tcp_payload h \<noteq> [] then
        (if tcp_seq h \<noteq> remote_seq c then send_segment_raw e ACK [] (c, out)
         else
           let c = store_payload h c
           in fin (send_segment_raw e ACK [] (c\<lparr>local_ack := remote_seq c\<rparr>, out)))
      else fin (c, out))"

definition to_time_wait :: "env \<Rightarrow> io \<Rightarrow> io" where
  "to_time_wait e = (\<lambda>(c, out).
     case send_segment_raw e ACK []
         (c\<lparr>remote_seq := remote_seq c + 1, local_ack := remote_seq c + 1\<rparr>, out) of
       (c, out) \<Rightarrow> (c\<lparr>conn_state := TimeWait, last_tx_time := env_now e\<rparr>, out))"

definition late_payload :: "TcpHeader \<Rightarrow> io \<Rightarrow> io" where
  "late_payload h = (\<lambda>(c, out).
     if tcp_payload h \<noteq> [] \<and> tcp_seq h = remote_seq c then (store_payload h c, out) else (c, out))"

definition handle_fin_wait1 :: "env \<Rightarrow> TcpHeader \<Rightarrow> io \<Rightarrow> io" where
  "handle_fin_wait1 e h = (\<lambda>(c, out).
     late_payload h
       (if tcp_flags h AND ACK \<noteq> 0 then
          (if tcp_flags h AND FIN \<noteq> 0 then to_time_wait e (c, out)
           else (c\<lparr>conn_state := FinWait2\<rparr>, out))
        else (c, out)))"

definition handle_fin_wait2 :: "env \<Rightarrow> TcpHeader \<Rightarrow> io \<Rightarrow> io" where
  "handle_fin_wait2 e h = (\<lambda>(c, out).
     late_payload h (if tcp_flags h AND FIN \<noteq> 0 then to_time_wait e (c, out) else (c, out)))"

definition handle_close_wait :: "env \<Rightarrow> TcpHeader \<Rightarrow> io \<Rightarrow> io" where
  "handle_close_wait e h = (\<lambda>(c, out).
     let (c, out) =
       (if tcp_payload h \<noteq> [] \<and> tcp_seq h = remote_seq c then
          let c = store_payload h c
          in send_segment_raw e ACK [] (c\<lparr>local_ack := remote_seq c\<rparr>, out)
        else (c, out)) in
     if tcp_flags h AND FIN \<noteq> 0
     then send_segment_raw e ACK [] (c\<lparr>local_ack := remote_seq c\<rparr>, out)
     else (c, out))"

definition handle_last_ack :: "TcpHeader \<Rightarrow> io \<Rightarrow> io" where
  "handle_last_ack h = (\<lambda>(c, out).
     if tcp_flags h AND ACK \<noteq> 0 then (c\<lparr>conn_state := Closed\<rparr>, out) else (c, out))"

definition process_segment :: "env \<Rightarrow> TcpHeader \<Rightarrow> io \<Rightarrow> io" where
  "process_segment e h = (\<lambda>(c, out).
     case conn_state c of
       Listen \<Rightarrow> handle_listen e h (c, out)
     | SynSent \<Rightarrow> handle_syn_sent e h (c, out)
     | SynReceived \<Rightarrow> handle_syn_received h (c, out)
     | Established \<Rightarrow> handle_established e h (c, out)
     | FinWait1 \<Rightarrow> handle_fin_wait1 e h (c, out)
     | FinWait2 \<Rightarrow> handle_fin_wait2 e h (c, out)
     | CloseWait \<Rightarrow> handle_close_wait e h (c, out)
     | LastAck \<Rightarrow> handle_last_ack h (c, out)
     | _ \<Rightarrow> (c, out))"

section \<open>The connection table\<close>

fun position :: "('a \<Rightarrow> bool) \<Rightarrow> 'a list \<Rightarrow> nat option" where
  "position p [] = None"
| "position p (x # xs) = (if p x then Some 0 else map_option Suc (position p xs))"

definition tcp_listen :: "env \<Rightarrow> u16 \<Rightarrow> TcpConn list \<Rightarrow> (string + unit) \<times> TcpConn list" where
  "tcp_listen e port cs =
     (case position (\<lambda>c. conn_state c = Closed) cs of
        None \<Rightarrow> (Inl ''no free connection slots'', cs)
      | Some i \<Rightarrow> (Inr (), cs[i := (cs ! i)\<lparr>conn_state := Listen, local_port := port,
            remote_ip := replicate 4 0, remote_port := 0, local_seq := isn e, remote_seq := 0,
            local_ack := 0\<rparr>]))"

definition tcp_connect ::
    "env \<Rightarrow> u16 \<Rightarrow> u8 list \<Rightarrow> u16 \<Rightarrow> TcpConn list \<Rightarrow> (string + nat) \<times> TcpConn list \<times> u8 list list" where
  "tcp_connect e lport rip rport cs =
     (case position (\<lambda>c. conn_state c = Closed) cs of
        None \<Rightarrow> (Inl ''no free connection slots'', cs, [])
      | Some i \<Rightarrow>
          (case send_segment e SYN [] ((cs ! i)\<lparr>conn_state := SynSent, local_port := lport,
               remote_ip := rip, remote_port := rport, local_seq := isn e, remote_seq := 0,
               local_ack := 0, retries := 0, rto_ms := RTO_MS\<rparr>, []) of
             (c, out) \<Rightarrow> (Inr i, cs[i := c], out)))"

definition tcp_send :: "env \<Rightarrow> nat \<Rightarrow> u8 list \<Rightarrow> TcpConn list \<Rightarrow> (string + nat) \<times> TcpConn list \<times> u8 list list" where
  "tcp_send e idx data cs =
     (if idx \<ge> length cs then (Inl ''invalid connection index'', cs, [])
      else
        let c = cs ! idx in
        if conn_state c \<noteq> Established \<and> conn_state c \<noteq> CloseWait
        then (Inl ''connection not established'', cs, [])
        else
          let to_copy = min (length data) (length (send_buf c) - send_len c) in
          if to_copy = 0 then (Inl ''send buffer full'', cs, [])
          else
            (case flush_send e (c\<lparr>send_buf := patch (send_buf c) (send_len c) (take to_copy data),
                                  send_len := send_len c + to_copy\<rparr>, []) of
               (c, out) \<Rightarrow> (Inr to_copy, cs[idx := c], out)))"

definition recv_conn :: "nat \<Rightarrow> TcpConn \<Rightarrow> u8 list \<times> TcpConn" where
  "recv_conn buf_len c =
     (if recv_len c = 0 then ([], c)
      else
        let n = min (recv_len c) buf_len;
            bytes = take n (recv_buf c);
            c = (if n < recv_len c
                 then c\<lparr>recv_buf := patch (recv_buf c) 0 (slc n (recv_len c) (recv_buf c))\<rparr> else c)
        in (bytes, c\<lparr>recv_len := recv_len c - n\<rparr>))"

definition tcp_recv :: "nat \<Rightarrow> nat \<Rightarrow> TcpConn list \<Rightarrow> (string + u8 list) \<times> TcpConn list" where
  "tcp_recv idx buf_len cs =
     (if idx \<ge> length cs then (Inl ''invalid connection index'', cs)
      else (case recv_conn buf_len (cs ! idx) of (bytes, c) \<Rightarrow> (Inr bytes, cs[idx := c])))"

definition close_conn :: "env \<Rightarrow> io \<Rightarrow> (string + unit) \<times> io" where
  "close_conn e = (\<lambda>(c, out).
     case conn_state c of
       Established \<Rightarrow>
         (case flush_send e (c, out) of
            (c, out) \<Rightarrow> (Inr (), send_segment e (FIN OR ACK) [] (c\<lparr>conn_state := FinWait1\<rparr>, out)))
     | CloseWait \<Rightarrow> (Inr (), send_segment e (FIN OR ACK) [] (c\<lparr>conn_state := LastAck\<rparr>, out))
     | _ \<Rightarrow> (Inl ''connection not in closable state'', (c, out)))"

definition tcp_close :: "env \<Rightarrow> nat \<Rightarrow> TcpConn list \<Rightarrow> (string + unit) \<times> TcpConn list \<times> u8 list list" where
  "tcp_close e idx cs =
     (if idx \<ge> length cs then (Inl ''invalid connection index'', cs, [])
      else (case close_conn e (cs ! idx, []) of (r, c, out) \<Rightarrow> (r, cs[idx := c], out)))"

definition tcp_status :: "nat \<Rightarrow> TcpConn list \<Rightarrow> string + (TcpState \<times> u16 \<times> u8 list \<times> u16 \<times> nat)" where
  "tcp_status idx cs =
     (if idx \<ge> length cs then Inl ''invalid connection index''
      else let c = cs ! idx in
        Inr (conn_state c, local_port c, remote_ip c, remote_port c, recv_len c))"

definition tcp_list :: "TcpConn list \<Rightarrow> (nat \<times> TcpState \<times> u16 \<times> u8 list \<times> u16) list" where
  "tcp_list cs =
     map (\<lambda>(i, c). (i, conn_state c, local_port c, remote_ip c, remote_port c))
       (filter (\<lambda>(i, c). \<not> tcp_closed c) (enumerate 0 cs))"

section \<open>Reception\<close>

definition matches_conn :: "u8 list \<Rightarrow> TcpHeader \<Rightarrow> TcpConn \<Rightarrow> bool" where
  "matches_conn sip h c \<longleftrightarrow> conn_state c \<noteq> Closed \<and> conn_state c \<noteq> TimeWait
     \<and> local_port c = dst_port h
     \<and> (remote_ip c = replicate 4 0 \<or> remote_ip c = sip)
     \<and> (remote_port c = 0 \<or> remote_port c = src_port h)"

definition adopt_peer :: "u8 list \<Rightarrow> TcpHeader \<Rightarrow> TcpConn \<Rightarrow> TcpConn" where
  "adopt_peer sip h c =
     (let c = (if remote_ip c = replicate 4 0 then c\<lparr>remote_ip := sip\<rparr> else c)
      in if remote_port c = 0 then c\<lparr>remote_port := src_port h\<rparr> else c)"

definition receive_conn :: "env \<Rightarrow> u8 list \<Rightarrow> TcpHeader \<Rightarrow> TcpConn \<Rightarrow> io" where
  "receive_conn e sip h c =
     (if tcp_flags h AND RST \<noteq> 0 then (tcp_new, [])
      else process_segment e h (adopt_peer sip h c, []))"

definition tcp_receive :: "env \<Rightarrow> u8 list \<Rightarrow> u8 list \<Rightarrow> TcpConn list \<Rightarrow> TcpConn list \<times> u8 list list" where
  "tcp_receive e sip data cs =
     (case tcp_parse data of
        None \<Rightarrow> (cs, [])
      | Some h \<Rightarrow>
          (case position (matches_conn sip h) cs of
             None \<Rightarrow> (cs, [])
           | Some i \<Rightarrow> (case receive_conn e sip h (cs ! i) of (c, out) \<Rightarrow> (cs[i := c], out))))"

section \<open>Retransmission and the periodic poll\<close>

definition check_retransmit :: "env \<Rightarrow> io \<Rightarrow> io" where
  "check_retransmit e = (\<lambda>(c, out).
     if retries c \<ge> MAX_RETRIES
     then (tcp_new, snd (send_segment_raw e (RST OR ACK) [] (c, out)))
     else if env_now e - last_tx_time c \<ge> rto_ms c then
       (case send_segment_raw e (last_tx_flags c) (take (last_tx_len c) (last_tx_payload c)) (c, out) of
          (c, out) \<Rightarrow> (c\<lparr>retries := retries c + 1, rto_ms := rto_ms c * 2, last_tx_time := env_now e\<rparr>, out))
     else (c, out))"

definition poll_conn :: "env \<Rightarrow> io \<Rightarrow> io" where
  "poll_conn e = (\<lambda>(c, out).
     case conn_state c of
       SynSent \<Rightarrow> check_retransmit e (c, out)
     | SynReceived \<Rightarrow> check_retransmit e (c, out)
     | Established \<Rightarrow> if send_len c > 0 then flush_send e (c, out) else (c, out)
     | CloseWait \<Rightarrow> if send_len c > 0 then flush_send e (c, out) else (c, out)
     | FinWait1 \<Rightarrow> check_retransmit e (c, out)
     | LastAck \<Rightarrow> check_retransmit e (c, out)
     | TimeWait \<Rightarrow> if env_now e - last_tx_time c \<ge> 60000 then (c\<lparr>conn_state := Closed\<rparr>, out) else (c, out)
     | _ \<Rightarrow> (c, out))"

fun tcp_poll :: "env \<Rightarrow> TcpConn list \<Rightarrow> u8 list list \<Rightarrow> TcpConn list \<times> u8 list list" where
  "tcp_poll e [] out = ([], out)"
| "tcp_poll e (c # cs) out =
     (case poll_conn e (c, out) of (c', out) \<Rightarrow>
        (case tcp_poll e cs out of (cs', out) \<Rightarrow> (c' # cs', out)))"

end
