(* ===== verification/TcpStates.thy ===== *)
theory TcpStates
  imports Tcp
begin

text \<open>
  The connection table as a state machine: every operation of \<^verbatim>\<open>tcp.rs\<close> as an
  event, the transitions it may cause (the diagram of the protocol, each edge with what it
  needs), the buffer invariant, and the theorems that every event keeps to both.
\<close>

section \<open>Events\<close>

datatype tcp_event =
    EvListen u16
  | EvConnect u16 "u8 list" u16
  | EvSend nat "u8 list"
  | EvRecv nat nat
  | EvClose nat
  | EvSegment "u8 list" "u8 list"
  | EvPoll

fun tcp_step :: "env \<Rightarrow> tcp_event \<Rightarrow> TcpConn list \<Rightarrow> TcpConn list \<times> u8 list list" where
  "tcp_step e (EvListen p) cs = (snd (tcp_listen e p cs), [])"
| "tcp_step e (EvConnect lp ip rp) cs = snd (tcp_connect e lp ip rp cs)"
| "tcp_step e (EvSend i d) cs = snd (tcp_send e i d cs)"
| "tcp_step e (EvRecv i n) cs = (snd (tcp_recv i n cs), [])"
| "tcp_step e (EvClose i) cs = snd (tcp_close e i cs)"
| "tcp_step e (EvSegment sip d) cs = tcp_receive e sip d cs"
| "tcp_step e EvPoll cs = tcp_poll e cs []"

section \<open>What sending leaves alone\<close>

lemma record_tx_fields [simp]:
  "conn_state (record_tx f p t c) = conn_state c" "local_port (record_tx f p t c) = local_port c"
  "remote_ip (record_tx f p t c) = remote_ip c" "remote_port (record_tx f p t c) = remote_port c"
  "local_seq (record_tx f p t c) = local_seq c" "remote_seq (record_tx f p t c) = remote_seq c"
  "local_ack (record_tx f p t c) = local_ack c" "send_buf (record_tx f p t c) = send_buf c"
  "send_len (record_tx f p t c) = send_len c" "send_acked (record_tx f p t c) = send_acked c"
  "recv_buf (record_tx f p t c) = recv_buf c" "recv_len (record_tx f p t c) = recv_len c"
  "retries (record_tx f p t c) = retries c" "rto_ms (record_tx f p t c) = rto_ms c"
  by (simp_all add: record_tx_def)

lemma adopt_peer_fields [simp]:
  "conn_state (adopt_peer sip h c) = conn_state c" "local_seq (adopt_peer sip h c) = local_seq c"
  "remote_seq (adopt_peer sip h c) = remote_seq c" "local_port (adopt_peer sip h c) = local_port c"
  by (simp_all add: adopt_peer_def Let_def)

lemma tcp_build_fits: "tcp_build sp dp s a f w sip dip p out = Some x \<Longrightarrow> 20 + length p \<le> length out"
  by (simp add: tcp_build_def Let_def split: if_splits)

lemma send_raw_cases:
  "fst (send_segment_raw e f p io) = fst io
     \<or> fst (send_segment_raw e f p io) = record_tx f p (env_now e) (fst io) \<and> length p \<le> MSS"
  by (auto simp: send_segment_raw_def case_prod_unfold Let_def dest: tcp_build_fits split: option.splits)

lemma send_raw_fields [simp]:
  "conn_state (fst (send_segment_raw e f p io)) = conn_state (fst io)"
  "local_port (fst (send_segment_raw e f p io)) = local_port (fst io)"
  "remote_ip (fst (send_segment_raw e f p io)) = remote_ip (fst io)"
  "remote_port (fst (send_segment_raw e f p io)) = remote_port (fst io)"
  "local_seq (fst (send_segment_raw e f p io)) = local_seq (fst io)"
  "remote_seq (fst (send_segment_raw e f p io)) = remote_seq (fst io)"
  "local_ack (fst (send_segment_raw e f p io)) = local_ack (fst io)"
  "send_buf (fst (send_segment_raw e f p io)) = send_buf (fst io)"
  "send_len (fst (send_segment_raw e f p io)) = send_len (fst io)"
  "send_acked (fst (send_segment_raw e f p io)) = send_acked (fst io)"
  "recv_buf (fst (send_segment_raw e f p io)) = recv_buf (fst io)"
  "recv_len (fst (send_segment_raw e f p io)) = recv_len (fst io)"
  "retries (fst (send_segment_raw e f p io)) = retries (fst io)"
  "rto_ms (fst (send_segment_raw e f p io)) = rto_ms (fst io)"
  using send_raw_cases [of e f p io] by auto

lemma send_segment_fields [simp]:
  "conn_state (fst (send_segment e f p io)) = conn_state (fst io)"
  "remote_ip (fst (send_segment e f p io)) = remote_ip (fst io)"
  "remote_seq (fst (send_segment e f p io)) = remote_seq (fst io)"
  "local_ack (fst (send_segment e f p io)) = local_ack (fst io)"
  "send_buf (fst (send_segment e f p io)) = send_buf (fst io)"
  "send_len (fst (send_segment e f p io)) = send_len (fst io)"
  "recv_buf (fst (send_segment e f p io)) = recv_buf (fst io)"
  "recv_len (fst (send_segment e f p io)) = recv_len (fst io)"
  "retries (fst (send_segment e f p io)) = retries (fst io)"
  "rto_ms (fst (send_segment e f p io)) = rto_ms (fst io)"
  by (simp_all add: send_segment_def case_prod_unfold Let_def)

lemma flush_send_fields [simp]:
  "conn_state (fst (flush_send e io)) = conn_state (fst io)"
  "remote_ip (fst (flush_send e io)) = remote_ip (fst io)"
  "remote_seq (fst (flush_send e io)) = remote_seq (fst io)"
  "local_ack (fst (flush_send e io)) = local_ack (fst io)"
  "send_buf (fst (flush_send e io)) = send_buf (fst io)"
  "send_len (fst (flush_send e io)) = send_len (fst io)"
  "recv_buf (fst (flush_send e io)) = recv_buf (fst io)"
  "recv_len (fst (flush_send e io)) = recv_len (fst io)"
  "retries (fst (flush_send e io)) = retries (fst io)"
  "rto_ms (fst (flush_send e io)) = rto_ms (fst io)"
  by (simp_all add: flush_send_def case_prod_unfold)

lemma process_ack_fields [simp]:
  "conn_state (fst (process_ack e h io)) = conn_state (fst io)"
  "remote_ip (fst (process_ack e h io)) = remote_ip (fst io)"
  "remote_seq (fst (process_ack e h io)) = remote_seq (fst io)"
  "recv_buf (fst (process_ack e h io)) = recv_buf (fst io)"
  "recv_len (fst (process_ack e h io)) = recv_len (fst io)"
  by (simp_all add: process_ack_def case_prod_unfold Let_def)

lemma store_payload_fields [simp]:
  "conn_state (store_payload h c) = conn_state c" "remote_ip (store_payload h c) = remote_ip c"
  "local_seq (store_payload h c) = local_seq c" "send_buf (store_payload h c) = send_buf c"
  "send_len (store_payload h c) = send_len c" "retries (store_payload h c) = retries c"
  "last_tx_payload (store_payload h c) = last_tx_payload c" "last_tx_len (store_payload h c) = last_tx_len c"
  "remote_seq (store_payload h c) = remote_seq c + of_nat (length (tcp_payload h))"
  by (simp_all add: store_payload_def Let_def)

section \<open>The transitions\<close>

text \<open>\<open>tcp_edge e ev i c t\<close>: the event \<open>ev\<close> may take slot \<open>i\<close>, now \<open>c\<close>, to the state \<open>t\<close>.\<close>

inductive tcp_edge :: "env \<Rightarrow> tcp_event \<Rightarrow> nat \<Rightarrow> TcpConn \<Rightarrow> TcpState \<Rightarrow> bool" where
  passive_open: "conn_state c = Closed \<Longrightarrow> tcp_edge e (EvListen p) i c Listen"
| active_open: "conn_state c = Closed \<Longrightarrow> tcp_edge e (EvConnect lp ip rp) i c SynSent"
| syn: "conn_state c = Listen \<Longrightarrow> tcp_parse d = Some h \<Longrightarrow> matches_conn sip h c \<Longrightarrow>
    tcp_flags h AND SYN \<noteq> 0 \<Longrightarrow> tcp_edge e (EvSegment sip d) i c SynReceived"
| syn_ack: "conn_state c = SynSent \<Longrightarrow> tcp_parse d = Some h \<Longrightarrow> matches_conn sip h c \<Longrightarrow>
    tcp_flags h AND (SYN OR ACK) = SYN OR ACK \<Longrightarrow> tcp_ack h = local_seq c \<Longrightarrow>
    tcp_edge e (EvSegment sip d) i c Established"
| ack_of_syn: "conn_state c = SynReceived \<Longrightarrow> tcp_parse d = Some h \<Longrightarrow> matches_conn sip h c \<Longrightarrow>
    tcp_flags h AND ACK \<noteq> 0 \<Longrightarrow> tcp_ack h = local_seq c \<Longrightarrow>
    tcp_edge e (EvSegment sip d) i c Established"
| active_close: "conn_state c = Established \<Longrightarrow> tcp_edge e (EvClose i) i c FinWait1"
| passive_close: "conn_state c = CloseWait \<Longrightarrow> tcp_edge e (EvClose i) i c LastAck"
| fin: "conn_state c = Established \<Longrightarrow> tcp_parse d = Some h \<Longrightarrow> matches_conn sip h c \<Longrightarrow>
    tcp_flags h AND FIN \<noteq> 0 \<Longrightarrow> tcp_edge e (EvSegment sip d) i c CloseWait"
| ack_of_fin: "conn_state c = FinWait1 \<Longrightarrow> tcp_parse d = Some h \<Longrightarrow> matches_conn sip h c \<Longrightarrow>
    tcp_flags h AND ACK \<noteq> 0 \<Longrightarrow> tcp_flags h AND FIN = 0 \<Longrightarrow> tcp_edge e (EvSegment sip d) i c FinWait2"
| fin_and_ack: "conn_state c = FinWait1 \<Longrightarrow> tcp_parse d = Some h \<Longrightarrow> matches_conn sip h c \<Longrightarrow>
    tcp_flags h AND ACK \<noteq> 0 \<Longrightarrow> tcp_flags h AND FIN \<noteq> 0 \<Longrightarrow> tcp_edge e (EvSegment sip d) i c TimeWait"
| fin_after_ack: "conn_state c = FinWait2 \<Longrightarrow> tcp_parse d = Some h \<Longrightarrow> matches_conn sip h c \<Longrightarrow>
    tcp_flags h AND FIN \<noteq> 0 \<Longrightarrow> tcp_edge e (EvSegment sip d) i c TimeWait"
| last_ack: "conn_state c = LastAck \<Longrightarrow> tcp_parse d = Some h \<Longrightarrow> matches_conn sip h c \<Longrightarrow>
    tcp_flags h AND ACK \<noteq> 0 \<Longrightarrow> tcp_edge e (EvSegment sip d) i c Closed"
| reset: "tcp_parse d = Some h \<Longrightarrow> matches_conn sip h c \<Longrightarrow> tcp_flags h AND RST \<noteq> 0 \<Longrightarrow>
    tcp_edge e (EvSegment sip d) i c Closed"
| given_up: "conn_state c \<in> {SynSent, SynReceived, FinWait1, LastAck} \<Longrightarrow> MAX_RETRIES \<le> retries c \<Longrightarrow>
    tcp_edge e EvPoll i c Closed"
| time_wait_over: "conn_state c = TimeWait \<Longrightarrow> 60000 \<le> env_now e - last_tx_time c \<Longrightarrow>
    tcp_edge e EvPoll i c Closed"

inductive_simps edge_to_established: "tcp_edge e ev i c Established"
inductive_simps edge_to_closed: "tcp_edge e ev i c Closed"

subsection \<open>Segments\<close>

lemma handle_established_state:
  "conn_state (fst (handle_established e h (c, out))) =
     (if tcp_flags h AND FIN \<noteq> 0 \<and> (tcp_payload h = [] \<or> tcp_seq h = remote_seq c)
      then CloseWait else conn_state c)"
  by (simp add: handle_established_def Let_def case_prod_unfold)

lemma late_payload_state [simp]: "conn_state (fst (late_payload h io)) = conn_state (fst io)"
  by (simp add: late_payload_def case_prod_unfold)

lemma to_time_wait_state [simp]: "conn_state (fst (to_time_wait e io)) = TimeWait"
  by (simp add: to_time_wait_def case_prod_unfold)

lemma process_segment_edge:
  assumes "tcp_parse d = Some h" "matches_conn sip h c" "conn_state c' = conn_state c"
    and "local_seq c' = local_seq c" "remote_seq c' = remote_seq c"
    and t: "conn_state (fst (process_segment e h (c', out))) = t" "t \<noteq> conn_state c"
  shows "tcp_edge e (EvSegment sip d) i c t"
proof (cases "conn_state c")
  case Established
  with assms show ?thesis
    by (auto simp: process_segment_def handle_established_state intro: tcp_edge.fin split: if_splits)
qed (use assms in \<open>auto simp: process_segment_def handle_listen_def handle_syn_sent_def
      handle_syn_received_def handle_fin_wait1_def handle_fin_wait2_def handle_close_wait_def
      handle_last_ack_def case_prod_unfold Let_def intro: tcp_edge.intros split: if_splits\<close>)

lemma receive_conn_edge:
  assumes "tcp_parse d = Some h" "matches_conn sip h c"
    and t: "conn_state (fst (receive_conn e sip h c)) = t" "t \<noteq> conn_state c"
  shows "tcp_edge e (EvSegment sip d) i c t"
proof (cases "tcp_flags h AND RST = 0")
  case True
  then have "receive_conn e sip h c = process_segment e h (adopt_peer sip h c, [])"
    by (simp add: receive_conn_def)
  then show ?thesis
    using process_segment_edge [OF assms(1,2), of "adopt_peer sip h c" e "[]" t i] t by simp
next
  case False
  then have "t = Closed" using t by (simp add: receive_conn_def tcp_new_def)
  then show ?thesis using assms(1,2) False by (auto intro: tcp_edge.reset)
qed

lemma receive_conn_edge':
  "tcp_parse d = Some h \<Longrightarrow> matches_conn sip h c \<Longrightarrow>
   conn_state (fst (receive_conn e sip h c)) = conn_state c
     \<or> tcp_edge e (EvSegment sip d) i c (conn_state (fst (receive_conn e sip h c)))"
  using receive_conn_edge [OF _ _ refl] by blast

lemma position_Some: "position p xs = Some i \<Longrightarrow> i < length xs \<and> p (xs ! i) \<and> (\<forall>j < i. \<not> p (xs ! j))"
proof (induction xs arbitrary: i)
  case (Cons x xs)
  then show ?case by (auto split: if_splits simp: nth_Cons split: nat.splits)
qed simp

lemma position_None: "position p xs = None \<longleftrightarrow> (\<forall>x \<in> set xs. \<not> p x)"
  by (induction xs) auto

subsection \<open>Calls and the poll\<close>

lemma poll_conn_edge:
  assumes "conn_state (fst (poll_conn e (c, out))) \<noteq> conn_state c"
  shows "tcp_edge e EvPoll i c (conn_state (fst (poll_conn e (c, out))))"
proof -
  have "conn_state tcp_new = Closed" by (simp add: tcp_new_def)
  then show ?thesis
    using assms
    by (cases "conn_state c")
      (auto simp: poll_conn_def check_retransmit_def case_prod_unfold intro: tcp_edge.intros split: if_splits)
qed

lemma tcp_poll_nth:
  "length (fst (tcp_poll e cs out)) = length cs \<and>
   (\<forall>i < length cs. \<exists>o'. fst (tcp_poll e cs out) ! i = fst (poll_conn e (cs ! i, o')))"
proof (induction cs arbitrary: out)
  case (Cons c cs)
  then show ?case by (fastforce simp: case_prod_unfold nth_Cons split: nat.splits)
qed simp

lemma close_conn_edge:
  assumes "conn_state (fst (snd (close_conn e (c, out)))) \<noteq> conn_state c"
  shows "tcp_edge e (EvClose i) i c (conn_state (fst (snd (close_conn e (c, out)))))"
  using assms
  by (cases "conn_state c") (auto simp: close_conn_def case_prod_unfold intro: tcp_edge.intros)

lemma recv_conn_state [simp]: "conn_state (snd (recv_conn n c)) = conn_state c"
  by (simp add: recv_conn_def Let_def)

lemma step_length: "length (fst (tcp_step e ev cs)) = length cs"
  by (cases ev) (auto simp: tcp_listen_def tcp_connect_def tcp_send_def tcp_recv_def tcp_close_def
      tcp_receive_def Let_def tcp_poll_nth split: option.splits prod.splits)

lemma step_edge:
  assumes "i < length cs"
  shows "conn_state (fst (tcp_step e ev cs) ! i) = conn_state (cs ! i)
     \<or> tcp_edge e ev i (cs ! i) (conn_state (fst (tcp_step e ev cs) ! i))"
proof (cases ev)
  case (EvListen p)
  then show ?thesis
    using assms by (auto simp: tcp_listen_def nth_list_update dest!: position_Some
        intro!: tcp_edge.passive_open split: option.splits)
next
  case (EvConnect lp ip rp)
  then show ?thesis
    using assms by (auto simp: tcp_connect_def case_prod_unfold nth_list_update dest!: position_Some
        intro!: tcp_edge.active_open split: option.splits)
next
  case (EvSend j d)
  then show ?thesis
    using assms by (simp add: tcp_send_def Let_def case_prod_unfold nth_list_update)
next
  case (EvRecv j n)
  then show ?thesis
    using assms by (simp add: tcp_recv_def case_prod_unfold nth_list_update)
next
  case (EvClose j)
  then show ?thesis
    using assms close_conn_edge [of e "cs ! j" "[]"]
    by (auto simp: tcp_close_def case_prod_unfold nth_list_update)
next
  case (EvSegment sip d)
  show ?thesis
  proof (cases "\<exists>h j. tcp_parse d = Some h \<and> position (matches_conn sip h) cs = Some j")
    case True
    then obtain h j where h: "tcp_parse d = Some h" "position (matches_conn sip h) cs = Some j" by blast
    with position_Some [OF h(2)] receive_conn_edge' [OF h(1), of sip "cs ! j" e i] EvSegment show ?thesis
      by (auto simp: tcp_receive_def case_prod_unfold nth_list_update)
  next
    case False
    with EvSegment show ?thesis by (auto simp: tcp_receive_def split: option.split)
  qed
next
  case EvPoll
  then show ?thesis
    using assms tcp_poll_nth [of e cs "[]"] poll_conn_edge [of e "cs ! i"] by force
qed

text \<open>C24. The connection table follows the protocol's state diagram: whatever an event does to a
  slot of the table is either no change of its state or one edge of \<open>tcp_edge\<close>, so for example
  a connection becomes established only by a segment for it that acknowledges its own sequence
  number, and is given up only by the poll after the retries are used up.\<close>

theorem tcp_follows_diagram:
  assumes "i < length cs"
  shows "conn_state (fst (tcp_step e ev cs) ! i) = conn_state (cs ! i)
     \<or> tcp_edge e ev i (cs ! i) (conn_state (fst (tcp_step e ev cs) ! i))"
  by (rule step_edge [OF assms])

theorem tcp_follows_diagram_witness:
  "let e = \<lparr>env_cfg = None, env_mac = replicate 6 0, env_now = 7\<rparr>; cs = tcp_conns_new in
   conn_state (fst (tcp_step e (EvListen 80) cs) ! 0) = conn_state (cs ! 0)
     \<or> tcp_edge e (EvListen 80) 0 (cs ! 0) (conn_state (fst (tcp_step e (EvListen 80) cs) ! 0))"
  using tcp_follows_diagram [of 0 tcp_conns_new "\<lparr>env_cfg = None, env_mac = replicate 6 0, env_now = 7\<rparr>" "EvListen 80"]
  by (simp add: Let_def tcp_conns_new_def MAX_CONNS_def)

section \<open>The buffers\<close>

definition conn_ok :: "TcpConn \<Rightarrow> bool" where
  "conn_ok c \<longleftrightarrow> length (remote_ip c) = 4
     \<and> length (send_buf c) = 1024 \<and> send_len c \<le> 1024
     \<and> length (recv_buf c) = 4096 \<and> recv_len c \<le> 4096
     \<and> length (last_tx_payload c) = 536 \<and> last_tx_len c \<le> 536
     \<and> retries c \<le> MAX_RETRIES"

definition env_ok :: "env \<Rightarrow> bool" where
  "env_ok e \<longleftrightarrow> length (env_mac e) = 6
     \<and> (case env_cfg e of None \<Rightarrow> True
        | Some cfg \<Rightarrow> length (cfg_ip cfg) = 4 \<and> length (cfg_gateway cfg) = 4)"

text \<open>The largest frame the driver sends is a full segment.\<close>

definition io_ok :: "io \<Rightarrow> bool" where
  "io_ok io \<longleftrightarrow> conn_ok (fst io) \<and> (\<forall>f \<in> set (snd io). 14 \<le> length f \<and> length f \<le> 54 + MSS)"

lemma tcp_new_ok [wf_simps]: "conn_ok tcp_new"
  by (simp add: conn_ok_def tcp_new_def MAX_RETRIES_def)

lemma record_tx_ok [wf_simps]: "conn_ok c \<Longrightarrow> length p \<le> MSS \<Longrightarrow> conn_ok (record_tx f p t c)"
  by (simp add: conn_ok_def record_tx_def MSS_def)

lemma tcp_build_length:
  "tcp_build sp dp s a f w sip dip p out = Some (n, out') \<Longrightarrow> n = 20 + length p \<and> length out' = length out"
  by (auto simp: tcp_build_def Let_def split: if_splits)

lemma send_raw_frames:
  assumes "env_ok e" "length (remote_ip (fst io)) = 4"
  shows "\<exists>fs. snd (send_segment_raw e f p io) = snd io @ fs
    \<and> (\<forall>g \<in> set fs. 14 \<le> length g \<and> length g \<le> 54 + MSS)"
proof (cases "env_cfg e")
  case None
  then show ?thesis by (simp add: send_segment_raw_def case_prod_unfold)
next
  case (Some cfg)
  let ?c = "fst io"
  let ?tb = "tcp_build (local_port ?c) (remote_port ?c) (local_seq ?c) (local_ack ?c) f WINDOW
     (cfg_ip cfg) (remote_ip ?c) p (replicate (20 + MSS) 0)"
  show ?thesis
  proof (cases ?tb)
    case None
    with Some show ?thesis by (simp add: send_segment_raw_def case_prod_unfold)
  next
    case b: (Some x)
    obtain n buf where x: "x = (n, buf)" by (cases x)
    have n: "n = 20 + length p" "length p \<le> MSS" "length buf = 20 + MSS"
      using b x tcp_build_length tcp_build_fits by fastforce+
    have ok: "length (env_mac e) = 6" "length (cfg_ip cfg) = 4" "length (cfg_gateway cfg) = 4"
      using assms(1) Some by (auto simp: env_ok_def)
    show ?thesis
      using Some b x n ok assms(2)
      by (simp add: send_segment_raw_def case_prod_unfold ip_build_bytes eth_build_bytes
          tcp_resolve_mac_def arp_build_bytes Let_def)
  qed
qed

lemma send_raw_ok [wf_simps]:
  assumes "env_ok e" "io_ok io"
  shows "io_ok (send_segment_raw e f p io)"
proof -
  have "conn_ok (fst io)" "length (remote_ip (fst io)) = 4"
    using assms(2) by (auto simp: io_ok_def conn_ok_def)
  then show ?thesis
    using assms send_raw_cases [of e f p io] send_raw_frames [OF assms(1), of io f p]
    by (auto simp: io_ok_def record_tx_ok)
qed

text \<open>The fields the invariant does not mention.\<close>

lemma io_ok_updates [wf_simps]:
  "io_ok (c\<lparr>local_seq := x\<rparr>, out) = io_ok (c, out)"
  "io_ok (c\<lparr>remote_seq := x\<rparr>, out) = io_ok (c, out)"
  "io_ok (c\<lparr>local_ack := x\<rparr>, out) = io_ok (c, out)"
  "io_ok (c\<lparr>conn_state := st\<rparr>, out) = io_ok (c, out)"
  "io_ok (c\<lparr>send_acked := n\<rparr>, out) = io_ok (c, out)"
  "io_ok (c\<lparr>rto_ms := t\<rparr>, out) = io_ok (c, out)"
  "io_ok (c\<lparr>last_tx_time := t\<rparr>, out) = io_ok (c, out)"
  "io_ok (c\<lparr>local_port := p\<rparr>, out) = io_ok (c, out)"
  "io_ok (c\<lparr>remote_port := p\<rparr>, out) = io_ok (c, out)"
  by (simp_all add: io_ok_def conn_ok_def)

lemma io_ok_retries [wf_simps]: "io_ok (c, out) \<Longrightarrow> n \<le> MAX_RETRIES \<Longrightarrow> io_ok (c\<lparr>retries := n\<rparr>, out)"
  by (simp add: io_ok_def conn_ok_def)

lemma io_ok_ip [wf_simps]: "io_ok (c, out) \<Longrightarrow> length ip = 4 \<Longrightarrow> io_ok (c\<lparr>remote_ip := ip\<rparr>, out)"
  by (simp add: io_ok_def conn_ok_def)

lemma send_segment_ok [wf_simps]: "env_ok e \<Longrightarrow> io_ok io \<Longrightarrow> io_ok (send_segment e f p io)"
  by (simp add: send_segment_def case_prod_unfold Let_def wf_simps)

lemma flush_send_ok [wf_simps]: "env_ok e \<Longrightarrow> io_ok io \<Longrightarrow> io_ok (flush_send e io)"
  by (simp add: flush_send_def case_prod_unfold wf_simps)

lemma store_payload_ok [wf_simps]: "io_ok (c, out) \<Longrightarrow> io_ok (store_payload h c, out)"
  by (auto simp: io_ok_def conn_ok_def store_payload_def Let_def)

lemma io_ok_send_buf:
  "io_ok (c, out) \<Longrightarrow> length b = 1024 \<Longrightarrow> n \<le> 1024 \<Longrightarrow> io_ok (c\<lparr>send_buf := b, send_len := n\<rparr>, out)"
  by (simp add: io_ok_def conn_ok_def)

lemma process_ack_ok [wf_simps]:
  assumes "env_ok e" "io_ok io"
  shows "io_ok (process_ack e h io)"
proof -
  obtain c out where io: "io = (c, out)" by (cases io)
  have c: "length (send_buf c) = 1024" "send_len c \<le> 1024" using assms(2) io by (auto simp: io_ok_def conn_ok_def)
  have b: "length (patch (send_buf c) 0 (slc a (send_len c) (send_buf c))) = 1024" for a
    using c by simp
  have "io_ok (c\<lparr>retries := 0, rto_ms := RTO_MS\<rparr>, out)" using assms(2) io by (simp add: wf_simps)
  then show ?thesis
    using io assms c b
    by (simp add: process_ack_def Let_def wf_simps io_ok_send_buf)
qed

lemma to_time_wait_ok [wf_simps]: "env_ok e \<Longrightarrow> io_ok io \<Longrightarrow> io_ok (to_time_wait e io)"
  by (simp add: to_time_wait_def case_prod_unfold wf_simps)

lemma late_payload_ok [wf_simps]: "io_ok io \<Longrightarrow> io_ok (late_payload h io)"
  by (simp add: late_payload_def case_prod_unfold wf_simps)

lemma handle_established_ok: "env_ok e \<Longrightarrow> io_ok io \<Longrightarrow> io_ok (handle_established e h io)"
  by (simp add: handle_established_def case_prod_unfold Let_def wf_simps)

lemma process_segment_ok [wf_simps]:
  assumes "env_ok e" "io_ok (c, out)"
  shows "io_ok (process_segment e h (c, out))"
  using assms
  by (cases "conn_state c")
    (simp_all add: process_segment_def handle_listen_def handle_syn_sent_def handle_syn_received_def
      handle_established_ok handle_fin_wait1_def handle_fin_wait2_def handle_close_wait_def
      handle_last_ack_def Let_def case_prod_unfold wf_simps)

lemma check_retransmit_ok [wf_simps]:
  assumes "env_ok e" "io_ok io"
  shows "io_ok (check_retransmit e io)"
proof -
  have r: "\<not> MAX_RETRIES \<le> retries (fst io) \<Longrightarrow> retries (fst io) + 1 \<le> MAX_RETRIES"
    by (simp add: not_le inc_le)
  have new: "io_ok (tcp_new, snd io')" if "io_ok io'" for io'
    using that by (simp add: io_ok_def tcp_new_ok)
  show ?thesis
    using assms r by (simp add: check_retransmit_def case_prod_unfold wf_simps new)
qed

lemma poll_conn_ok [wf_simps]: "env_ok e \<Longrightarrow> io_ok io \<Longrightarrow> io_ok (poll_conn e io)"
  by (cases "conn_state (fst io)") (simp_all add: poll_conn_def case_prod_unfold wf_simps)

lemma adopt_peer_ok: "length sip = 4 \<Longrightarrow> conn_ok c \<Longrightarrow> io_ok (adopt_peer sip h c, [])"
  by (simp add: adopt_peer_def Let_def io_ok_def conn_ok_def)

lemma receive_conn_ok:
  "env_ok e \<Longrightarrow> length sip = 4 \<Longrightarrow> conn_ok c \<Longrightarrow> io_ok (receive_conn e sip h c)"
  by (simp add: receive_conn_def adopt_peer_ok wf_simps) (simp add: io_ok_def tcp_new_ok)

lemma close_conn_ok: "env_ok e \<Longrightarrow> io_ok io \<Longrightarrow> io_ok (snd (close_conn e io))"
  by (cases "conn_state (fst io)") (simp_all add: close_conn_def case_prod_unfold wf_simps)

lemma recv_conn_ok: "conn_ok c \<Longrightarrow> conn_ok (snd (recv_conn n c))"
  by (auto simp: recv_conn_def Let_def conn_ok_def)

lemma tcp_poll_ok:
  assumes "env_ok e"
  shows "\<forall>c \<in> set cs. conn_ok c \<Longrightarrow> \<forall>f \<in> set out. 14 \<le> length f \<and> length f \<le> 54 + MSS \<Longrightarrow>
    (\<forall>c \<in> set (fst (tcp_poll e cs out)). conn_ok c)
     \<and> (\<forall>f \<in> set (snd (tcp_poll e cs out)). 14 \<le> length f \<and> length f \<le> 54 + MSS)"
proof (induction cs arbitrary: out)
  case (Cons c cs)
  have "io_ok (poll_conn e (c, out))"
    using Cons.prems assms by (intro poll_conn_ok) (simp_all add: io_ok_def)
  then have head: "conn_ok (fst (poll_conn e (c, out)))"
      "\<forall>f \<in> set (snd (poll_conn e (c, out))). 14 \<le> length f \<and> length f \<le> 54 + MSS"
    by (auto simp: io_ok_def)
  have eq: "fst (tcp_poll e (c # cs) out) = fst (poll_conn e (c, out)) # fst (tcp_poll e cs (snd (poll_conn e (c, out))))"
      "snd (tcp_poll e (c # cs) out) = snd (tcp_poll e cs (snd (poll_conn e (c, out))))"
    by (simp_all add: case_prod_unfold)
  have "\<forall>c \<in> set cs. conn_ok c" using Cons.prems(1) by simp
  from Cons.IH [OF this head(2)] head(1) show ?case
    by (simp only: eq list.set ball_simps) simp
qed simp

section \<open>Every reachable table\<close>

fun ev_ok :: "tcp_event \<Rightarrow> bool" where
  "ev_ok (EvConnect lp ip rp) = (length ip = 4)"
| "ev_ok (EvSegment sip d) = (length sip = 4)"
| "ev_ok _ = True"

definition table_ok :: "TcpConn list \<Rightarrow> bool" where
  "table_ok cs \<longleftrightarrow> length cs = MAX_CONNS \<and> (\<forall>c \<in> set cs. conn_ok c)"

lemma table_ok_update [wf_simps]: "table_ok cs \<Longrightarrow> conn_ok c \<Longrightarrow> table_ok (cs[i := c])"
  by (auto simp: table_ok_def dest!: set_update_subset_insert [THEN subsetD])

lemma table_ok_nth [wf_simps]: "table_ok cs \<Longrightarrow> i < length cs \<Longrightarrow> conn_ok (cs ! i)"
  by (simp add: table_ok_def)

definition frames_ok :: "u8 list list \<Rightarrow> bool" where
  "frames_ok fs \<longleftrightarrow> (\<forall>f \<in> set fs. 14 \<le> length f \<and> length f \<le> 54 + MSS)"

lemma io_ok_iff: "io_ok (c, out) \<longleftrightarrow> conn_ok c \<and> frames_ok out"
  by (simp add: io_ok_def frames_ok_def)

lemma frames_ok_Nil [wf_simps]: "frames_ok []"
  by (simp add: frames_ok_def)

lemma io_ok_table: "table_ok cs \<Longrightarrow> io_ok io \<Longrightarrow> table_ok (cs[j := fst io]) \<and> frames_ok (snd io)"
  by (cases io) (simp add: io_ok_iff wf_simps)

lemma connect_ok:
  assumes "env_ok e" "conn_ok c" "length ip = 4"
  shows "io_ok (send_segment e SYN [] (c\<lparr>conn_state := SynSent, local_port := lp,
    remote_ip := ip, remote_port := rp, local_seq := isn e, remote_seq := 0, local_ack := 0,
    retries := 0, rto_ms := RTO_MS\<rparr>, []))"
  using assms by (intro send_segment_ok) (simp_all add: io_ok_def conn_ok_def)

lemma send_call_ok:
  assumes "env_ok e" "conn_ok c" "k = min (length d) (1024 - send_len c)"
  shows "io_ok (flush_send e (c\<lparr>send_buf := patch (send_buf c) (send_len c) (take k d),
    send_len := send_len c + k\<rparr>, []))"
  using assms by (intro flush_send_ok) (auto simp: io_ok_def conn_ok_def)

lemma tcp_step_ok:
  assumes "env_ok e" "ev_ok ev" "table_ok cs"
  shows "table_ok (fst (tcp_step e ev cs)) \<and> frames_ok (snd (tcp_step e ev cs))"
proof (cases ev)
  case (EvListen p)
  have "conn_ok (c\<lparr>conn_state := Listen, local_port := p, remote_ip := replicate 4 0, remote_port := 0,
      local_seq := isn e, remote_seq := 0, local_ack := 0\<rparr>)" if "conn_ok c" for c
    using that by (simp add: conn_ok_def)
  with EvListen assms(3) show ?thesis
    by (auto simp: tcp_listen_def wf_simps dest!: position_Some split: option.split)
next
  case (EvConnect lp ip rp)
  show ?thesis
  proof (cases "position (\<lambda>c. conn_state c = Closed) cs")
    case None
    with EvConnect assms show ?thesis by (simp add: tcp_connect_def wf_simps)
  next
    case (Some j)
    then have "conn_ok (cs ! j)" using assms(3) by (auto simp: wf_simps dest: position_Some)
    from io_ok_table [OF assms(3) connect_ok [OF assms(1) this, of ip rp lp], of j] EvConnect assms(2) Some
    show ?thesis by (simp add: tcp_connect_def case_prod_unfold)
  qed
next
  case (EvSend i d)
  have "length (send_buf c) = 1024" if "conn_ok c" for c using that by (simp add: conn_ok_def)
  with EvSend assms send_call_ok [OF assms(1) _ refl, of "cs ! i" d] show ?thesis
    by (auto simp: tcp_send_def Let_def case_prod_unfold wf_simps io_ok_def frames_ok_def)
next
  case (EvRecv i n)
  with assms show ?thesis
    by (auto simp: tcp_recv_def case_prod_unfold wf_simps recv_conn_ok)
next
  case (EvClose i)
  with assms close_conn_ok [OF assms(1), of "(cs ! i, [])"] show ?thesis
    by (auto simp: tcp_close_def case_prod_unfold wf_simps io_ok_def frames_ok_def)
next
  case (EvSegment sip d)
  show ?thesis
  proof (cases "\<exists>h j. tcp_parse d = Some h \<and> position (matches_conn sip h) cs = Some j")
    case True
    then obtain h j where h: "tcp_parse d = Some h" "position (matches_conn sip h) cs = Some j" by blast
    then have "conn_ok (cs ! j)" using assms(3) by (auto simp: wf_simps dest: position_Some)
    then have "io_ok (receive_conn e sip h (cs ! j))"
      using assms(1,2) EvSegment by (simp add: receive_conn_ok)
    from io_ok_table [OF assms(3) this, of j] h EvSegment show ?thesis
      by (simp add: tcp_receive_def case_prod_unfold)
  next
    case False
    with EvSegment assms(3) show ?thesis by (auto simp: tcp_receive_def wf_simps split: option.split)
  qed
next
  case EvPoll
  with assms tcp_poll_ok [OF assms(1), of cs "[]"] tcp_poll_nth [of e cs "[]"] show ?thesis
    by (simp add: table_ok_def frames_ok_def)
qed

inductive tcp_reach :: "TcpConn list \<Rightarrow> bool" where
  start: "tcp_reach tcp_conns_new"
| step: "tcp_reach cs \<Longrightarrow> env_ok e \<Longrightarrow> ev_ok ev \<Longrightarrow> tcp_reach (fst (tcp_step e ev cs))"

lemma tcp_reach_ok: "tcp_reach cs \<Longrightarrow> table_ok cs"
proof (induction rule: tcp_reach.induct)
  case start
  then show ?case by (simp add: tcp_conns_new_def table_ok_def tcp_new_ok)
next
  case (step cs e ev)
  then show ?case by (simp add: tcp_step_ok)
qed

text \<open>C25. In every state the connection table can reach there are four slots, all buffers have
  their declared size, the fill levels and the length of the stored segment stay inside them and
  at most three retries are counted, so no slice the handlers take is out of range; and whatever
  happens next, every frame handed to the NIC is an Ethernet frame of at most 590 bytes.\<close>

theorem tcp_table_well_formed:
  assumes "tcp_reach cs" "env_ok e" "ev_ok ev"
  shows "length cs = MAX_CONNS
    \<and> (\<forall>c \<in> set cs. length (send_buf c) = 1024 \<and> send_len c \<le> 1024 \<and> length (recv_buf c) = 4096
       \<and> recv_len c \<le> 4096 \<and> length (last_tx_payload c) = MSS \<and> last_tx_len c \<le> MSS
       \<and> retries c \<le> MAX_RETRIES)
    \<and> (\<forall>f \<in> set (snd (tcp_step e ev cs)). 14 \<le> length f \<and> length f \<le> 590)"
  using tcp_reach_ok [OF assms(1)] tcp_step_ok [OF assms(2,3) tcp_reach_ok [OF assms(1)]]
  by (auto simp: table_ok_def conn_ok_def frames_ok_def MSS_def)

theorem tcp_table_well_formed_witness:
  "list_all (\<lambda>f. 14 \<le> length f \<and> length f \<le> 590)
    (snd (tcp_step \<lparr>env_cfg = Some \<lparr>cfg_ip = [10, 0, 2, 15], cfg_subnet = [255, 255, 255, 0],
        cfg_gateway = [10, 0, 2, 2], cfg_dns = [8, 8, 8, 8]\<rparr>, env_mac = replicate 6 0, env_now = 7\<rparr>
      (EvConnect 49152 [10, 0, 2, 2] 80) tcp_conns_new))"
  using tcp_table_well_formed [of tcp_conns_new "\<lparr>env_cfg = Some \<lparr>cfg_ip = [10, 0, 2, 15],
      cfg_subnet = [255, 255, 255, 0], cfg_gateway = [10, 0, 2, 2], cfg_dns = [8, 8, 8, 8]\<rparr>,
      env_mac = replicate 6 0, env_now = 7\<rparr>" "EvConnect 49152 [10, 0, 2, 2] 80"]
  by (simp add: tcp_reach.start env_ok_def list_all_iff del: tcp_step.simps)

end
