(* ===== verification/TcpTransfer.thy ===== *)
theory TcpTransfer
  imports TcpStates
begin

text \<open>
  What the connections of \<^verbatim>\<open>tcp.rs\<close> deliver: the segments they build are the ones a
  peer parses and verifies, received data is the stream of the in-order segments, an unanswered
  open is retried and given up, and an open is not completed by the acknowledgement a conforming
  peer sends.
\<close>

section \<open>Segments\<close>

definition tcp_segment :: "u16 \<Rightarrow> u16 \<Rightarrow> u32 \<Rightarrow> u32 \<Rightarrow> u8 \<Rightarrow> u16 \<Rightarrow> u16 \<Rightarrow> u8 list \<Rightarrow> u8 list" where
  "tcp_segment sp dp seq ack flags window cksum payload =
     (be16 sp @ be16 dp @ be32 seq @ be32 ack @ [0x50, flags] @ be16 window)
       @ be16 cksum @ [0, 0] @ payload"

lemma length_tcp_segment [simp]: "length (tcp_segment sp dp s a f w c p) = 20 + length p"
  by (simp add: tcp_segment_def)

lemma tcp_build_bytes:
  assumes "20 + length payload \<le> length out"
  shows "tcp_build sp dp seq ack flags w sip dip payload out = Some (20 + length payload,
    patch out 0 (tcp_segment sp dp seq ack flags w
      (tcp_checksum sip dip (tcp_segment sp dp seq ack flags w 0 payload)) payload))"
proof -
  let ?h = "be16 sp @ be16 dp @ be32 seq @ be32 ack @ [0x50, flags] @ be16 w"
  have step: "patch (patch out 0 (?h @ [0, 0] @ [0, 0] @ payload)) 16 c = patch out 0 (?h @ c @ [0, 0] @ payload)"
    if "length c = 2" for c
    using assms that by (intro patch_patch_inside) auto
  have tk: "take (20 + length payload) (patch out 0 (?h @ [0, 0] @ [0, 0] @ payload)) = ?h @ [0, 0] @ [0, 0] @ payload"
    using assms by (intro take_patch_zero) auto
  show ?thesis
    using assms step [simplified] tk [simplified]
    by (simp add: tcp_build_def Let_def patch_append tcp_segment_def push_bit_eq_mult)
qed

lemma of_be16_zero: "of_be16 0 0 = 0"
  by (simp add: of_be16_def)

lemma tcp_parse_segment:
  "tcp_parse (tcp_segment sp dp seq ack flags w c payload) =
    Some \<lparr>src_port = sp, dst_port = dp, tcp_seq = seq, tcp_ack = ack, data_offset = 20,
      tcp_flags = flags AND 0x3F, tcp_window = w, tcp_cksum = c, tcp_urgent = 0, tcp_payload = payload\<rparr>"
  by (simp add: tcp_parse_def tcp_segment_def Let_def nth_append drop_bit_eq_div of_be16_zero)

lemma pseudo_header_sum:
  assumes "n \<le> 65535"
  shows "unat (ucast (of_be16 a b) + ucast (of_be16 c d) + ucast (of_be16 e f) + ucast (of_be16 g h)
      + 6 + of_nat n :: u32)
    = unat (of_be16 a b) + unat (of_be16 c d) + unat (of_be16 e f) + unat (of_be16 g h) + 6 + n"
proof -
  have u: "unat (ucast (x :: u16) :: u32) = unat x" for x
    using u16_less [of x] by (simp add: unsigned_ucast_eq take_bit_nat_eq_self)
  have n: "unat (of_nat n :: u32) = n" using assms by (simp add: unsigned_of_nat take_bit_nat_eq_self)
  show ?thesis
    using assms u16_less [of "of_be16 a b"] u16_less [of "of_be16 c d"] u16_less [of "of_be16 e f"]
      u16_less [of "of_be16 g h"]
    by (simp add: unat_word_ariths u n)
qed

lemma tcp_segment_verifies:
  assumes "length payload \<le> 65515"
  shows "tcp_checksum sip dip (tcp_segment sp dp seq ack flags w
    (tcp_checksum sip dip (tcp_segment sp dp seq ack flags w 0 payload)) payload) = 0"
proof -
  let ?seg = "\<lambda>c. tcp_segment sp dp seq ack flags w c payload"
  let ?pre = "be16 sp @ be16 dp @ be32 seq @ be32 ack @ [0x50, flags] @ be16 w"
  let ?ps = "ucast (of_be16 (sip ! 0) (sip ! 1)) + ucast (of_be16 (sip ! 2) (sip ! 3))
    + ucast (of_be16 (dip ! 0) (dip ! 1)) + ucast (of_be16 (dip ! 2) (dip ! 3))
    + 6 + of_nat (20 + length payload) :: u32"
  have ps: "unat ?ps < 400000"
    using assms u16_less [of "of_be16 (sip ! 0) (sip ! 1)"] u16_less [of "of_be16 (sip ! 2) (sip ! 3)"]
      u16_less [of "of_be16 (dip ! 0) (dip ! 1)"] u16_less [of "of_be16 (dip ! 2) (dip ! 3)"]
    by (subst pseudo_header_sum) simp_all
  have ws: "word_sum (?seg c) = word_sum (?seg 0) + unat c" for c
    by (simp only: tcp_segment_def word_sum_append [of ?pre] word_sum_append [of "be16 _"] word_sum_be16)
       (simp add: word_sum_append word_sum_be16 unat_of_be16)
  have "(20 + length payload + 1) div 2 \<le> 32768" using assms by simp
  then have small: "unat ?ps + word_sum (?seg c) < 2 ^ 32" for c
    using word_sum_bound [of "?seg c"] ps by simp
  have un: "unat (ck_sum (?seg c) ?ps) = unat ?ps + word_sum (?seg c)" for c
    using small [of c] by (rule unat_ck_sum)
  have ck: "tcp_checksum sip dip (?seg c) = NOT (ucast (ck_fold (ck_sum (?seg c) ?ps)))" for c
    by (simp only: tcp_checksum_def Let_def length_tcp_segment)
  show ?thesis
    unfolding ck
    by (rule checksum_verifies [where s = "ck_sum (?seg 0) ?ps"]) (simp only: un ws [of "NOT _"])
qed



section \<open>Received data\<close>

datatype rx_op = RxSegment TcpHeader | RxRead nat

text \<open>\<open>rx_run\<close>: segments arriving at a connection and reads of its buffer, with the bytes the
  reads returned. \<open>rx_spec\<close> is the same on the next expected sequence number and the bytes that
  wait: a segment counts when it starts there, what does not fit into 4096 bytes is lost.\<close>

fun rx_run :: "env \<Rightarrow> rx_op list \<Rightarrow> TcpConn \<Rightarrow> u8 list \<times> TcpConn" where
  "rx_run e [] c = ([], c)"
| "rx_run e (RxSegment h # ops) c = rx_run e ops (fst (process_segment e h (c, [])))"
| "rx_run e (RxRead n # ops) c =
     (case recv_conn n c of (bytes, c') \<Rightarrow> (case rx_run e ops c' of (bs, t) \<Rightarrow> (bytes @ bs, t)))"

fun rx_spec :: "rx_op list \<Rightarrow> u32 \<Rightarrow> u8 list \<Rightarrow> u8 list \<times> u32 \<times> u8 list" where
  "rx_spec [] nxt buf = ([], nxt, buf)"
| "rx_spec (RxSegment h # ops) nxt buf =
     (if tcp_payload h \<noteq> [] \<and> tcp_seq h = nxt
      then rx_spec ops (nxt + of_nat (length (tcp_payload h)))
             (buf @ take (4096 - length buf) (tcp_payload h))
      else rx_spec ops nxt buf)"
| "rx_spec (RxRead n # ops) nxt buf =
     (case rx_spec ops nxt (drop n buf) of (bs, r) \<Rightarrow> (take n buf @ bs, r))"

definition waiting_bytes :: "TcpConn \<Rightarrow> u8 list" where
  "waiting_bytes c = take (recv_len c) (recv_buf c)"

definition receiving :: "TcpConn \<Rightarrow> bool" where
  "receiving c \<longleftrightarrow> conn_state c = Established \<and> length (recv_buf c) = 4096 \<and> recv_len c \<le> 4096"

lemma length_waiting [simp]: "receiving c \<Longrightarrow> length (waiting_bytes c) = recv_len c"
  by (simp add: receiving_def waiting_bytes_def)

lemma waiting_store:
  assumes "receiving c" "recv_buf c' = recv_buf c" "recv_len c' = recv_len c"
  shows "waiting_bytes (store_payload h c') = waiting_bytes c @ take (4096 - recv_len c) (tcp_payload h)"
    "recv_len (store_payload h c') \<le> 4096" "length (recv_buf (store_payload h c')) = 4096"
proof -
  let ?n = "min (length (tcp_payload h)) (4096 - recv_len c)"
  have t: "take ?n (tcp_payload h) = take (4096 - recv_len c) (tcp_payload h)"
    by (simp add: min_def)
  have fit: "recv_len c + length (take ?n (tcp_payload h)) \<le> length (recv_buf c)"
    using assms(1) by (auto simp: receiving_def)
  have "take (recv_len c + ?n) (patch (recv_buf c) (recv_len c) (take ?n (tcp_payload h)))
      = take (recv_len c) (recv_buf c) @ take ?n (tcp_payload h)"
    using fit by (intro take_patch) auto
  then show "waiting_bytes (store_payload h c') = waiting_bytes c @ take (4096 - recv_len c) (tcp_payload h)"
    using assms by (simp add: store_payload_def Let_def waiting_bytes_def receiving_def t)
  show "recv_len (store_payload h c') \<le> 4096" "length (recv_buf (store_payload h c')) = 4096"
    using assms fit by (auto simp: store_payload_def Let_def receiving_def)
qed

lemma segment_received:
  assumes "receiving c" "tcp_flags h AND FIN = 0"
  shows "let c' = fst (process_segment e h (c, [])) in receiving c' \<and>
    (if tcp_payload h \<noteq> [] \<and> tcp_seq h = remote_seq c
     then remote_seq c' = remote_seq c + of_nat (length (tcp_payload h))
        \<and> waiting_bytes c' = waiting_bytes c @ take (4096 - recv_len c) (tcp_payload h)
     else remote_seq c' = remote_seq c \<and> waiting_bytes c' = waiting_bytes c)"
proof -
  have est: "conn_state c = Established" using assms(1) by (simp add: receiving_def)
  define io where "io = (if tcp_flags h AND ACK \<noteq> 0 then process_ack e h (c, []) else (c, []))"
  have same: "recv_buf (fst io) = recv_buf c" "recv_len (fst io) = recv_len c"
    "remote_seq (fst io) = remote_seq c" "conn_state (fst io) = Established"
    using est by (simp_all add: io_def)
  note st = waiting_store [OF assms(1) same(1,2), of h]
  show ?thesis
    using assms est same st
    by (simp add: process_segment_def handle_established_def io_def [symmetric] case_prod_unfold Let_def
        receiving_def waiting_bytes_def)
qed

lemma read_bytes:
  assumes "receiving c"
  shows "receiving (snd (recv_conn n c)) \<and> fst (recv_conn n c) = take n (waiting_bytes c)
    \<and> waiting_bytes (snd (recv_conn n c)) = drop n (waiting_bytes c)
    \<and> remote_seq (snd (recv_conn n c)) = remote_seq c"
proof -
  have "take (recv_len c - n) (patch (recv_buf c) 0 (slc n (recv_len c) (recv_buf c)))
      = drop n (take (recv_len c) (recv_buf c))" if "n < recv_len c"
    using that assms by (auto simp: receiving_def patch_def slc_def drop_take min_def)
  then show ?thesis
    using assms
    by (auto simp: recv_conn_def Let_def receiving_def waiting_bytes_def min_def not_less)
qed


text \<open>Two segments out of order: the second is taken only when it is sent again.\<close>

definition sample_conn :: TcpConn where
  "sample_conn = tcp_new\<lparr>conn_state := Established, remote_seq := 100\<rparr>"

definition sample_segment :: "u32 \<Rightarrow> u8 list \<Rightarrow> TcpHeader" where
  "sample_segment s p = \<lparr>src_port = 80, dst_port = 49152, tcp_seq = s, tcp_ack = 0, data_offset = 20,
     tcp_flags = 0x10, tcp_window = 0, tcp_cksum = 0, tcp_urgent = 0, tcp_payload = p\<rparr>"


section \<open>Retransmission\<close>

fun poll_run :: "env \<Rightarrow> nat list \<Rightarrow> TcpConn \<Rightarrow> TcpConn" where
  "poll_run e [] c = c"
| "poll_run e (t # ts) c = poll_run e ts (fst (poll_conn (e\<lparr>env_now := of_nat t\<rparr>) (c, [])))"

text \<open>Polls at the times \<open>ts\<close>, in milliseconds of the 32-bit tick counter, each at most \<open>g\<close>
  after the one before.\<close>

fun paced :: "nat \<Rightarrow> nat \<Rightarrow> nat list \<Rightarrow> bool" where
  "paced g now [] = True"
| "paced g now (t # ts) = (now \<le> t \<and> t \<le> now + g \<and> t < 2 ^ 32 \<and> paced g t ts)"

definition unanswered :: "TcpConn \<Rightarrow> bool" where
  "unanswered c \<longleftrightarrow> conn_state c \<in> {SynSent, SynReceived, FinWait1, LastAck}"

text \<open>After \<open>k\<close> retransmissions, the last at \<open>last\<close>.\<close>

definition retried :: "nat \<Rightarrow> nat \<Rightarrow> TcpConn \<Rightarrow> bool" where
  "retried k t c \<longleftrightarrow> unanswered c \<and> retries c = of_nat k \<and> rto_ms c = of_nat (1000 * 2 ^ k)
     \<and> last_tx_time c = of_nat t"

lemma unat_of_nat_u64: "n < 2 ^ 40 \<Longrightarrow> unat (of_nat n :: u64) = n"
  by (simp add: unsigned_of_nat take_bit_nat_eq_self)

lemma due_iff:
  assumes "t1 \<le> t" "t < 2 ^ 32" "k \<le> 3"
  shows "(of_nat t :: u64) - of_nat t1 \<ge> of_nat (1000 * 2 ^ k) \<longleftrightarrow> t1 + 1000 * 2 ^ k \<le> t"
proof -
  have "(2 :: nat) ^ k \<le> 2 ^ 3" using assms(3) by (intro power_increasing) auto
  then have k: "1000 * 2 ^ k < (2 :: nat) ^ 40" by simp
  have "(of_nat t :: u64) - of_nat t1 = of_nat (t - t1)" using assms(1) by (simp add: of_nat_diff)
  then have d: "unat ((of_nat t :: u64) - of_nat t1) = t - t1"
    using assms(2) unat_of_nat_u64 [of "t - t1"] by simp
  show ?thesis
    unfolding word_le_nat_alt d unat_of_nat_u64 [OF k] using assms(1) by linarith
qed

lemma poll_unanswered: "unanswered c \<Longrightarrow> poll_conn e (c, out) = check_retransmit e (c, out)"
  by (auto simp: unanswered_def poll_conn_def)

lemma small_retries: "k \<le> 3 \<Longrightarrow> (MAX_RETRIES \<le> (of_nat k :: u8)) \<longleftrightarrow> k = 3"
  by (auto simp: MAX_RETRIES_def word_le_nat_alt unsigned_of_nat take_bit_nat_eq_self)

lemma poll_retried:
  assumes "retried k t1 c" "k \<le> 3" "t1 \<le> t" "t < 2 ^ 32"
  shows "k = 3 \<Longrightarrow> fst (poll_conn (e\<lparr>env_now := of_nat t\<rparr>) (c, [])) = tcp_new"
    and "k < 3 \<Longrightarrow> t1 + 1000 * 2 ^ k \<le> t \<Longrightarrow>
      retried (Suc k) t (fst (poll_conn (e\<lparr>env_now := of_nat t\<rparr>) (c, [])))
      \<and> conn_state (fst (poll_conn (e\<lparr>env_now := of_nat t\<rparr>) (c, []))) = conn_state c"
    and "k < 3 \<Longrightarrow> t < t1 + 1000 * 2 ^ k \<Longrightarrow> fst (poll_conn (e\<lparr>env_now := of_nat t\<rparr>) (c, [])) = c"
  using assms due_iff [OF assms(3,4,2)] small_retries [OF assms(2)]
  by (auto simp: retried_def poll_unanswered check_retransmit_def case_prod_unfold unanswered_def
      simp del: of_nat_mult) (simp_all add: ac_simps)

lemma poll_run_closed: "poll_run e ts tcp_new = tcp_new"
  by (induction ts) (simp_all add: poll_conn_def tcp_new_def)

lemma poll_run_bounds:
  assumes "paced g now ts" "retried k t1 c" "k \<le> 3" "t1 \<le> now"
    and "k < 3 \<Longrightarrow> now < t1 + 1000 * 2 ^ k" "k = 3 \<Longrightarrow> now = t1"
    and "t0 + 1000 * (2 ^ k - 1) \<le> t1" "t1 \<le> t0 + 1000 * (2 ^ k - 1) + k * g"
  shows "(t0 + 7000 + 3 * g < last (now # ts) \<longrightarrow> poll_run e ts c = tcp_new)
    \<and> (last (now # ts) < t0 + 7000 \<longrightarrow> conn_state (poll_run e ts c) = conn_state c)"
  using assms
proof (induction ts arbitrary: now k t1 c)
  case Nil
  have "k = 0 \<or> k = 1 \<or> k = 2 \<or> k = 3" using Nil.prems(3) by auto
  then show ?case using Nil.prems by auto
next
  case (Cons t ts)
  have t: "now \<le> t" "t \<le> now + g" "t < 2 ^ 32" "paced g t ts" "t1 \<le> t" using Cons.prems by auto
  let ?c = "fst (poll_conn (e\<lparr>env_now := of_nat t\<rparr>) (c, []))"
  note step = poll_retried [OF Cons.prems(2,3) t(5,3), of e]
  have ks: "k = 0 \<or> k = 1 \<or> k = 2 \<or> k = 3" using Cons.prems(3) by auto
  have mono: "paced g a bs \<Longrightarrow> a \<le> last (a # bs)" for a bs
    by (induction g a bs rule: paced.induct) auto
  show ?case
  proof (cases "k = 3")
    case True
    then have "t0 + 7000 \<le> last (t # ts)" using mono [OF t(4)] t(1) Cons.prems by simp
    then show ?thesis using step(1) True by (simp add: poll_run_closed)
  next
    case False
    then have k: "k < 3" using Cons.prems(3) by simp
    show ?thesis
    proof (cases "t1 + 1000 * 2 ^ k \<le> t")
      case True
      have "t0 + 1000 * (2 ^ Suc k - 1) \<le> t" "t \<le> t0 + 1000 * (2 ^ Suc k - 1) + Suc k * g"
        "Suc k < 3 \<Longrightarrow> t < t + 1000 * 2 ^ Suc k"
        using ks k True Cons.prems(5,7,8) t(1,2) by auto
      from Cons.IH [OF t(4) _ _ order_refl this(3) _ this(1,2), of ?c] step(2) [OF k True] k
      show ?thesis by simp
    next
      case False
      then have "?c = c" using step(3) [OF k] by simp
      with Cons.IH [OF t(4) Cons.prems(2,3) t(5) _ _ Cons.prems(7,8)] False k show ?thesis by simp
    qed
  qed
qed



section \<open>Opening a connection\<close>

text \<open>What is sent: an ARP request, then the segment in an IPv4 packet in an Ethernet frame.\<close>

lemma send_raw_bytes:
  assumes "env_cfg e = Some cfg" "env_ok e" "length (remote_ip c) = 4" "length p \<le> MSS"
  shows "\<exists>arp eth ip ck. snd (send_segment_raw e f p (c, out)) = out @ [arp, eth @ ip
      @ tcp_segment (local_port c) (remote_port c) (local_seq c) (local_ack c) f WINDOW ck p]
    \<and> length eth = 14 \<and> length ip = 20"
proof -
  let ?ck = "tcp_checksum (cfg_ip cfg) (remote_ip c)
    (tcp_segment (local_port c) (remote_port c) (local_seq c) (local_ack c) f WINDOW 0 p)"
  let ?T = "tcp_segment (local_port c) (remote_port c) (local_seq c) (local_ack c) f WINDOW ?ck p"
  let ?t = "20 + of_nat (20 + length p) :: u16"
  let ?H = "ip_header (cfg_ip cfg) (remote_ip c) 6 ?t (checksum (ip_header (cfg_ip cfg) (remote_ip c) 6 ?t 0))"
  let ?E = "replicate 6 0xFF @ env_mac e @ be16 0x0800"
  have ok: "length (env_mac e) = 6" "length (cfg_ip cfg) = 4" "length (cfg_gateway cfg) = 4"
    using assms(1,2) by (auto simp: env_ok_def)
  have tcp: "tcp_build (local_port c) (remote_port c) (local_seq c) (local_ack c) f WINDOW
      (cfg_ip cfg) (remote_ip c) p (replicate (20 + MSS) 0) = Some (20 + length p, patch (replicate (20 + MSS) 0) 0 ?T)"
    using assms(4) by (intro tcp_build_bytes) simp
  have tk: "take (20 + length p) (patch (replicate (20 + MSS) 0) 0 ?T) = ?T"
    using assms(4) by (intro take_patch_zero) simp_all
  have ip: "ip_build (cfg_ip cfg) (remote_ip c) 6 (of_nat (20 + length p)) (replicate (40 + MSS) 0)
      = Some (20, patch (replicate (40 + MSS) 0) 0 ?H)"
    using ok assms(3) by (intro ip_build_bytes) simp_all
  have H: "length ?H = 20" using ok assms(3) by simp
  have all: "patch (patch (replicate (40 + MSS) 0) 0 ?H) 20 ?T = patch (replicate (40 + MSS) 0) 0 (?H @ ?T)"
    using H assms(4) by (intro patch_append) simp_all
  have tk2: "take (20 + (20 + length p)) (patch (replicate (40 + MSS) 0) 0 (?H @ ?T)) = ?H @ ?T"
    using H assms(4) by (intro take_patch_zero) simp_all
  have eth: "eth_build (replicate 6 0xFF) (env_mac e) 0x0800 (?H @ ?T) (replicate (54 + MSS) 0)
      = Some (14 + length (?H @ ?T), patch (replicate (54 + MSS) 0) 0 (replicate 6 0xFF @ env_mac e @ be16 0x0800 @ ?H @ ?T))"
    using ok H assms(4) by (intro eth_build_bytes) simp_all
  have tk3: "take (14 + length (?H @ ?T)) (patch (replicate (54 + MSS) 0) 0 (replicate 6 0xFF @ env_mac e @ be16 0x0800 @ ?H @ ?T))
      = ?E @ ?H @ ?T"
    using ok H assms(4) by (subst take_patch_zero) simp_all
  obtain a where arp: "tcp_resolve_mac e (cfg_gateway cfg) out = (replicate 6 0xFF, out @ [a])"
    using ok by (simp add: tcp_resolve_mac_def arp_build_bytes eth_build_bytes)
  have "snd (send_segment_raw e f p (c, out)) = (out @ [a]) @ [?E @ ?H @ ?T]"
    using assms(1) by (simp only: send_segment_raw_def split option.case tcp ip tk all tk2 eth tk3 arp Let_def snd_conv)
  then have "snd (send_segment_raw e f p (c, out)) = out @ [a, ?E @ ?H @ ?T]" by simp
  moreover have "length ?E = 14" using ok by simp
  ultimately show ?thesis
    using H by (intro exI [of _ a] exI [of _ ?E] exI [of _ ?H] exI [of _ ?ck]) (simp add: append_assoc)
qed

lemma connect_sends_syn:
  assumes "env_cfg e = Some cfg" "env_ok e" "length rip = 4"
    and "position (\<lambda>c. conn_state c = Closed) cs = Some i"
  shows "\<exists>arp eth ip ck cs'. tcp_connect e lp rip rp cs = (Inr i, cs', [arp, eth @ ip
        @ tcp_segment lp rp (isn e + 1) 0 SYN WINDOW ck []]) \<and> length eth = 14 \<and> length ip = 20
      \<and> length cs' = length cs \<and> conn_state (cs' ! i) = SynSent \<and> local_seq (cs' ! i) = isn e + 1"
proof -
  let ?c = "(cs ! i)\<lparr>conn_state := SynSent, local_port := lp, remote_ip := rip, remote_port := rp,
    local_seq := isn e, remote_seq := 0, local_ack := 0, retries := 0, rto_ms := RTO_MS\<rparr>"
  let ?d = "?c\<lparr>local_seq := isn e + 1\<rparr>"
  have seg: "send_segment e SYN [] (?c, []) = send_segment_raw e SYN [] (?d, [])"
    by (simp add: send_segment_def flag_defs)
  have i: "i < length cs" using assms(4) by (auto dest: position_Some)
  have "length (remote_ip ?d) = 4" "length ([] :: u8 list) \<le> MSS" using assms(3) by simp_all
  from send_raw_bytes [OF assms(1,2) this, of SYN "[]"] obtain arp eth ip ck
    where out: "snd (send_segment_raw e SYN [] (?d, [])) = [arp, eth @ ip
        @ tcp_segment lp rp (isn e + 1) 0 SYN WINDOW ck []]" and len: "length eth = 14" "length ip = 20"
    by auto
  have "tcp_connect e lp rip rp cs = (Inr i, cs[i := fst (send_segment_raw e SYN [] (?d, []))],
      snd (send_segment_raw e SYN [] (?d, [])))"
    using assms(4) seg by (simp add: tcp_connect_def case_prod_unfold)
  with out len i show ?thesis by auto
qed

text \<open>C29. An active open is never completed by a conforming peer: \<open>connect\<close> advances its sequence
  number before it builds the SYN, so the SYN on the wire already carries the number it will
  expect back, and every later segment that acknowledges this SYN (its sequence number plus one)
  leaves the connection in \<open>SynSent\<close>.\<close>

theorem connect_refuses_conforming_reply:
  assumes "env_cfg e = Some cfg" "env_ok e" "length rip = 4"
    and "position (\<lambda>c. conn_state c = Closed) cs = Some i"
  shows "\<exists>cs' arp frame h. tcp_connect e lp rip rp cs = (Inr i, cs', [arp, frame])
    \<and> tcp_parse (drop 34 frame) = Some h \<and> tcp_flags h = SYN \<and> src_port h = lp \<and> dst_port h = rp
    \<and> (\<forall>e' sip d r. tcp_parse d = Some r \<and> tcp_ack r = tcp_seq h + 1 \<and> tcp_flags r AND RST = 0
        \<longrightarrow> conn_state (fst (tcp_step e' (EvSegment sip d) cs') ! i) = SynSent)"
proof -
  obtain arp eth ip ck cs' where c: "tcp_connect e lp rip rp cs = (Inr i, cs', [arp, eth @ ip
        @ tcp_segment lp rp (isn e + 1) 0 SYN WINDOW ck []])" "length eth = 14" "length ip = 20"
      "length cs' = length cs" "conn_state (cs' ! i) = SynSent" "local_seq (cs' ! i) = isn e + 1"
    using connect_sends_syn [OF assms] by blast
  have i: "i < length cs'" using assms(4) c(4) by (auto dest: position_Some)
  have stay: "conn_state (fst (tcp_step e' (EvSegment sip d) cs') ! i) = SynSent"
    if "tcp_parse d = Some r" "tcp_ack r = isn e + 1 + 1" "tcp_flags r AND RST = 0" for e' sip d r
  proof -
    have "tcp_ack r \<noteq> local_seq (cs' ! i)" using that(2) c(6) by simp
    then show ?thesis
      using step_edge [OF i, of e' "EvSegment sip d"] that c(5) by (auto elim!: tcp_edge.cases)
  qed
  have "drop 34 (eth @ ip @ tcp_segment lp rp (isn e + 1) 0 SYN WINDOW ck []) = tcp_segment lp rp (isn e + 1) 0 SYN WINDOW ck []"
    using c(2,3) by simp
  then show ?thesis
    using c(1) stay by (intro exI [of _ cs'] exI [of _ arp] exI) (auto simp: tcp_parse_segment flag_defs)
qed

theorem connect_refuses_conforming_reply_witness:
  "\<exists>cs' arp frame h. tcp_connect \<lparr>env_cfg = Some \<lparr>cfg_ip = [10, 0, 2, 15], cfg_subnet = [255, 255, 255, 0],
        cfg_gateway = [10, 0, 2, 2], cfg_dns = [8, 8, 8, 8]\<rparr>, env_mac = replicate 6 1, env_now = 5\<rparr>
      49152 [10, 0, 2, 2] 80 tcp_conns_new = (Inr 0, cs', [arp, frame])
    \<and> tcp_parse (drop 34 frame) = Some h
    \<and> conn_state (fst (tcp_step \<lparr>env_cfg = None, env_mac = replicate 6 1, env_now = 6\<rparr>
        (EvSegment [10, 0, 2, 2] (tcp_segment 80 49152 9000 (tcp_seq h + 1) (SYN OR ACK) 8192 0 [])) cs') ! 0)
      = SynSent"
proof -
  let ?e = "\<lparr>env_cfg = Some \<lparr>cfg_ip = [10, 0, 2, 15], cfg_subnet = [255, 255, 255, 0],
    cfg_gateway = [10, 0, 2, 2], cfg_dns = [8, 8, 8, 8]\<rparr>, env_mac = replicate 6 1, env_now = 5\<rparr>"
  have "position (\<lambda>c. conn_state c = Closed) tcp_conns_new = Some 0"
    by (simp add: tcp_conns_new_def MAX_CONNS_def tcp_new_def numeral_eq_Suc)
  moreover have "env_ok ?e" by (simp add: env_ok_def)
  moreover have "tcp_parse (tcp_segment 80 49152 9000 a (SYN OR ACK) 8192 0 []) =
      Some \<lparr>src_port = 80, dst_port = 49152, tcp_seq = 9000, tcp_ack = a, data_offset = 20,
        tcp_flags = 0x12, tcp_window = 8192, tcp_cksum = 0, tcp_urgent = 0, tcp_payload = []\<rparr>" for a
    by (simp add: tcp_parse_segment flag_defs)
  ultimately show ?thesis
    using connect_refuses_conforming_reply [of ?e "\<lparr>cfg_ip = [10, 0, 2, 15], cfg_subnet = [255, 255, 255, 0],
      cfg_gateway = [10, 0, 2, 2], cfg_dns = [8, 8, 8, 8]\<rparr>" "[10, 0, 2, 2]" tcp_conns_new 0 49152 80]
    by (fastforce simp: RST_def)
qed

end
