(* ===== verification/NetDispatch.thy ===== *)
theory NetDispatch
  imports TcpTransfer
begin

text \<open>
  The receive path of \<^verbatim>\<open>src/drivers/net/mod.rs\<close>: \<open>poll_and_dispatch\<close> takes
  packets from the NIC until it has none (\<open>pkts\<close>, in order), unwraps those that are IPv4 for
  this host, hands TCP segments on, and ends with the TCP poll.
\<close>

definition my_ip :: "env \<Rightarrow> u8 list" where
  "my_ip e = (case env_cfg e of Some cfg \<Rightarrow> cfg_ip cfg | None \<Rightarrow> [10, 0, 2, 15])"

definition dispatch_packet :: "env \<Rightarrow> u8 list \<Rightarrow> TcpConn list \<Rightarrow> TcpConn list \<times> u8 list list" where
  "dispatch_packet e pkt cs =
     (case eth_parse pkt of
        None \<Rightarrow> (cs, [])
      | Some eth \<Rightarrow>
          if ethertype eth \<noteq> 0x0800 then (cs, [])
          else
            (case ip_parse (eth_payload eth) of
               None \<Rightarrow> (cs, [])
             | Some ip \<Rightarrow>
                 if ip_dst ip \<noteq> my_ip e \<and> ip_dst ip \<noteq> [255, 255, 255, 255] then (cs, [])
                 else if ip_protocol ip = 6 then tcp_receive e (ip_src ip) (ip_payload ip) cs
                 else (cs, [])))"

fun dispatch_all :: "env \<Rightarrow> u8 list list \<Rightarrow> TcpConn list \<Rightarrow> TcpConn list \<times> u8 list list" where
  "dispatch_all e [] cs = (cs, [])"
| "dispatch_all e (pkt # pkts) cs =
     (case dispatch_packet e pkt cs of
        (cs, out) \<Rightarrow> (case dispatch_all e pkts cs of (cs, out') \<Rightarrow> (cs, out @ out')))"

definition poll_and_dispatch :: "env \<Rightarrow> u8 list list \<Rightarrow> TcpConn list \<Rightarrow> TcpConn list \<times> u8 list list" where
  "poll_and_dispatch e pkts cs =
     (case dispatch_all e pkts cs of (cs, out) \<Rightarrow> tcp_poll e cs out)"

section \<open>What reaches TCP\<close>

text \<open>A frame as a peer sends it: the segment in an IPv4 packet that states its length, and
  behind it what fills the frame up to the minimum of Ethernet.\<close>

definition peer_frame :: "u8 list \<Rightarrow> u8 list \<Rightarrow> u8 list \<Rightarrow> u8 list \<Rightarrow> u8 list \<Rightarrow> u8 list \<Rightarrow> u8 list" where
  "peer_frame dmac smac sip dip segment pad =
     dmac @ smac @ be16 0x0800
       @ ip_header sip dip 6 (of_nat (20 + length segment))
           (checksum (ip_header sip dip 6 (of_nat (20 + length segment)) 0))
       @ segment @ pad"

lemma dispatch_peer_frame:
  assumes "length dmac = 6" "length smac = 6" "length sip = 4" "length (my_ip e) = 4"
    and "26 \<le> length (segment @ pad)"
  shows "dispatch_packet e (peer_frame dmac smac sip (my_ip e) segment pad) cs
    = tcp_receive e sip (segment @ pad) cs"
proof -
  let ?t = "of_nat (20 + length segment) :: u16"
  let ?h = "ip_header sip (my_ip e) 6 ?t (checksum (ip_header sip (my_ip e) 6 ?t 0))"
  have "eth_parse (peer_frame dmac smac sip (my_ip e) segment pad) =
      Some \<lparr>eth_dst = dmac, eth_src = smac, ethertype = 0x0800, eth_payload = ?h @ segment @ pad\<rparr>"
    unfolding peer_frame_def using assms by (intro eth_parse_frame) simp_all
  moreover have "ip_parse (?h @ segment @ pad) = Some \<lparr>ip_version = 4, ip_header_len = 20,
      ip_total_len = ?t, ip_protocol = 6, ip_src = sip, ip_dst = my_ip e, ip_payload = segment @ pad\<rparr>"
    using assms(3,4) by (rule ip_parse_header)
  ultimately show ?thesis
    by (simp only: dispatch_packet_def option.case) simp
qed

lemma segment_padding: "tcp_segment sp dp s a f w c p @ q = tcp_segment sp dp s a f w c (p @ q)"
  by (simp add: tcp_segment_def)

text \<open>C23. The length field of the IPv4 header is not used: an acknowledgement without data, whose
  packet is 40 bytes long, comes in an Ethernet frame filled up with six bytes, and these six
  bytes are stored in the receive buffer of the established connection as data of the stream
  and counted in its sequence number.\<close>

theorem padding_becomes_data:
  assumes "length dmac = 6" "length smac = 6" "length sip = 4" "length (my_ip e) = 4" "length pad = 6"
    and "segment = tcp_segment sp dp (remote_seq (cs ! i)) ack ACK w ck []"
    and "tcp_parse (segment @ pad) = Some h" "position (matches_conn sip h) cs = Some i"
    and "receiving (cs ! i)" "recv_len (cs ! i) + 6 \<le> 4096"
    and "remote_ip (cs ! i) = sip" "sip \<noteq> replicate 4 0" "remote_port (cs ! i) = sp" "sp \<noteq> 0"
  shows "let c = fst (dispatch_packet e (peer_frame dmac smac sip (my_ip e) segment pad) cs) ! i in
    waiting_bytes c = waiting_bytes (cs ! i) @ pad \<and> remote_seq c = remote_seq (cs ! i) + 6"
proof -
  have h: "h = \<lparr>src_port = sp, dst_port = dp, tcp_seq = remote_seq (cs ! i), tcp_ack = ack,
      data_offset = 20, tcp_flags = ACK, tcp_window = w, tcp_cksum = ck, tcp_urgent = 0, tcp_payload = pad\<rparr>"
    using assms(6,7) by (simp add: segment_padding tcp_parse_segment ACK_def)
  have noreset: "tcp_flags h AND RST = 0" using h by (simp add: flag_defs)
  have i: "i < length cs" using assms(8) by (auto dest: position_Some)
  have adopt: "adopt_peer sip h (cs ! i) = cs ! i" using assms(11-14) by (simp add: adopt_peer_def)
  have "fst (dispatch_packet e (peer_frame dmac smac sip (my_ip e) segment pad) cs) ! i
      = fst (receive_conn e sip h (cs ! i))"
    using dispatch_peer_frame [OF assms(1-4), of segment pad cs] assms(5-8) i
    by (simp add: tcp_receive_def case_prod_unfold)
  also have "\<dots> = fst (process_segment e h (cs ! i, []))"
    using noreset by (simp add: receive_conn_def adopt)
  finally have eq: "fst (dispatch_packet e (peer_frame dmac smac sip (my_ip e) segment pad) cs) ! i
      = fst (process_segment e h (cs ! i, []))" .
  have "pad \<noteq> []" using assms(5) by auto
  moreover have "tcp_flags h AND FIN = 0" using h by (simp add: flag_defs)
  ultimately show ?thesis
    using segment_received [OF assms(9), of h e] assms(5,10) h by (simp add: eq Let_def)
qed

theorem padding_becomes_data_witness:
  "let c = sample_conn\<lparr>local_port := 49152, remote_ip := [10, 0, 2, 2], remote_port := 80\<rparr>;
       e = \<lparr>env_cfg = None, env_mac = replicate 6 1, env_now = 5\<rparr> in
   waiting_bytes (fst (dispatch_packet e (peer_frame (replicate 6 1) (replicate 6 2) [10, 0, 2, 2] [10, 0, 2, 15]
     (tcp_segment 80 49152 100 1 ACK 8192 0 []) (replicate 6 0)) [c]) ! 0) = replicate 6 0"
proof -
  let ?c = "sample_conn\<lparr>local_port := 49152, remote_ip := [10, 0, 2, 2], remote_port := 80\<rparr>"
  let ?e = "\<lparr>env_cfg = None, env_mac = replicate 6 1, env_now = 5\<rparr>"
  let ?h = "\<lparr>src_port = 80, dst_port = 49152, tcp_seq = 100, tcp_ack = 1, data_offset = 20,
    tcp_flags = ACK AND 0x3F, tcp_window = 8192, tcp_cksum = 0, tcp_urgent = 0, tcp_payload = replicate 6 0\<rparr>"
  have seq: "remote_seq ([?c] ! 0) = 100" by (simp add: sample_conn_def)
  have parse: "tcp_parse (tcp_segment 80 49152 100 1 ACK 8192 0 [] @ replicate 6 0) = Some ?h"
    by (simp only: segment_padding tcp_parse_segment append_Nil)
  have pos: "position (matches_conn [10, 0, 2, 2] ?h) [?c] = Some 0"
    by (simp add: matches_conn_def sample_conn_def)
  have rec: "receiving ([?c] ! 0)" "waiting_bytes ?c = []"
    by (simp_all add: receiving_def waiting_bytes_def sample_conn_def tcp_new_def)
  have ne: "[10, 0, 2, 2] \<noteq> replicate 4 (0 :: u8)" by (simp add: numeral_eq_Suc)
  have ip: "my_ip ?e = [10, 0, 2, 15]" by (simp add: my_ip_def)
  have "let c = fst (dispatch_packet ?e (peer_frame (replicate 6 1) (replicate 6 2) [10, 0, 2, 2] (my_ip ?e)
      (tcp_segment 80 49152 100 1 ACK 8192 0 []) (replicate 6 0)) [?c]) ! 0 in
    waiting_bytes c = waiting_bytes ([?c] ! 0) @ replicate 6 0 \<and> remote_seq c = remote_seq ([?c] ! 0) + 6"
    by (rule padding_becomes_data [where h = ?h and sp = 80 and dp = 49152 and ack = 1 and w = 8192 and ck = 0])
      (use seq parse pos rec ip ne in \<open>simp_all add: sample_conn_def tcp_new_def del: replicate.simps\<close>)
  then show ?thesis
    by (simp only: ip Let_def nth_Cons_0 rec(2) append_Nil)
qed

end
