(* ===== verification/Dhcp.thy ===== *)
theory Dhcp
  imports NetHeaders Nic
begin

text \<open>
  The DHCP client of \<^verbatim>\<open>src/drivers/net/dhcp.rs\<close>: the messages it sends, the parsing of
  options and replies, and the transaction. The network is an argument: for each of the two
  exchanges, whether the NIC took the frame, the clock when waiting starts, and for each turn of
  the waiting loop the clock and what \<open>poll_rx\<close> returned.
\<close>

section \<open>Messages\<close>

definition DHCP_SERVER :: u16 where "DHCP_SERVER = 67"
definition DHCP_CLIENT :: u16 where "DHCP_CLIENT = 68"
definition DHCP_TIMEOUT_MS :: u64 where "DHCP_TIMEOUT_MS = 5000"
definition MAGIC_COOKIE :: "u8 list" where "MAGIC_COOKIE = [0x63, 0x82, 0x53, 0x63]"
definition DHCP_MSG_SIZE :: nat where "DHCP_MSG_SIZE = 240"

definition build_dhcp_msg ::
    "u8 \<Rightarrow> u32 \<Rightarrow> u8 list \<Rightarrow> u8 \<Rightarrow> u8 list option \<Rightarrow> u8 list option \<Rightarrow> u8 list" where
  "build_dhcp_msg op xid mac msg_type req_ip server_id =
     (let buf = [op, 1, 6, 0] @ be32 xid @ [0, 0] @ [0x80, 0]
            @ replicate 4 0 @ replicate 4 0 @ replicate 4 0 @ replicate 4 0
            @ mac @ replicate 10 0 @ replicate 64 0 @ replicate 128 0 @ MAGIC_COOKIE
            @ [53, 1, msg_type]
            @ (case req_ip of Some ip \<Rightarrow> [50, 4] @ ip | None \<Rightarrow> [])
            @ (case server_id of Some srv \<Rightarrow> [54, 4] @ srv | None \<Rightarrow> [])
            @ [55, 3, 1, 3, 6] @ [12, 2, 111, 115] @ [255]
      in buf @ replicate (DHCP_MSG_SIZE - length buf) 0)"

record dhcp_opts =
  msg_type :: u8
  opt_subnet :: "u8 list option"
  opt_gateway :: "u8 list option"
  opt_dns :: "u8 list option"
  opt_server :: "u8 list option"

definition no_opts :: dhcp_opts where
  "no_opts = \<lparr>msg_type = 0, opt_subnet = None, opt_gateway = None, opt_dns = None, opt_server = None\<rparr>"

text \<open>One option: \<open>body\<close> is its value of the stated length.\<close>

definition take_opt :: "u8 \<Rightarrow> u8 list \<Rightarrow> dhcp_opts \<Rightarrow> dhcp_opts" where
  "take_opt tag body a =
     (if tag = 53 \<and> length body = 1 then a\<lparr>msg_type := body ! 0\<rparr>
      else if tag = 54 \<and> length body = 4 then a\<lparr>opt_server := Some body\<rparr>
      else if tag = 1 \<and> length body = 4 then a\<lparr>opt_subnet := Some body\<rparr>
      else if tag = 3 \<and> length body = 4 then a\<lparr>opt_gateway := Some body\<rparr>
      else if tag = 6 \<and> length body \<ge> 4 then a\<lparr>opt_dns := Some (take 4 body)\<rparr>
      else a)"

text \<open>The loop, on what remains of the options from index \<open>i\<close> on.\<close>

function opts_loop :: "u8 list \<Rightarrow> dhcp_opts \<Rightarrow> dhcp_opts" where
  "opts_loop [] a = a"
| "opts_loop (tag # rest) a =
     (if tag = 0 then opts_loop rest a
      else if tag = 255 then a
      else
        (case rest of
           [] \<Rightarrow> a
         | len # body \<Rightarrow>
             if unat len > length body then a
             else opts_loop (drop (unat len) body) (take_opt tag (take (unat len) body) a)))"
  by pat_completeness auto
termination by (relation "measure (\<lambda>(xs, _). length xs)") auto

definition parse_dhcp_options :: "u8 list \<Rightarrow> dhcp_opts" where
  "parse_dhcp_options opts = opts_loop opts no_opts"

record dhcp_reply =
  yiaddr :: "u8 list option"
  reply_opts :: dhcp_opts

definition parse_dhcp_reply :: "u8 list \<Rightarrow> u32 \<Rightarrow> u8 list \<Rightarrow> dhcp_reply option" where
  "parse_dhcp_reply data xid mac =
     (if length data < DHCP_MSG_SIZE then None
      else if data ! 0 \<noteq> 2 then None
      else if of_be32 (data ! 4) (data ! 5) (data ! 6) (data ! 7) \<noteq> xid then None
      else if slc 28 34 data \<noteq> mac then None
      else
        let yi = slc 16 20 data; yi = (if yi \<noteq> [0, 0, 0, 0] then Some yi else None) in
        if length data < 236 + 4 then None
        else if slc 236 240 data \<noteq> MAGIC_COOKIE then None
        else Some \<lparr>yiaddr = yi, reply_opts = parse_dhcp_options (drop 240 data)\<rparr>)"

section \<open>The transaction\<close>

text \<open>What waiting ends with: an answer, the deadline, or not yet within the turns given.\<close>

datatype 'a outcome = Answer 'a | Failure | Waiting

record exchange =
  sent_ok :: bool
  wait_from :: u64
  turns :: "(u64 \<times> u8 list option) list"

definition dhcp_frame :: "u8 list \<Rightarrow> u8 list \<Rightarrow> u8 list option" where
  "dhcp_frame payload mac =
     (case udp_build DHCP_CLIENT DHCP_SERVER payload (replicate 512 0) of
        None \<Rightarrow> None
      | Some (udp_len, udp_buf) \<Rightarrow>
          (case ip_build [0, 0, 0, 0] [255, 255, 255, 255] 17 (of_nat udp_len) (replicate 532 0) of
             None \<Rightarrow> None
           | Some (ip_hdr_len, ip_buf) \<Rightarrow>
               let ip_buf = patch ip_buf ip_hdr_len (take udp_len udp_buf) in
               (case eth_build (replicate 6 0xFF) mac 0x0800 (take (ip_hdr_len + udp_len) ip_buf)
                       (replicate (14 + 532) 0) of
                  None \<Rightarrow> None
                | Some (eth_len, eth_buf) \<Rightarrow> Some (take eth_len eth_buf))))"

definition reply_in_packet :: "u8 list \<Rightarrow> u32 \<Rightarrow> u8 list \<Rightarrow> dhcp_reply option" where
  "reply_in_packet mac xid pkt =
     (case eth_parse pkt of None \<Rightarrow> None | Some eth \<Rightarrow>
        if ethertype eth \<noteq> 0x0800 then None
        else (case ip_parse (eth_payload eth) of None \<Rightarrow> None | Some ip \<Rightarrow>
          if ip_protocol ip \<noteq> 17 then None
          else (case udp_parse (ip_payload ip) of None \<Rightarrow> None | Some udp \<Rightarrow>
            if udp_dst_port udp \<noteq> DHCP_CLIENT then None
            else parse_dhcp_reply (udp_payload udp) xid mac)))"

fun await_reply :: "u64 \<Rightarrow> u8 list \<Rightarrow> u32 \<Rightarrow> (u64 \<times> u8 list option) list \<Rightarrow> dhcp_reply outcome" where
  "await_reply deadline mac xid [] = Waiting"
| "await_reply deadline mac xid ((now, rx) # rest) =
     (if \<not> now < deadline then Failure
      else (case rx of
              None \<Rightarrow> await_reply deadline mac xid rest
            | Some pkt \<Rightarrow>
                (case reply_in_packet mac xid pkt of
                   Some r \<Rightarrow> Answer r
                 | None \<Rightarrow> await_reply deadline mac xid rest)))"

definition send_and_recv ::
    "u8 list \<Rightarrow> u8 list \<Rightarrow> u32 \<Rightarrow> exchange \<Rightarrow> dhcp_reply outcome \<times> u8 list list" where
  "send_and_recv payload mac xid x =
     (case dhcp_frame payload mac of
        None \<Rightarrow> (Failure, [])
      | Some frame \<Rightarrow>
          if \<not> sent_ok x then (Failure, [frame])
          else (await_reply (wait_from x + DHCP_TIMEOUT_MS) mac xid (turns x), [frame]))"

definition or_default :: "'a option \<Rightarrow> 'a \<Rightarrow> 'a" where
  "or_default x d = (case x of Some y \<Rightarrow> y | None \<Rightarrow> d)"

definition dhcp_request ::
    "u8 list \<Rightarrow> u32 \<Rightarrow> exchange \<Rightarrow> exchange \<Rightarrow> NetConfig outcome \<times> u8 list list" where
  "dhcp_request mac xid x1 x2 =
     (case send_and_recv (build_dhcp_msg 1 xid mac 1 None None) mac xid x1 of
        (Waiting, f1) \<Rightarrow> (Waiting, f1)
      | (Failure, f1) \<Rightarrow> (Failure, f1)
      | (Answer offered, f1) \<Rightarrow>
          (case yiaddr offered of
             None \<Rightarrow> (Failure, f1)
           | Some offered_ip \<Rightarrow>
               (case send_and_recv
                   (build_dhcp_msg 1 xid mac 3 (Some offered_ip) (opt_server (reply_opts offered))) mac xid x2 of
                  (Waiting, f2) \<Rightarrow> (Waiting, f1 @ f2)
                | (Failure, f2) \<Rightarrow> (Failure, f1 @ f2)
                | (Answer acked, f2) \<Rightarrow>
                    let o2 = reply_opts acked in
                    if msg_type o2 \<noteq> 5 then (Failure, f1 @ f2)
                    else (Answer \<lparr>cfg_ip = offered_ip,
                            cfg_subnet = or_default (opt_subnet o2) [255, 255, 255, 0],
                            cfg_gateway = or_default (opt_gateway o2) [10, 0, 2, 2],
                            cfg_dns = or_default (opt_dns o2) [8, 8, 8, 8]\<rparr>, f1 @ f2))))"

section \<open>Options\<close>

text \<open>Encoded options of legal tags and sizes are all read, in order, and padding and whatever
  follows the end mark is not.\<close>

definition opt_bytes :: "(u8 \<times> u8 list) list \<Rightarrow> u8 list" where
  "opt_bytes os = concat (map (\<lambda>(tag, body). tag # of_nat (length body) # body) os)"

definition legal_opt :: "u8 \<times> u8 list \<Rightarrow> bool" where
  "legal_opt = (\<lambda>(tag, body). tag \<noteq> 0 \<and> tag \<noteq> 255 \<and> length body < 256)"

lemma opts_loop_bytes:
  "\<forall>x \<in> set os. legal_opt x \<Longrightarrow>
   opts_loop (opt_bytes os @ rest) a = opts_loop rest (fold (\<lambda>(tag, body). take_opt tag body) os a)"
proof (induction os arbitrary: a)
  case Nil
  then show ?case by (simp add: opt_bytes_def)
next
  case (Cons x os)
  obtain tag body where x: "x = (tag, body)" by (cases x)
  have len: "unat (of_nat (length body) :: u8) = length body"
    using Cons.prems x by (simp add: legal_opt_def unsigned_of_nat take_bit_nat_eq_self)
  have "opt_bytes (x # os) @ rest = tag # of_nat (length body) # body @ opt_bytes os @ rest"
    using x by (simp add: opt_bytes_def)
  then show ?case
    using Cons x len by (simp add: legal_opt_def)
qed

lemma opts_loop_padding: "opts_loop (replicate n 0 @ rest) a = opts_loop rest a"
  by (induction n) simp_all

lemma opts_loop_end: "opts_loop (255 # rest) a = a"
  by simp

section \<open>The messages sent\<close>

definition dhcp_fixed :: "u8 \<Rightarrow> u32 \<Rightarrow> u8 list \<Rightarrow> u8 list" where
  "dhcp_fixed op xid mac =
     [op, 1, 6, 0] @ be32 xid @ [0, 0, 0x80, 0] @ replicate 16 0 @ mac @ replicate 202 0 @ MAGIC_COOKIE"

definition dhcp_options_of :: "u8 \<Rightarrow> u8 list option \<Rightarrow> u8 list option \<Rightarrow> (u8 \<times> u8 list) list" where
  "dhcp_options_of t req_ip server_id =
     [(53, [t])] @ (case req_ip of Some ip \<Rightarrow> [(50, ip)] | None \<Rightarrow> [])
       @ (case server_id of Some srv \<Rightarrow> [(54, srv)] | None \<Rightarrow> []) @ [(55, [1, 3, 6]), (12, [111, 115])]"

lemma length_dhcp_fixed: "length mac = 6 \<Longrightarrow> length (dhcp_fixed op xid mac) = 240"
  by (simp add: dhcp_fixed_def MAGIC_COOKIE_def)

lemma build_dhcp_msg_bytes:
  assumes "length mac = 6" "\<forall>ip \<in> set_option req. length ip = 4" "\<forall>ip \<in> set_option srv. length ip = 4"
  shows "build_dhcp_msg op xid mac t req srv =
    dhcp_fixed op xid mac @ opt_bytes (dhcp_options_of t req srv) @ [255]"
proof -
  have r: "replicate 4 0 @ replicate 4 0 @ replicate 4 0 @ replicate 4 (0 :: u8) @ xs = replicate 16 0 @ xs"
    "replicate 10 0 @ replicate 64 0 @ replicate 128 (0 :: u8) @ xs = replicate 202 0 @ xs" for xs
    by (simp_all add: replicate_add [symmetric] append_assoc [symmetric] del: append_assoc)
  show ?thesis
    using assms
    by (simp add: build_dhcp_msg_def Let_def r dhcp_fixed_def opt_bytes_def dhcp_options_of_def
        MAGIC_COOKIE_def DHCP_MSG_SIZE_def split: option.split)
qed

lemma length_dhcp_msg:
  assumes "length mac = 6" "\<forall>ip \<in> set_option req. length ip = 4" "\<forall>ip \<in> set_option srv. length ip = 4"
  shows "length (build_dhcp_msg op xid mac t req srv) \<in> {253, 259, 265}"
  using assms
  by (auto simp: build_dhcp_msg_bytes length_dhcp_fixed opt_bytes_def dhcp_options_of_def split: option.split)

lemma own_options:
  assumes "\<forall>ip \<in> set_option req. length ip = 4" "\<forall>ip \<in> set_option srv. length ip = 4"
  shows "parse_dhcp_options (opt_bytes (dhcp_options_of t req srv) @ [255])
    = no_opts\<lparr>msg_type := t, opt_server := srv\<rparr>"
proof -
  have "\<forall>x \<in> set (dhcp_options_of t req srv). legal_opt x"
    using assms by (auto simp: dhcp_options_of_def legal_opt_def split: option.splits)
  then show ?thesis
    using assms
    by (auto simp: parse_dhcp_options_def opts_loop_bytes dhcp_options_of_def take_opt_def no_opts_def
        split: option.splits)
qed

lemma dhcp_frame_bytes:
  assumes "length mac = 6" "32 \<le> length p" "length p \<le> 504"
  shows "\<exists>ck. dhcp_frame p mac = Some (replicate 6 0xFF @ mac @ be16 0x0800
    @ ip_header [0, 0, 0, 0] [255, 255, 255, 255] 17 (20 + of_nat (8 + length p)) ck
    @ be16 DHCP_CLIENT @ be16 DHCP_SERVER @ be16 (of_nat (8 + length p)) @ [0, 0] @ p)"
proof -
  let ?U = "be16 DHCP_CLIENT @ be16 DHCP_SERVER @ be16 (of_nat (8 + length p)) @ [0, 0] @ p"
  let ?t = "20 + of_nat (8 + length p) :: u16"
  let ?ck = "checksum (ip_header [0, 0, 0, 0] [255, 255, 255, 255] 17 ?t 0)"
  let ?H = "ip_header [0, 0, 0, 0] [255, 255, 255, 255] 17 ?t ?ck"
  have U: "length ?U = 8 + length p" and H: "length ?H = 20" by simp_all
  have udp: "udp_build DHCP_CLIENT DHCP_SERVER p (replicate 512 0) = Some (8 + length p, patch (replicate 512 0) 0 ?U)"
    using assms by (intro udp_build_bytes) simp
  have tk: "take (8 + length p) (patch (replicate 512 0) 0 ?U) = ?U"
    using assms U by (intro take_patch_zero) simp_all
  have ip: "ip_build [0, 0, 0, 0] [255, 255, 255, 255] 17 (of_nat (8 + length p)) (replicate 532 0)
      = Some (20, patch (replicate 532 0) 0 ?H)"
    by (intro ip_build_bytes) simp_all
  have all: "patch (patch (replicate 532 0) 0 ?H) 20 ?U = patch (replicate 532 0) 0 (?H @ ?U)"
    using H U assms by (intro patch_append) simp_all
  have tk2: "take (20 + (8 + length p)) (patch (replicate 532 0) 0 (?H @ ?U)) = ?H @ ?U"
    using H U assms by (intro take_patch_zero) simp_all
  have eth: "eth_build (replicate 6 0xFF) mac 0x0800 (?H @ ?U) (replicate (14 + 532) 0)
      = Some (14 + length (?H @ ?U), patch (replicate (14 + 532) 0) 0 (replicate 6 0xFF @ mac @ be16 0x0800 @ ?H @ ?U))"
    using H U assms by (intro eth_build_bytes) simp_all
  have tk3: "take (14 + length (?H @ ?U)) (patch (replicate (14 + 532) 0) 0 (replicate 6 0xFF @ mac @ be16 0x0800 @ ?H @ ?U))
      = replicate 6 0xFF @ mac @ be16 0x0800 @ ?H @ ?U"
    using H U assms by (intro take_patch_zero) simp_all
  show ?thesis
    by (rule exI [of _ ?ck]) (simp only: dhcp_frame_def udp option.case split tk ip Let_def all tk2 eth tk3)
qed



section \<open>The transaction\<close>

lemma await_answer:
  "await_reply deadline mac xid ts = Answer r \<Longrightarrow>
   \<exists>now pkt. (now, Some pkt) \<in> set ts \<and> now < deadline \<and> reply_in_packet mac xid pkt = Some r"
proof (induction ts)
  case (Cons t ts)
  obtain now rx where t: "t = (now, rx)" by (cases t)
  then have now: "now < deadline" using Cons.prems by (simp split: if_splits)
  show ?case
  proof (cases "\<exists>pkt q. rx = Some pkt \<and> reply_in_packet mac xid pkt = Some q")
    case True
    then obtain pkt q where p: "rx = Some pkt" "reply_in_packet mac xid pkt = Some q" by blast
    then have "q = r" using Cons.prems now t by simp
    moreover have "(now, Some pkt) \<in> set (t # ts)" using p t by simp
    ultimately show ?thesis using p now by blast
  next
    case False
    then have "await_reply deadline mac xid ts = Answer r"
      using Cons.prems now t by (auto split: option.splits)
    then show ?thesis using Cons.IH by auto
  qed
qed simp

lemma await_ends: "(\<exists>(now, rx) \<in> set ts. \<not> now < deadline) \<Longrightarrow> await_reply deadline mac xid ts \<noteq> Waiting"
  by (induction deadline mac xid ts rule: await_reply.induct) (auto split: option.splits)

lemma send_and_recv_answer:
  assumes "send_and_recv payload mac xid x = (Answer r, fs)"
  shows "\<exists>now pkt. (now, Some pkt) \<in> set (turns x) \<and> now < wait_from x + DHCP_TIMEOUT_MS
    \<and> reply_in_packet mac xid pkt = Some r"
  using assms by (auto simp: send_and_recv_def dest: await_answer split: option.splits if_splits)


text \<open>The replies of a conforming server are understood.\<close>

definition server_msg :: "u8 list \<Rightarrow> u32 \<Rightarrow> u8 list \<Rightarrow> (u8 \<times> u8 list) list \<Rightarrow> u8 list" where
  "server_msg mac xid yi os =
     [2, 1, 6, 0] @ be32 xid @ [0, 0, 0x80, 0] @ replicate 4 0 @ yi @ replicate 8 0 @ mac
       @ replicate 202 0 @ MAGIC_COOKIE @ opt_bytes os @ [255]"

definition server_packet :: "u8 list \<Rightarrow> u32 \<Rightarrow> u8 list \<Rightarrow> (u8 \<times> u8 list) list \<Rightarrow> u8 list" where
  "server_packet mac xid yi os =
     replicate 6 0xFF @ replicate 6 2 @ be16 0x0800
       @ ip_header [10, 0, 2, 2] [255, 255, 255, 255] 17 0 0
       @ be16 DHCP_SERVER @ be16 DHCP_CLIENT @ be16 0 @ [0, 0] @ server_msg mac xid yi os"

lemma parse_server_msg:
  assumes "length mac = 6" "length yi = 4" "yi \<noteq> [0, 0, 0, 0]" "\<forall>x \<in> set os. legal_opt x"
  shows "parse_dhcp_reply (server_msg mac xid yi os) xid mac
    = Some \<lparr>yiaddr = Some yi, reply_opts = fold (\<lambda>(tag, body). take_opt tag body) os no_opts\<rparr>"
  using assms
  by (simp add: parse_dhcp_reply_def server_msg_def DHCP_MSG_SIZE_def MAGIC_COOKIE_def nth_append
      slc_def Let_def parse_dhcp_options_def opts_loop_bytes)

lemma reply_in_server_packet:
  assumes "length mac = 6" "length yi = 4" "yi \<noteq> [0, 0, 0, 0]" "\<forall>x \<in> set os. legal_opt x"
  shows "reply_in_packet mac xid (server_packet mac xid yi os)
    = Some \<lparr>yiaddr = Some yi, reply_opts = fold (\<lambda>(tag, body). take_opt tag body) os no_opts\<rparr>"
proof -
  let ?U = "be16 DHCP_SERVER @ be16 DHCP_CLIENT @ be16 0 @ [0, 0] @ server_msg mac xid yi os"
  let ?H = "ip_header [10, 0, 2, 2] [255, 255, 255, 255] 17 0 0"
  have "length (server_msg mac xid yi os) \<ge> 240"
    using assms(1,2) by (simp add: server_msg_def MAGIC_COOKIE_def)
  then have eth: "eth_parse (server_packet mac xid yi os) =
      Some \<lparr>eth_dst = replicate 6 0xFF, eth_src = replicate 6 2, ethertype = 0x0800, eth_payload = ?H @ ?U\<rparr>"
    unfolding server_packet_def by (intro eth_parse_frame) simp_all
  have ip: "ip_parse (?H @ ?U) = Some \<lparr>ip_version = 4, ip_header_len = 20, ip_total_len = 0,
      ip_protocol = 17, ip_src = [10, 0, 2, 2], ip_dst = [255, 255, 255, 255], ip_payload = ?U\<rparr>"
    by (rule ip_parse_header) simp_all
  show ?thesis
    unfolding reply_in_packet_def eth option.case EthernetFrame.select_convs ip Ipv4Packet.select_convs
      udp_parse_datagram UdpHeader.select_convs parse_server_msg [OF assms]
    by simp
qed

lemma conforming_server_configures:
  assumes "length mac = 6" "length yi = 4" "yi \<noteq> [0, 0, 0, 0]" "\<forall>x \<in> set os1 \<union> set os2. legal_opt x"
    and "x1 = \<lparr>sent_ok = True, wait_from = t1, turns = (t1, Some (server_packet mac xid yi os1)) # rest1\<rparr>"
    and "x2 = \<lparr>sent_ok = True, wait_from = t2, turns = (t2, Some (server_packet mac xid yi os2)) # rest2\<rparr>"
    and "t1 < t1 + 5000" "t2 < t2 + 5000"
    and "o1 = fold (\<lambda>(tag, body). take_opt tag body) os1 no_opts"
    and "o2 = fold (\<lambda>(tag, body). take_opt tag body) os2 no_opts" "msg_type o2 = 5"
    and "\<forall>ip \<in> set_option (opt_server o1). length ip = 4"
  shows "\<exists>fs. dhcp_request mac xid x1 x2 = (Answer \<lparr>cfg_ip = yi,
    cfg_subnet = or_default (opt_subnet o2) [255, 255, 255, 0],
    cfg_gateway = or_default (opt_gateway o2) [10, 0, 2, 2],
    cfg_dns = or_default (opt_dns o2) [8, 8, 8, 8]\<rparr>, fs)"
proof -
  have msgs: "\<exists>fr. dhcp_frame (build_dhcp_msg 1 xid mac t req srv) mac = Some fr"
    if "\<forall>ip \<in> set_option req. length ip = 4" "\<forall>ip \<in> set_option srv. length ip = 4" for t req srv
    using length_dhcp_msg [OF assms(1) that, of 1 xid t] dhcp_frame_bytes [OF assms(1), of "build_dhcp_msg 1 xid mac t req srv"]
    by auto
  obtain f1 where f1: "dhcp_frame (build_dhcp_msg 1 xid mac 1 None None) mac = Some f1"
    using msgs [of None None 1] by auto
  obtain f2 where f2: "dhcp_frame (build_dhcp_msg 1 xid mac 3 (Some yi) (opt_server o1)) mac = Some f2"
    using msgs [of "Some yi" "opt_server o1" 3] assms(2,12) by auto
  have r: "reply_in_packet mac xid (server_packet mac xid yi os1) = Some \<lparr>yiaddr = Some yi, reply_opts = o1\<rparr>"
    "reply_in_packet mac xid (server_packet mac xid yi os2) = Some \<lparr>yiaddr = Some yi, reply_opts = o2\<rparr>"
    using assms(4,9,10) reply_in_server_packet [OF assms(1-3)] by auto
  show ?thesis
    using assms(5-8,11) f1 f2 r by (simp add: dhcp_request_def send_and_recv_def DHCP_TIMEOUT_MS_def Let_def)
qed


end
