(* ===== verification/Ata.thy ===== *)
theory Ata
  imports Nic
begin

text \<open>
  The ATA PIO driver of \<^verbatim>\<open>src/drivers/ata.rs\<close>. The drive is an argument: \<open>polls\<close> are the
  values of the status register with the clock at each read, one list per wait, \<open>words\<close> what the
  data register returned; the port writes are returned in order. Beside it, \<open>ata_read\<close> and
  \<open>ata_write\<close> are the same operations on a disk as the bytes it holds, for a drive that
  answers a command beyond its end with the error bit.
\<close>

section \<open>Waiting\<close>

datatype 'a wait = Ready 'a | Refused string | Polling

text \<open>\<open>deadline\<close> is the clock at the start plus 4000.\<close>

fun wait_ready :: "u64 \<Rightarrow> (u8 \<times> u64) list \<Rightarrow> unit wait" where
  "wait_ready deadline [] = Polling"
| "wait_ready deadline ((status, now) # polls) =
     (if status AND 0x01 \<noteq> 0 then Refused ''ATA error''
      else if status AND 0x80 = 0 \<and> status AND 0x40 \<noteq> 0 then Ready ()
      else if now > deadline then Refused ''ATA timeout''
      else wait_ready deadline polls)"

fun wait_drq :: "u64 \<Rightarrow> (u8 \<times> u64) list \<Rightarrow> unit wait" where
  "wait_drq deadline [] = Polling"
| "wait_drq deadline ((status, now) # polls) =
     (if status AND 0x01 \<noteq> 0 then Refused ''ATA error''
      else if status AND 0x08 \<noteq> 0 then Ready ()
      else if status AND 0x80 = 0 \<and> status AND 0x40 \<noteq> 0 \<and> status AND 0x08 = 0 then Refused ''ATA no data''
      else if now > deadline then Refused ''ATA DRQ timeout''
      else wait_drq deadline polls)"

text \<open>Both loops end by their deadline.\<close>

lemma wait_ready_ends: "\<exists>(status, now) \<in> set polls. deadline < now \<Longrightarrow> wait_ready deadline polls \<noteq> Polling"
  by (induction deadline polls rule: wait_ready.induct) auto

lemma wait_drq_ends: "\<exists>(status, now) \<in> set polls. deadline < now \<Longrightarrow> wait_drq deadline polls \<noteq> Polling"
  by (induction deadline polls rule: wait_drq.induct) auto

section \<open>Commands\<close>

definition ata_command :: "u32 \<Rightarrow> u8 \<Rightarrow> u8 \<Rightarrow> io_write list" where
  "ata_command lba count cmd =
     [OutB 0x1F6 (0xE0 OR ucast (drop_bit 24 lba AND 0x0F)), OutB 0x1F2 count,
      OutB 0x1F3 (ucast lba), OutB 0x1F4 (ucast (drop_bit 8 lba)), OutB 0x1F5 (ucast (drop_bit 16 lba)),
      OutB 0x1F7 cmd]"

text \<open>\<open>drqs\<close> and \<open>words\<close> hold, for each sector, the deadline and polls of its wait and the 256
  words the drive delivers. \<open>Polling\<close> when what is given ends before the operation does.\<close>

fun read_loop :: "nat \<Rightarrow> (u64 \<times> (u8 \<times> u64) list) list \<Rightarrow> u16 list list \<Rightarrow> u8 list \<Rightarrow> u8 list wait" where
  "read_loop 0 drqs words buf = Ready buf"
| "read_loop (Suc n) ((deadline, polls) # drqs) (ws # words) buf =
     (case wait_drq deadline polls of
        Ready _ \<Rightarrow> read_loop n drqs words (buf @ concat (map le16 ws))
      | Refused e \<Rightarrow> Refused e | Polling \<Rightarrow> Polling)"
| "read_loop (Suc n) _ _ buf = Polling"

definition read_sectors ::
    "u32 \<Rightarrow> u8 \<Rightarrow> nat \<Rightarrow> (u64 \<times> (u8 \<times> u64) list) \<Rightarrow> (u64 \<times> (u8 \<times> u64) list) list \<Rightarrow> u16 list list
      \<Rightarrow> u8 list wait \<times> io_write list" where
  "read_sectors lba count buf_len ready drqs words =
     (if count = 0 \<or> buf_len < unat count * 512 then (Refused ''ATA: buffer too small'', [])
      else (case wait_ready (fst ready) (snd ready) of
          Ready _ \<Rightarrow> (read_loop (unat count) drqs words [], ata_command lba count 0x20)
        | Refused e \<Rightarrow> (Refused e, []) | Polling \<Rightarrow> (Polling, [])))"

fun write_loop :: "nat \<Rightarrow> (u64 \<times> (u8 \<times> u64) list) list \<Rightarrow> u8 list \<Rightarrow> unit wait \<times> io_write list" where
  "write_loop 0 drqs buf = (Ready (), [])"
| "write_loop (Suc n) ((deadline, polls) # drqs) buf =
     (case wait_drq deadline polls of
        Ready _ \<Rightarrow>
          (case write_loop n drqs (drop 512 buf) of
             (r, ws) \<Rightarrow> (r, map (\<lambda>w. OutW 0x1F0 (of_le16 (buf ! (2 * w)) (buf ! (2 * w + 1)))) [0..<256] @ ws))
      | Refused e \<Rightarrow> (Refused e, []) | Polling \<Rightarrow> (Polling, []))"
| "write_loop (Suc n) [] buf = (Polling, [])"

definition write_sectors ::
    "u32 \<Rightarrow> u8 \<Rightarrow> u8 list \<Rightarrow> (u64 \<times> (u8 \<times> u64) list) \<Rightarrow> (u64 \<times> (u8 \<times> u64) list) list
      \<Rightarrow> (u64 \<times> (u8 \<times> u64) list) \<Rightarrow> unit wait \<times> io_write list" where
  "write_sectors lba count buf ready drqs done =
     (if count = 0 \<or> length buf < unat count * 512 then (Refused ''ATA: buffer too small'', [])
      else (case wait_ready (fst ready) (snd ready) of
          Ready _ \<Rightarrow>
            (case write_loop (unat count) drqs buf of
               (Ready _, ws) \<Rightarrow> (wait_ready (fst done) (snd done), ata_command lba count 0x30 @ ws)
             | (r, ws) \<Rightarrow> (r, ata_command lba count 0x30 @ ws))
        | Refused e \<Rightarrow> (Refused e, []) | Polling \<Rightarrow> (Polling, [])))"

definition ata_init :: "u8 \<Rightarrow> bool \<Rightarrow> bool" where
  "ata_init status initialized = (initialized \<or> status \<noteq> 0xFF)"

text \<open>The command addresses the sector with the low 28 bits of the number.\<close>

definition command_lba :: "io_write list \<Rightarrow> nat" where
  "command_lba ws = (case ws of
     OutB _ d # _ # OutB _ a # OutB _ b # OutB _ c # _ \<Rightarrow>
       unat (d AND 0x0F) * 2 ^ 24 + unat c * 2 ^ 16 + unat b * 2 ^ 8 + unat a | _ \<Rightarrow> 0)"

lemma split_28:
  fixes n :: nat
  shows "(n div 2 ^ 24) mod 16 * 2 ^ 24 + (n div 2 ^ 16) mod 256 * 2 ^ 16 + (n div 2 ^ 8) mod 256 * 2 ^ 8 + n mod 256
    = n mod 2 ^ 28"
proof -
  have a: "n mod 2 ^ 28 = (n div 2 ^ 24) mod 16 * 2 ^ 24 + n mod 2 ^ 24"
    using mod_mult2_eq [of n "2 ^ 24" 16] by simp
  have b: "n mod 2 ^ 24 = (n div 2 ^ 16) mod 256 * 2 ^ 16 + n mod 2 ^ 16"
    using mod_mult2_eq [of n "2 ^ 16" 256] by simp
  have c: "n mod 2 ^ 16 = (n div 2 ^ 8) mod 256 * 2 ^ 8 + n mod 256"
    using mod_mult2_eq [of n "2 ^ 8" 256] by simp
  show ?thesis using a b c by simp
qed

lemma drive_byte: "unat ((0xE0 OR ucast (drop_bit 24 (lba :: u32) AND 0x0F)) AND (0x0F :: u8)) = (unat lba div 2 ^ 24) mod 16"
proof -
  have "(0xE0 OR ucast (drop_bit 24 lba AND 0x0F)) AND (0x0F :: u8) = take_bit 4 (ucast (drop_bit 24 lba))"
    by (rule bit_word_eqI) (auto simp: bit_simps less_Suc_eq numeral_eq_Suc)
  then show ?thesis
    using u32_less [of lba]
    by (simp only: unsigned_take_bit_eq unsigned_ucast_eq unsigned_drop_bit_eq)
      (simp add: take_bit_eq_mod drop_bit_eq_div mod_mod_cancel)
qed

lemma unat_ucast_byte: "unat (ucast (drop_bit k (lba :: u32)) :: u8) = (unat lba div 2 ^ k) mod 256"
  using u32_less [of lba]
  by (simp only: unsigned_ucast_eq unsigned_drop_bit_eq) (simp add: take_bit_eq_mod drop_bit_eq_div)

lemma command_lba_28: "command_lba (ata_command lba count cmd) = unat lba mod 2 ^ 28"
  using drive_byte [of lba] unat_ucast_byte [of 16 lba] unat_ucast_byte [of 8 lba] unat_ucast_byte [of 0 lba]
    split_28 [of "unat lba"]
  by (simp add: command_lba_def ata_command_def)

section \<open>The disk\<close>

text \<open>A drive holds bytes, 512 to a sector. \<open>ata_read\<close> and \<open>ata_write\<close> are \<open>read\<close> and \<open>write\<close> of
  the driver on it; the only failures of such a drive are an empty or too large request and an
  address beyond its end.\<close>

definition ata_read :: "u8 list \<Rightarrow> u32 \<Rightarrow> u8 \<Rightarrow> nat \<Rightarrow> u8 list option" where
  "ata_read disk lba count buf_len =
     (let a = (unat lba mod 2 ^ 28) * 512; n = unat count * 512 in
      if count = 0 \<or> buf_len < n \<or> length disk < a + n then None else Some (slc a (a + n) disk))"

definition ata_write :: "u8 list \<Rightarrow> u32 \<Rightarrow> u8 \<Rightarrow> u8 list \<Rightarrow> u8 list option" where
  "ata_write disk lba count buf =
     (let a = (unat lba mod 2 ^ 28) * 512; n = unat count * 512 in
      if count = 0 \<or> length buf < n \<or> length disk < a + n then None else Some (patch disk a (take n buf)))"

lemma ata_read_written:
  "ata_write disk lba count buf = Some disk' \<Longrightarrow> unat count * 512 \<le> n \<Longrightarrow>
   ata_read disk' lba count n = Some (take (unat count * 512) buf)"
  by (auto simp: ata_write_def ata_read_def Let_def split: if_splits intro!: slice_patch_same)

lemma ata_write_length: "ata_write disk lba count buf = Some disk' \<Longrightarrow> length disk' = length disk"
  by (auto simp: ata_write_def Let_def split: if_splits)

text \<open>What the port-level loop delivers is the sectors in the little-endian order of the bus.\<close>

lemma read_loop_ready:
  "length words = n \<Longrightarrow> \<forall>(dl, polls) \<in> set drqs. wait_drq dl polls = Ready () \<Longrightarrow> length drqs = n \<Longrightarrow>
   read_loop n drqs words buf = Ready (buf @ concat (map (\<lambda>ws. concat (map le16 ws)) words))"
proof (induction n arbitrary: drqs words buf)
  case (Suc n)
  then obtain d ds w ws where "drqs = d # ds" "words = w # ws" by (metis length_Suc_conv)
  with Suc show ?case by (cases d) simp
qed simp

end
