(* ===== verification/Ext3.thy ===== *)
theory Ext3
  imports Interfaces Ata
begin

text \<open>
  The ext2/3 file system of \<^verbatim>\<open>src/fs/ext3.rs\<close> on a disk given as the bytes it holds:
  the on-disk structures, the bitmaps, blocks, inodes, file contents, directories, path walks and
  the operations of the trait. An operation takes the disk and returns its result, an error text
  or a value, with the disk as it left it, also when it failed half way. Rust panics (a division
  by zero, an index out of range) are errors whose text begins with \<open>panic\<close>. Names and paths
  are their UTF-8 bytes.
\<close>

section \<open>Operations on the disk\<close>

type_synonym disk = "u8 list"
type_synonym 'a dio = "disk \<Rightarrow> (string + 'a) \<times> disk"

definition okD :: "'a \<Rightarrow> 'a dio" where
  "okD x = (\<lambda>d. (Inr x, d))"

definition errD :: "string \<Rightarrow> 'a dio" where
  "errD e = (\<lambda>d. (Inl e, d))"

text \<open>The question mark operator: go on with the value, or return the error.\<close>

definition bindD :: "'a dio \<Rightarrow> ('a \<Rightarrow> 'b dio) \<Rightarrow> 'b dio" where
  "bindD m f = (\<lambda>d. case m d of (Inl e, d') \<Rightarrow> (Inl e, d') | (Inr x, d') \<Rightarrow> f x d')"

lemmas dio_defs = okD_def errD_def bindD_def

definition ascii :: "string \<Rightarrow> u8 list" where
  "ascii s = map of_char s"

section \<open>On-disk structures\<close>

definition rd16 :: "u8 list \<Rightarrow> nat \<Rightarrow> u16" where
  "rd16 b i = of_le16 (b ! i) (b ! (i + 1))"

definition rd32 :: "u8 list \<Rightarrow> nat \<Rightarrow> u32" where
  "rd32 b i = of_le32 (b ! i) (b ! (i + 1)) (b ! (i + 2)) (b ! (i + 3))"

text \<open>Of the superblock the five fields that are read.\<close>

record Superblock =
  sb_blocks_count :: u32
  sb_log_block_size :: u32
  sb_blocks_per_group :: u32
  sb_inodes_per_group :: u32
  sb_magic :: u16

definition superblock_of :: "u8 list \<Rightarrow> Superblock" where
  "superblock_of b = \<lparr>sb_blocks_count = rd32 b 0x04, sb_log_block_size = rd32 b 0x18,
     sb_blocks_per_group = rd32 b 0x20, sb_inodes_per_group = rd32 b 0x28, sb_magic = rd16 b 0x38\<rparr>"

record BgDescriptor =
  block_bitmap :: u32
  inode_bitmap :: u32
  inode_table :: u32

definition BG_SIZE :: nat where "BG_SIZE = 32"

definition bg_of :: "u8 list \<Rightarrow> nat \<Rightarrow> BgDescriptor" where
  "bg_of b i = \<lparr>block_bitmap = rd32 b i, inode_bitmap = rd32 b (i + 4), inode_table = rd32 b (i + 8)\<rparr>"

record Inode =
  i_mode :: u16
  i_uid :: u16
  i_size :: u32
  i_atime :: u32
  i_ctime :: u32
  i_mtime :: u32
  i_dtime :: u32
  i_gid :: u16
  i_links_count :: u16
  i_sectors :: u32
  i_flags :: u32
  i_osd1 :: u32
  i_block :: "u32 list"
  i_generation :: u32
  i_file_acl :: u32
  i_size_high :: u32
  i_faddr :: u32

text \<open>\<open>size_of::<Inode>()\<close> of the packed structure.\<close>

definition INODE_SIZE :: nat where "INODE_SIZE = 116"

definition inode_of :: "u8 list \<Rightarrow> Inode" where
  "inode_of b = \<lparr>i_mode = rd16 b 0, i_uid = rd16 b 2, i_size = rd32 b 4, i_atime = rd32 b 8,
     i_ctime = rd32 b 12, i_mtime = rd32 b 16, i_dtime = rd32 b 20, i_gid = rd16 b 24,
     i_links_count = rd16 b 26, i_sectors = rd32 b 28, i_flags = rd32 b 32, i_osd1 = rd32 b 36,
     i_block = map (\<lambda>k. rd32 b (40 + 4 * k)) [0..<15], i_generation = rd32 b 100,
     i_file_acl = rd32 b 104, i_size_high = rd32 b 108, i_faddr = rd32 b 112\<rparr>"

definition inode_bytes :: "Inode \<Rightarrow> u8 list" where
  "inode_bytes n = le16 (i_mode n) @ le16 (i_uid n) @ le32 (i_size n) @ le32 (i_atime n)
     @ le32 (i_ctime n) @ le32 (i_mtime n) @ le32 (i_dtime n) @ le16 (i_gid n)
     @ le16 (i_links_count n) @ le32 (i_sectors n) @ le32 (i_flags n) @ le32 (i_osd1 n)
     @ concat (map le32 (i_block n)) @ le32 (i_generation n) @ le32 (i_file_acl n)
     @ le32 (i_size_high n) @ le32 (i_faddr n)"

definition S_IFDIR :: u16 where "S_IFDIR = 0x4000"
definition S_IFREG :: u16 where "S_IFREG = 0x8000"
definition FT_REG :: u8 where "FT_REG = 1"
definition FT_DIR :: u8 where "FT_DIR = 2"

record ext3 =
  block_size :: nat
  inodes_per_group :: u32
  blocks_per_group :: u32
  bg_desc_table_block :: u32
  bg_count :: u32

section \<open>Mounting\<close>

definition ext3_mount :: "ext3 dio" where
  "ext3_mount = (\<lambda>d.
     case ata_read d 2 2 1024 of None \<Rightarrow> (Inl ''ATA read error'', d)
     | Some sb_buf \<Rightarrow>
         let sb = superblock_of sb_buf in
         if sb_magic sb \<noteq> 0xEF53 then (Inl ''not an ext2/3/4 filesystem'', d)
         else if sb_blocks_per_group sb = 0 then (Inl ''panic: division by zero'', d)
         else
           let bs = unat (push_bit (unat (sb_log_block_size sb) mod 64) (1024 :: u64)) in
           (Inr \<lparr>block_size = bs, inodes_per_group = sb_inodes_per_group sb,
              blocks_per_group = sb_blocks_per_group sb,
              bg_desc_table_block = (if bs = 1024 then 2 else 1),
              bg_count = (sb_blocks_count sb + sb_blocks_per_group sb - 1) div sb_blocks_per_group sb\<rparr>, d))"

section \<open>Blocks\<close>

text \<open>The number of sectors of a block is truncated to eight bits; it is the size of the block or
  zero, because block sizes are powers of two, and zero is refused by the driver.\<close>

definition sectors_per_block :: "ext3 \<Rightarrow> u8" where
  "sectors_per_block fs = of_nat (block_size fs div 512)"

definition read_block :: "ext3 \<Rightarrow> u32 \<Rightarrow> u8 list dio" where
  "read_block fs block = (\<lambda>d.
     case ata_read d (block * ucast (sectors_per_block fs)) (sectors_per_block fs) (block_size fs) of
       None \<Rightarrow> (Inl ''ATA read error'', d)
     | Some buf \<Rightarrow> (Inr buf, d))"

definition write_block :: "ext3 \<Rightarrow> u32 \<Rightarrow> u8 list \<Rightarrow> unit dio" where
  "write_block fs block buf = (\<lambda>d.
     case ata_write d (block * ucast (sectors_per_block fs)) (sectors_per_block fs) buf of
       None \<Rightarrow> (Inl ''ATA write error'', d)
     | Some d' \<Rightarrow> (Inr (), d'))"

section \<open>Bitmaps\<close>

definition bitmap_test :: "u8 list \<Rightarrow> nat \<Rightarrow> bool" where
  "bitmap_test b i \<longleftrightarrow> bit (b ! (i div 8)) (i mod 8)"

definition bitmap_put :: "u8 list \<Rightarrow> nat \<Rightarrow> bool \<Rightarrow> u8 list" where
  "bitmap_put b i value =
     b[i div 8 := (if value then b ! (i div 8) OR push_bit (i mod 8) 1
                   else b ! (i div 8) AND NOT (push_bit (i mod 8) 1))]"

definition bitmap_set :: "ext3 \<Rightarrow> u32 \<Rightarrow> u32 \<Rightarrow> bool \<Rightarrow> unit dio" where
  "bitmap_set fs bitmap_block i value =
     bindD (read_block fs bitmap_block) (\<lambda>buf.
       if unat i div 8 \<ge> length buf then errD ''panic: index out of bounds''
       else write_block fs bitmap_block (bitmap_put buf (unat i) value))"

text \<open>The search of a free bit: \<open>scan_bits\<close> is the inner loop over the eight bits of one byte,
  which stops at \<open>max_bits\<close>; full bytes are skipped.\<close>

fun scan_bits :: "nat \<Rightarrow> u8 \<Rightarrow> nat \<Rightarrow> nat list \<Rightarrow> nat option" where
  "scan_bits max_bits byte byte_idx [] = None"
| "scan_bits max_bits byte byte_idx (k # ks) =
     (if byte_idx * 8 + k \<ge> max_bits then None
      else if byte AND push_bit k 1 = 0 then Some (byte_idx * 8 + k)
      else scan_bits max_bits byte byte_idx ks)"

fun scan_bytes :: "nat \<Rightarrow> nat \<Rightarrow> u8 list \<Rightarrow> nat option" where
  "scan_bytes max_bits byte_idx [] = None"
| "scan_bytes max_bits byte_idx (byte # bs) =
     (if byte = 0xFF then scan_bytes max_bits (byte_idx + 1) bs
      else (case scan_bits max_bits byte byte_idx [0..<8] of
              Some i \<Rightarrow> Some i
            | None \<Rightarrow> scan_bytes max_bits (byte_idx + 1) bs))"

definition bitmap_take :: "nat \<Rightarrow> u8 list \<Rightarrow> (nat \<times> u8 list) option" where
  "bitmap_take max_bits buf =
     (case scan_bytes max_bits 0 buf of None \<Rightarrow> None | Some i \<Rightarrow> Some (i, bitmap_put buf i True))"

definition bitmap_alloc :: "ext3 \<Rightarrow> u32 \<Rightarrow> u32 \<Rightarrow> u32 dio" where
  "bitmap_alloc fs bitmap_block max_bits =
     bindD (read_block fs bitmap_block) (\<lambda>buf.
       case bitmap_take (unat max_bits) buf of
         None \<Rightarrow> errD ''no free bits in bitmap''
       | Some (i, buf') \<Rightarrow> bindD (write_block fs bitmap_block buf') (\<lambda>_. okD (of_nat i)))"

section \<open>Group descriptors, blocks and inodes\<close>

definition read_bg_desc :: "ext3 \<Rightarrow> u32 \<Rightarrow> BgDescriptor dio" where
  "read_bg_desc fs grp =
     (let gd_per_block = of_nat (block_size fs div BG_SIZE) in
      if gd_per_block = 0 then errD ''panic: division by zero''
      else bindD (read_block fs (bg_desc_table_block fs + grp div gd_per_block)) (\<lambda>buf.
        okD (bg_of buf (unat (grp mod gd_per_block) * BG_SIZE))))"

definition alloc_block :: "ext3 \<Rightarrow> u32 dio" where
  "alloc_block fs = bindD (read_bg_desc fs 0) (\<lambda>bg. bitmap_alloc fs (block_bitmap bg) (blocks_per_group fs))"

definition free_block :: "ext3 \<Rightarrow> u32 \<Rightarrow> unit dio" where
  "free_block fs block = bindD (read_bg_desc fs 0) (\<lambda>bg. bitmap_set fs (block_bitmap bg) block False)"

definition alloc_inode :: "ext3 \<Rightarrow> u32 dio" where
  "alloc_inode fs = bindD (read_bg_desc fs 0) (\<lambda>bg.
     bindD (bitmap_alloc fs (inode_bitmap bg) (inodes_per_group fs)) (\<lambda>ino. okD (ino + 1)))"

definition free_inode :: "ext3 \<Rightarrow> u32 \<Rightarrow> unit dio" where
  "free_inode fs inode_num =
     (if inodes_per_group fs = 0 then errD ''panic: division by zero''
      else bindD (read_bg_desc fs ((inode_num - 1) div inodes_per_group fs)) (\<lambda>bg.
        bitmap_set fs (inode_bitmap bg) ((inode_num - 1) mod inodes_per_group fs) False))"

text \<open>Where an inode lies: its block and the offset in it, as \<open>read_inode\<close> and \<open>write_inode\<close> both
  compute them.\<close>

definition inode_place :: "ext3 \<Rightarrow> u32 \<Rightarrow> (u32 \<times> nat) dio" where
  "inode_place fs inode_num =
     (if inodes_per_group fs = 0 then errD ''panic: division by zero''
      else
        let grp = (inode_num - 1) div inodes_per_group fs;
            idx = (inode_num - 1) mod inodes_per_group fs in
        bindD (read_bg_desc fs grp) (\<lambda>bg.
          let inodes_per_block = of_nat (block_size fs div INODE_SIZE) in
          if inodes_per_block = 0 then errD ''panic: division by zero''
          else okD (inode_table bg + idx div inodes_per_block,
                    unat (idx mod inodes_per_block) * INODE_SIZE)))"

definition read_inode :: "ext3 \<Rightarrow> u32 \<Rightarrow> Inode dio" where
  "read_inode fs inode_num = bindD (inode_place fs inode_num) (\<lambda>(block, offset).
     bindD (read_block fs block) (\<lambda>buf. okD (inode_of (drop offset buf))))"

definition write_inode :: "ext3 \<Rightarrow> u32 \<Rightarrow> Inode \<Rightarrow> unit dio" where
  "write_inode fs inode_num inode = bindD (inode_place fs inode_num) (\<lambda>(block, offset).
     bindD (read_block fs block) (\<lambda>buf. write_block fs block (patch buf offset (inode_bytes inode))))"

section \<open>File contents\<close>

definition inode_block :: "ext3 \<Rightarrow> Inode \<Rightarrow> nat \<Rightarrow> u32 dio" where
  "inode_block fs inode blk_idx =
     (if blk_idx < 12 then okD (i_block inode ! blk_idx)
      else if blk_idx < 12 + block_size fs div 4 then
        (if i_block inode ! 12 = 0 then errD ''hole in file''
         else bindD (read_block fs (i_block inode ! 12)) (\<lambda>buf. okD (rd32 buf ((blk_idx - 12) * 4))))
      else errD ''double indirect not supported'')"

fun read_blocks :: "ext3 \<Rightarrow> Inode \<Rightarrow> nat list \<Rightarrow> u8 list \<Rightarrow> u8 list dio" where
  "read_blocks fs inode [] data = okD data"
| "read_blocks fs inode (blk_idx # is) data =
     bindD (inode_block fs inode blk_idx) (\<lambda>disk_block.
       if disk_block = 0 then read_blocks fs inode is data
       else bindD (read_block fs disk_block) (\<lambda>block_buf.
         let offset = blk_idx * block_size fs;
             copy = min (length data - offset) (block_size fs)
         in read_blocks fs inode is (patch data offset (take copy block_buf))))"

definition blocks_for :: "ext3 \<Rightarrow> nat \<Rightarrow> nat" where
  "blocks_for fs n = (n + block_size fs - 1) div block_size fs"

definition read_file_inode :: "ext3 \<Rightarrow> Inode \<Rightarrow> u8 list dio" where
  "read_file_inode fs inode =
     (if block_size fs = 0 then errD ''panic: division by zero''
      else let size = unat (i_size inode)
           in read_blocks fs inode [0..<blocks_for fs size] (replicate size 0))"

fun grow_file :: "ext3 \<Rightarrow> nat list \<Rightarrow> Inode \<Rightarrow> Inode dio" where
  "grow_file fs [] inode = okD inode"
| "grow_file fs (blk_idx # is) inode =
     (let existing = (if blk_idx < 12 then i_block inode ! blk_idx else 0) in
      if existing = 0 then
        bindD (alloc_block fs) (\<lambda>new_block.
          let disk_block = new_block + 1 in
          if blk_idx < 12
          then grow_file fs is (inode\<lparr>i_block := (i_block inode)[blk_idx := disk_block]\<rparr>)
          else errD ''no indirect block write support'')
      else grow_file fs is inode)"

fun write_blocks :: "ext3 \<Rightarrow> Inode \<Rightarrow> nat list \<Rightarrow> u8 list \<Rightarrow> unit dio" where
  "write_blocks fs inode [] data = okD ()"
| "write_blocks fs inode (blk_idx # is) data =
     (if blk_idx < 12 then
        let bs = block_size fs;
            offset = blk_idx * bs;
            copy = min (length data - offset) bs;
            block_buf = slc offset (offset + copy) data @ replicate (bs - copy) 0
        in bindD (write_block fs (i_block inode ! blk_idx) block_buf) (\<lambda>_.
             write_blocks fs inode is data)
      else errD ''indirect not writable'')"

fun free_blocks :: "ext3 \<Rightarrow> nat list \<Rightarrow> Inode \<Rightarrow> Inode dio" where
  "free_blocks fs [] inode = okD inode"
| "free_blocks fs (blk_idx # is) inode =
     (if blk_idx < 12 \<and> i_block inode ! blk_idx \<noteq> 0 then
        bindD (free_block fs (i_block inode ! blk_idx)) (\<lambda>_.
          free_blocks fs is (inode\<lparr>i_block := (i_block inode)[blk_idx := 0]\<rparr>))
      else free_blocks fs is inode)"

definition write_file_data :: "ext3 \<Rightarrow> Inode \<Rightarrow> u8 list \<Rightarrow> Inode dio" where
  "write_file_data fs inode data =
     (if block_size fs = 0 then errD ''panic: division by zero''
      else
        let needed = blocks_for fs (length data) in
        bindD (grow_file fs [0..<needed] inode) (\<lambda>inode.
        bindD (write_blocks fs inode [0..<needed] data) (\<lambda>_.
        bindD (free_blocks fs [needed..<blocks_for fs (unat (i_size inode))] inode) (\<lambda>inode.
          okD (inode\<lparr>i_size := of_nat (length data)\<rparr>)))))"

section \<open>Directories\<close>

text \<open>Rust's check of UTF-8.\<close>

fun utf8_ok :: "u8 list \<Rightarrow> bool" where
  "utf8_ok [] = True"
| "utf8_ok (a # xs) =
     (let cont = (\<lambda>b. 0x80 \<le> b \<and> b \<le> (0xBF :: u8)) in
      if a < 0x80 then utf8_ok xs
      else if 0xC2 \<le> a \<and> a \<le> 0xDF then
        (case xs of b # ys \<Rightarrow> cont b \<and> utf8_ok ys | _ \<Rightarrow> False)
      else if 0xE0 \<le> a \<and> a \<le> 0xEF then
        (case xs of b # c # ys \<Rightarrow> cont b \<and> cont c \<and> (a = 0xE0 \<longrightarrow> 0xA0 \<le> b) \<and> (a = 0xED \<longrightarrow> b \<le> 0x9F)
            \<and> utf8_ok ys | _ \<Rightarrow> False)
      else if 0xF0 \<le> a \<and> a \<le> 0xF4 then
        (case xs of b # c # e # ys \<Rightarrow> cont b \<and> cont c \<and> cont e \<and> (a = 0xF0 \<longrightarrow> 0x90 \<le> b)
            \<and> (a = 0xF4 \<longrightarrow> b \<le> 0x8F) \<and> utf8_ok ys | _ \<Rightarrow> False)
      else False)"

definition from_utf8_or :: "u8 list \<Rightarrow> u8 list \<Rightarrow> u8 list" where
  "from_utf8_or b other = (if utf8_ok b then b else other)"

definition de_inode :: "u8 list \<Rightarrow> nat \<Rightarrow> u32" where "de_inode raw off = rd32 raw off"
definition de_rec_len :: "u8 list \<Rightarrow> nat \<Rightarrow> u16" where "de_rec_len raw off = rd16 raw (off + 4)"
definition de_name_len :: "u8 list \<Rightarrow> nat \<Rightarrow> nat" where "de_name_len raw off = unat (raw ! (off + 6))"
definition de_file_type :: "u8 list \<Rightarrow> nat \<Rightarrow> u8" where "de_file_type raw off = raw ! (off + 7)"

definition de_name :: "u8 list \<Rightarrow> nat \<Rightarrow> u8 list" where
  "de_name raw off = slc (off + 8) (off + 8 + de_name_len raw off) raw"

lemma rec_len_pos: "de_rec_len raw off \<noteq> 0 \<Longrightarrow> 0 < unat (de_rec_len raw off)"
  by (metis gr0I unsigned_eq_0_iff)

function dir_entries :: "u8 list \<Rightarrow> nat \<Rightarrow> (u8 list \<times> u32 \<times> u8) list" where
  "dir_entries raw off =
     (if off < length raw \<and> off + 8 \<le> length raw then
        if de_inode raw off = 0 \<or> de_rec_len raw off = 0 then []
        else
          let name = from_utf8_or (de_name raw off) (ascii ''<invalid>'') in
          (if off + 8 + de_name_len raw off \<le> length raw \<and> name \<noteq> ascii ''.'' \<and> name \<noteq> ascii ''..''
           then [(name, de_inode raw off, de_file_type raw off)] else [])
            @ dir_entries raw (off + unat (de_rec_len raw off))
      else [])"
  by auto
termination
  by (relation "measure (\<lambda>(raw, off). length raw - off)") (auto dest!: rec_len_pos)

declare dir_entries.simps [simp del]

definition read_dir_inode :: "ext3 \<Rightarrow> Inode \<Rightarrow> (u8 list \<times> u32 \<times> u8) list dio" where
  "read_dir_inode fs inode = bindD (read_file_inode fs inode) (\<lambda>raw. okD (dir_entries raw 0))"

definition dir_entry_bytes :: "u32 \<Rightarrow> u16 \<Rightarrow> u8 list \<Rightarrow> u8 \<Rightarrow> u8 list" where
  "dir_entry_bytes ino rec name ft = le32 ino @ le16 rec @ [of_nat (length name), ft] @ name"

definition set_rec_len :: "u8 list \<Rightarrow> nat \<Rightarrow> u16 \<Rightarrow> u8 list" where
  "set_rec_len raw off n = patch raw (off + 4) (le16 n)"

text \<open>The walk to the entry before the new one.\<close>

function adjust_last :: "u8 list \<Rightarrow> nat \<Rightarrow> nat \<Rightarrow> u8 list" where
  "adjust_last raw off new_offset =
     (if de_rec_len raw off = 0 then raw
      else
        let nxt = off + unat (de_rec_len raw off) in
        if nxt = new_offset then set_rec_len raw off (of_nat (new_offset - off))
        else if nxt > new_offset then raw
        else adjust_last raw nxt new_offset)"
  by auto
termination
  by (relation "measure (\<lambda>(raw, off, n). n - off)") (auto dest!: rec_len_pos)

declare adjust_last.simps [simp del]

definition rec_len_for :: "u8 list \<Rightarrow> u16" where
  "rec_len_for name = of_nat (4 * ((8 + length name + 3) div 4))"

definition dir_append :: "u8 list \<Rightarrow> u8 list \<Rightarrow> u32 \<Rightarrow> u8 \<Rightarrow> u8 list" where
  "dir_append raw name ino ft =
     (let rec = rec_len_for name; new_offset = length raw;
          raw' = raw @ replicate (unat rec) 0;
          raw' = patch raw' new_offset (dir_entry_bytes ino rec name ft)
      in if new_offset > 0 then adjust_last raw' 0 new_offset else raw')"

definition dir_add_entry :: "ext3 \<Rightarrow> Inode \<Rightarrow> u8 list \<Rightarrow> u32 \<Rightarrow> u8 \<Rightarrow> Inode dio" where
  "dir_add_entry fs dir_inode name ino ft =
     bindD (read_file_inode fs dir_inode) (\<lambda>raw.
       if rec_len_for name < 12 then errD ''entry too small''
       else write_file_data fs dir_inode (dir_append raw name ino ft))"

function find_entry :: "u8 list \<Rightarrow> u8 list \<Rightarrow> nat \<Rightarrow> (nat \<times> u32) option" where
  "find_entry raw name off =
     (if off + 8 > length raw then None
      else if de_inode raw off = 0 \<or> de_rec_len raw off = 0 then None
      else if off + 8 + de_name_len raw off \<le> length raw \<and> from_utf8_or (de_name raw off) [] = name
      then Some (off, de_inode raw off)
      else find_entry raw name (off + unat (de_rec_len raw off)))"
  by auto
termination
  by (relation "measure (\<lambda>(raw, name, off). length raw - off)") (auto dest!: rec_len_pos)

declare find_entry.simps [simp del]

text \<open>The search of the entry before the one removed, which takes over its space.\<close>

function merge_into_previous :: "u8 list \<Rightarrow> nat \<Rightarrow> nat \<Rightarrow> u8 list" where
  "merge_into_previous raw scan found_at =
     (if de_rec_len raw scan = 0 then raw
      else
        let nxt = scan + unat (de_rec_len raw scan) in
        if nxt = found_at then set_rec_len raw scan (de_rec_len raw scan + de_rec_len raw found_at)
        else if nxt > found_at then raw
        else merge_into_previous raw nxt found_at)"
  by auto
termination
  by (relation "measure (\<lambda>(raw, scan, n). n - scan)") (auto dest!: rec_len_pos)

declare merge_into_previous.simps [simp del]

definition dir_remove :: "u8 list \<Rightarrow> u8 list \<Rightarrow> (u32 \<times> u8 list) option" where
  "dir_remove raw name =
     (case find_entry raw name 0 of
        None \<Rightarrow> None
      | Some (found_at, ino) \<Rightarrow>
          let next_offset = found_at + unat (de_rec_len raw found_at);
              raw = (if next_offset < length raw then merge_into_previous raw 0 found_at else raw)
          in Some (ino, patch raw found_at (le32 0)))"

definition dir_remove_entry :: "ext3 \<Rightarrow> Inode \<Rightarrow> u8 list \<Rightarrow> (u32 \<times> Inode) dio" where
  "dir_remove_entry fs dir_inode name =
     bindD (read_file_inode fs dir_inode) (\<lambda>raw.
       case dir_remove raw name of
         None \<Rightarrow> errD ''file not found in directory''
       | Some (ino, raw') \<Rightarrow> bindD (write_file_data fs dir_inode raw') (\<lambda>inode. okD (ino, inode)))"

section \<open>Paths\<close>

text \<open>\<open>path.split('/')\<close>; the walk skips empty components.\<close>

fun split_slash :: "u8 list \<Rightarrow> u8 list list" where
  "split_slash [] = [[]]"
| "split_slash (c # cs) =
     (if c = 0x2F then [] # split_slash cs
      else (case split_slash cs of w # ws \<Rightarrow> (c # w) # ws | [] \<Rightarrow> [[c]]))"

definition inode_type :: "Inode \<Rightarrow> u8" where
  "inode_type inode = (if i_mode inode AND S_IFDIR \<noteq> 0 then FT_DIR else FT_REG)"

fun walk_components :: "ext3 \<Rightarrow> u8 list list \<Rightarrow> u32 \<Rightarrow> Inode \<Rightarrow> (u32 \<times> Inode \<times> u8) dio" where
  "walk_components fs [] ino inode = okD (ino, inode, inode_type inode)"
| "walk_components fs (part # parts) ino inode =
     (if part = [] then walk_components fs parts ino inode
      else if i_mode inode AND S_IFDIR = 0 then errD ''not a directory''
      else bindD (read_dir_inode fs inode) (\<lambda>entries.
        case find (\<lambda>(name, _). name = part) entries of
          None \<Rightarrow> errD ''file not found''
        | Some (_, ino', _) \<Rightarrow> bindD (read_inode fs ino') (\<lambda>inode'. walk_components fs parts ino' inode')))"

definition walk :: "ext3 \<Rightarrow> u32 \<Rightarrow> u8 list \<Rightarrow> (u32 \<times> Inode \<times> u8) dio" where
  "walk fs start path =
     bindD (read_inode fs start) (\<lambda>inode.
       if path = [] \<or> path = [0x2F] then okD (start, inode, inode_type inode)
       else walk_components fs (split_slash path) start inode)"

definition list_dir :: "ext3 \<Rightarrow> u8 list \<Rightarrow> (u8 list \<times> u32 \<times> u8) list dio" where
  "list_dir fs path = bindD (walk fs 2 path) (\<lambda>(_, inode, _).
     if i_mode inode AND S_IFDIR = 0 then errD ''not a directory'' else read_dir_inode fs inode)"

definition read_file :: "ext3 \<Rightarrow> u8 list \<Rightarrow> u8 list dio" where
  "read_file fs path = bindD (walk fs 2 path) (\<lambda>(_, inode, ft).
     if ft = FT_DIR then errD ''is a directory'' else read_file_inode fs inode)"

text \<open>\<open>path.rfind('/')\<close> and the two sides of it.\<close>

fun rsplit_slash :: "u8 list \<Rightarrow> (u8 list \<times> u8 list) option" where
  "rsplit_slash [] = None"
| "rsplit_slash (c # cs) =
     (case rsplit_slash cs of
        Some (p, n) \<Rightarrow> Some (c # p, n)
      | None \<Rightarrow> if c = 0x2F then Some ([], cs) else None)"

definition new_inode :: Inode where
  "new_inode = \<lparr>i_mode = S_IFREG OR 0x1A4, i_uid = 0, i_size = 0, i_atime = 0, i_ctime = 0,
     i_mtime = 0, i_dtime = 0, i_gid = 0, i_links_count = 1, i_sectors = 0, i_flags = 0, i_osd1 = 0,
     i_block = replicate 15 0, i_generation = 0, i_file_acl = 0, i_size_high = 0, i_faddr = 0\<rparr>"

definition create_file :: "ext3 \<Rightarrow> u8 list \<Rightarrow> unit dio" where
  "create_file fs path =
     (case rsplit_slash path of
        None \<Rightarrow> errD ''need absolute path''
      | Some (parent, name) \<Rightarrow>
          if parent = [] then errD ''need absolute path''
          else if name = [] \<or> length name > 255 then errD ''invalid name''
          else bindD (walk fs 2 parent) (\<lambda>(parent_ino, parent_inode, _).
            if i_mode parent_inode AND S_IFDIR = 0 then errD ''parent not a directory''
            else bindD (read_dir_inode fs parent_inode) (\<lambda>entries.
              if \<exists>e \<in> set entries. fst e = name then errD ''file exists''
              else bindD (alloc_inode fs) (\<lambda>ino.
                bindD (write_inode fs ino new_inode) (\<lambda>_.
                bindD (dir_add_entry fs parent_inode name ino FT_REG) (\<lambda>parent_inode.
                  write_inode fs parent_ino parent_inode))))))"

text \<open>The recursion of \<open>write_file\<close> has no bound in the code; \<open>fuel\<close> bounds its depth here.\<close>

fun write_file :: "nat \<Rightarrow> ext3 \<Rightarrow> u8 list \<Rightarrow> u8 list \<Rightarrow> unit dio" where
  "write_file 0 fs path data = errD ''panic: stack overflow''"
| "write_file (Suc fuel) fs path data = (\<lambda>d.
     case walk fs 2 path d of
       (Inr (ino, inode, ft), d') \<Rightarrow>
         (if ft = FT_DIR then errD ''cannot write to directory''
          else bindD (write_file_data fs inode data) (\<lambda>inode. write_inode fs ino inode)) d'
     | (Inl _, d') \<Rightarrow> bindD (create_file fs path) (\<lambda>_. write_file fuel fs path data) d')"

fun free_data_blocks :: "ext3 \<Rightarrow> Inode \<Rightarrow> nat list \<Rightarrow> unit dio" where
  "free_data_blocks fs inode [] = okD ()"
| "free_data_blocks fs inode (blk_idx # is) =
     (if blk_idx < 12 \<and> i_block inode ! blk_idx \<noteq> 0 then
        bindD (free_block fs (i_block inode ! blk_idx)) (\<lambda>_. free_data_blocks fs inode is)
      else free_data_blocks fs inode is)"

definition delete_file :: "ext3 \<Rightarrow> u8 list \<Rightarrow> unit dio" where
  "delete_file fs path =
     (case rsplit_slash path of
        None \<Rightarrow> errD ''need absolute path''
      | Some (parent, name) \<Rightarrow>
          if parent = [] then errD ''need absolute path''
          else bindD (walk fs 2 parent) (\<lambda>(parent_ino, parent_inode, _).
            bindD (walk fs 2 path) (\<lambda>(ino, file_inode, _).
              if i_mode file_inode AND S_IFDIR \<noteq> 0 then errD ''cannot delete directory (not implemented)''
              else if block_size fs = 0 then errD ''panic: division by zero''
              else bindD (free_data_blocks fs file_inode [0..<blocks_for fs (unat (i_size file_inode))]) (\<lambda>_.
                bindD (free_inode fs ino) (\<lambda>_.
                bindD (dir_remove_entry fs parent_inode name) (\<lambda>(_, parent_inode).
                  write_inode fs parent_ino parent_inode))))))"

section \<open>The trait\<close>

definition map_err :: "FsError \<Rightarrow> 'a dio \<Rightarrow> disk \<Rightarrow> (FsError + 'a) \<times> disk" where
  "map_err e m = (\<lambda>d. case m d of (Inl _, d') \<Rightarrow> (Inl e, d') | (Inr x, d') \<Rightarrow> (Inr x, d'))"

definition ext3_fs_read :: "ext3 \<Rightarrow> u8 list \<Rightarrow> disk \<Rightarrow> (FsError + u8 list) \<times> disk" where
  "ext3_fs_read fs path d =
     (case walk fs 2 path d of
        (Inl _, d') \<Rightarrow> (Inl NotFound, d')
      | (Inr (_, inode, ft), d') \<Rightarrow>
          if ft = FT_DIR then (Inl NotFound, d') else map_err Io (read_file_inode fs inode) d')"

definition ext3_fs_write :: "nat \<Rightarrow> ext3 \<Rightarrow> u8 list \<Rightarrow> u8 list \<Rightarrow> disk \<Rightarrow> (FsError + unit) \<times> disk" where
  "ext3_fs_write fuel fs path data = map_err Io (write_file fuel fs path data)"

definition ext3_fs_create :: "ext3 \<Rightarrow> u8 list \<Rightarrow> disk \<Rightarrow> (FsError + unit) \<times> disk" where
  "ext3_fs_create fs path = map_err Io (create_file fs path)"

definition ext3_fs_delete :: "ext3 \<Rightarrow> u8 list \<Rightarrow> disk \<Rightarrow> (FsError + unit) \<times> disk" where
  "ext3_fs_delete fs path = map_err Io (delete_file fs path)"

definition ext3_fs_list :: "ext3 \<Rightarrow> disk \<Rightarrow> (u8 list \<times> nat) list" where
  "ext3_fs_list fs d =
     (case bindD (read_inode fs 2) (read_dir_inode fs) d of
        (Inl _, _) \<Rightarrow> []
      | (Inr entries, _) \<Rightarrow>
          map (\<lambda>(name, _, ft). (name @ (if ft = FT_DIR then [0x2F] else []), 0)) entries)"

end
