(* ===== verification/Ext3Blocks.thy ===== *)
theory Ext3Blocks
  imports Ext3
begin

text \<open>
  Blocks and bitmaps of the ext2/3 file system: what reading and writing a block does to the
  disk, that the bitmap search is a first-fit allocator, and what \<open>alloc_block\<close> and \<open>free_block\<close>
  do to the block bitmap on the disk.
\<close>

section \<open>Blocks of the disk\<close>

text \<open>The block sizes an ext2/3 file system may have and the driver can transfer.\<close>

definition sane_fs :: "ext3 \<Rightarrow> bool" where
  "sane_fs fs \<longleftrightarrow> (\<exists>k \<le> 6. block_size fs = 1024 * 2 ^ k)"

definition blk :: "ext3 \<Rightarrow> disk \<Rightarrow> u32 \<Rightarrow> u8 list" where
  "blk fs d b = slc (unat b * block_size fs) (unat b * block_size fs + block_size fs) d"

definition on_disk :: "ext3 \<Rightarrow> disk \<Rightarrow> u32 \<Rightarrow> bool" where
  "on_disk fs d b \<longleftrightarrow> unat b * (block_size fs div 512) < 2 ^ 28
     \<and> unat b * block_size fs + block_size fs \<le> length d"

definition set_blk :: "ext3 \<Rightarrow> disk \<Rightarrow> u32 \<Rightarrow> u8 list \<Rightarrow> disk" where
  "set_blk fs d b buf = patch d (unat b * block_size fs) buf"

lemma sane_sizes:
  assumes "sane_fs fs"
  shows "unat (sectors_per_block fs) = block_size fs div 512" "block_size fs = 512 * (block_size fs div 512)"
    "0 < block_size fs" "sectors_per_block fs \<noteq> 0" "1024 \<le> block_size fs" "block_size fs \<le> 65536"
proof -
  obtain k where k: "k \<le> 6" "block_size fs = 1024 * 2 ^ k" using assms by (auto simp: sane_fs_def)
  have "k \<in> {0, 1, 2, 3, 4, 5, 6}" using k(1) by auto
  then show "unat (sectors_per_block fs) = block_size fs div 512" "block_size fs = 512 * (block_size fs div 512)"
    "0 < block_size fs" "sectors_per_block fs \<noteq> 0" "1024 \<le> block_size fs" "block_size fs \<le> 65536"
    using k(2) by (auto simp: sectors_per_block_def)
qed

lemma lba_of_block:
  assumes "sane_fs fs" "on_disk fs d b"
  shows "(unat (b * ucast (sectors_per_block fs)) mod 2 ^ 28) * 512 = unat b * block_size fs"
    "unat (sectors_per_block fs) * 512 = block_size fs"
proof -
  have s: "unat (ucast (sectors_per_block fs) :: u32) = block_size fs div 512"
    using sane_sizes(1) [OF assms(1)] u8_less [of "sectors_per_block fs"]
    by (simp add: unsigned_ucast_eq take_bit_nat_eq_self)
  have "unat b * (block_size fs div 512) < 2 ^ 28" using assms(2) by (simp add: on_disk_def)
  then have "unat (b * ucast (sectors_per_block fs)) mod 2 ^ 28 = unat b * (block_size fs div 512)"
    by (simp add: unat_word_ariths s)
  then show "(unat (b * ucast (sectors_per_block fs)) mod 2 ^ 28) * 512 = unat b * block_size fs"
    using sane_sizes(2) [OF assms(1)] by (metis mult.assoc mult.commute)
  show "unat (sectors_per_block fs) * 512 = block_size fs"
    using sane_sizes(1,2) [OF assms(1)] by simp
qed

lemma read_block_ok:
  assumes "sane_fs fs" "on_disk fs d b"
  shows "read_block fs b d = (Inr (blk fs d b), d)"
  using assms(2) sane_sizes(4) [OF assms(1)]
  unfolding read_block_def ata_read_def Let_def lba_of_block [OF assms]
  by (simp add: blk_def on_disk_def not_less)

lemma write_block_ok:
  assumes "sane_fs fs" "on_disk fs d b" "length buf = block_size fs"
  shows "write_block fs b buf d = (Inr (), set_blk fs d b buf)"
  using assms(2,3) sane_sizes(4) [OF assms(1)]
  unfolding write_block_def ata_write_def Let_def lba_of_block [OF assms(1,2)]
  by (simp add: set_blk_def on_disk_def not_less)

lemma length_blk [simp]: "on_disk fs d b \<Longrightarrow> length (blk fs d b) = block_size fs"
  by (simp add: blk_def on_disk_def)

lemma length_set_blk [simp]: "on_disk fs d b \<Longrightarrow> length buf = block_size fs \<Longrightarrow> length (set_blk fs d b buf) = length d"
  by (simp add: set_blk_def on_disk_def)

lemma on_disk_set_blk [simp]:
  "on_disk fs d b \<Longrightarrow> length buf = block_size fs \<Longrightarrow> on_disk fs (set_blk fs d b buf) c = on_disk fs d c"
  by (simp add: on_disk_def set_blk_def)

lemma blk_set_same: "on_disk fs d b \<Longrightarrow> length buf = block_size fs \<Longrightarrow> blk fs (set_blk fs d b buf) b = buf"
  by (simp add: blk_def set_blk_def on_disk_def slice_patch_same)

lemma blk_set_other:
  assumes "on_disk fs d b" "on_disk fs d c" "length buf = block_size fs" "c \<noteq> b"
  shows "blk fs (set_blk fs d b buf) c = blk fs d c"
proof -
  have "unat c \<noteq> unat b" using assms(4) unsigned_word_eqI [where ?'a = nat, of c b] by blast
  then have "unat c + 1 \<le> unat b \<or> unat b + 1 \<le> unat c" by linarith
  then have "(unat c + 1) * block_size fs \<le> unat b * block_size fs
      \<or> (unat b + 1) * block_size fs \<le> unat c * block_size fs"
    by (meson mult_le_mono1)
  then show ?thesis
    unfolding blk_def set_blk_def
    using assms(1-3) by (intro slice_patch_other) (auto simp: on_disk_def)
qed

section \<open>Bitmaps\<close>

lemma length_bitmap_put [simp]: "length (bitmap_put b i v) = length b"
  by (simp add: bitmap_put_def)

lemma bitmap_test_put:
  assumes "i < 8 * length b" "j < 8 * length b"
  shows "bitmap_test (bitmap_put b i v) j = (if j = i then v else bitmap_test b j)"
proof (cases "j div 8 = i div 8")
  case True
  have lt: "i div 8 < length b" using assms(1) by linarith
  have m: "i mod 8 < 8" "j mod 8 < 8" by simp_all
  have ij: "(j mod 8 = i mod 8) = (j = i)" using True by (metis div_mult_mod_eq)
  show ?thesis
    using True lt m ij by (auto simp: bitmap_test_def bitmap_put_def bit_simps)
next
  case False
  then have "j \<noteq> i" by auto
  then show ?thesis using False by (simp add: bitmap_test_def bitmap_put_def)
qed

lemma bit_ff: "k < 8 \<Longrightarrow> bit (0xFF :: u8) k"
proof -
  assume "k < 8"
  moreover have "(0xFF :: u8) = mask 8" by (simp add: mask_eq_exp_minus_1)
  ultimately show ?thesis by (simp only: bit_mask_iff) simp
qed

lemma test_bit_of_byte: "k < 8 \<Longrightarrow> (byte AND 2 ^ k = (0 :: u8)) \<longleftrightarrow> \<not> bit byte k"
  by (simp add: and_exp_eq_0_iff_not_bit)

lemma scan_bits_eq:
  "n \<le> 8 \<Longrightarrow> scan_bits m byte i [k..<n] = (if \<exists>j. k \<le> j \<and> j < n \<and> i * 8 + j < m \<and> \<not> bit byte j
     then Some (i * 8 + (LEAST j. k \<le> j \<and> j < n \<and> i * 8 + j < m \<and> \<not> bit byte j)) else None)"
proof (induction "n - k" arbitrary: k)
  case 0
  then show ?case by auto
next
  case (Suc x)
  then have k: "k < n" "[k..<n] = k # [Suc k..<n]" by (auto simp: upt_conv_Cons)
  let ?P = "\<lambda>k j. k \<le> j \<and> j < n \<and> i * 8 + j < m \<and> \<not> bit byte j"
  show ?case
  proof (cases "i * 8 + k < m \<and> \<not> bit byte k")
    case True
    then have "?P k k" using k by simp
    moreover then have "(LEAST j. ?P k j) = k" by (intro Least_equality) auto
    ultimately show ?thesis using True k Suc.prems by (auto simp: test_bit_of_byte)
  next
    case False
    then have eq: "?P k j = ?P (Suc k) j" for j
      using False by (cases "j = k") auto
    show ?thesis
    proof (cases "i * 8 + k < m")
      case True
      have "scan_bits m byte i [k..<n] = scan_bits m byte i [Suc k..<n]"
        using True False k Suc.prems by (simp add: test_bit_of_byte)
      also have "\<dots> = (if \<exists>j. ?P (Suc k) j then Some (i * 8 + (LEAST j. ?P (Suc k) j)) else None)"
        using Suc.hyps by (intro Suc.hyps(1)) (auto simp: Suc.prems)
      finally show ?thesis by (simp only: eq)
    next
      case over: False
      then have "\<nexists>j. ?P k j" by auto
      then show ?thesis using over k by simp
    qed
  qed
qed

lemma scan_bits_Some:
  assumes "scan_bits m byte i [0..<8] = Some x"
  shows "x div 8 = i" "x < m" "\<not> bit byte (x mod 8)" "\<forall>j. i * 8 \<le> j \<and> j < x \<longrightarrow> bit byte (j mod 8)"
proof -
  let ?P = "\<lambda>j. 0 \<le> j \<and> j < 8 \<and> i * 8 + j < m \<and> \<not> bit byte j"
  have ex: "\<exists>j. ?P j" and x: "x = i * 8 + (LEAST j. ?P j)"
    using assms scan_bits_eq [of 8 m byte i 0] by (auto split: if_splits)
  have P: "?P (LEAST j. ?P j)" using ex by (rule LeastI_ex)
  then show "x div 8 = i" "x < m" "\<not> bit byte (x mod 8)" using x by auto
  show "\<forall>j. i * 8 \<le> j \<and> j < x \<longrightarrow> bit byte (j mod 8)"
  proof (intro allI impI)
    fix j assume j: "i * 8 \<le> j \<and> j < x"
    then have "j - i * 8 < (LEAST j. ?P j)" using x by linarith
    then have "\<not> ?P (j - i * 8)" by (rule not_less_Least)
    moreover have "j - i * 8 < 8" "i * 8 + (j - i * 8) < m" using j x P by linarith+
    moreover have "j mod 8 = j - i * 8"
      using j \<open>j - i * 8 < 8\<close> by (metis le_add_diff_inverse mod_less mod_mult_self3 mult.commute)
    ultimately show "bit byte (j mod 8)" by auto
  qed
qed

lemma scan_bits_None:
  assumes "scan_bits m byte i [0..<8] = None" "j div 8 = i" "j < m"
  shows "bit byte (j mod 8)"
proof -
  have "j = i * 8 + j mod 8" using assms(2) by (metis div_mult_mod_eq)
  then show ?thesis
    using assms scan_bits_eq [of 8 m byte i 0] by (auto split: if_splits)
qed

text \<open>In terms of the bitmap: the first byte of \<open>bs\<close> is byte \<open>k\<close> of it.\<close>

lemma scan_bytes_Some:
  "scan_bytes m k bs = Some x \<Longrightarrow> k * 8 \<le> x \<and> x < m \<and> x < (k + length bs) * 8
     \<and> \<not> bit (bs ! (x div 8 - k)) (x mod 8)
     \<and> (\<forall>j. k * 8 \<le> j \<and> j < x \<longrightarrow> bit (bs ! (j div 8 - k)) (j mod 8))"
proof (induction bs arbitrary: k)
  case (Cons b bs)
  show ?case
  proof (cases "b \<noteq> 0xFF \<and> scan_bits m b k [0..<8] \<noteq> None")
    case True
    then have here: "scan_bits m b k [0..<8] = Some x" using Cons.prems by auto
    note h = scan_bits_Some [OF here]
    have "j div 8 = k" if "k * 8 \<le> j" "j < x" for j
      using that h(1) by (metis Suc_eq_plus1 div_le_mono le_antisym less_or_eq_imp_le nonzero_mult_div_cancel_right zero_neq_numeral)
    moreover have "x < (k + length (b # bs)) * 8" "k * 8 \<le> x" using h(1) by auto
    ultimately show ?thesis using h by auto
  next
    case False
    then have next_byte: "scan_bytes m (k + 1) bs = Some x" using Cons.prems by (auto split: if_splits)
    note IH = Cons.IH [OF next_byte]
    have full: "bit b (j mod 8)" if "k * 8 \<le> j" "j < (k + 1) * 8" "j < x" for j
    proof -
      have jk: "j div 8 = k" using that(1,2) by auto
      show ?thesis
      proof (cases "b = 0xFF")
        case True
        have "bit (0xFF :: u8) (j mod 8)" by (rule bit_ff) simp
        with True show ?thesis by simp
      next
        case no: False
        then have "scan_bits m b k [0..<8] = None" using False by simp
        from scan_bits_None [OF this jk] show ?thesis using that(3) IH by simp
      qed
    qed
    have "bit ((b # bs) ! (j div 8 - k)) (j mod 8)" if "k * 8 \<le> j" "j < x" for j
    proof (cases "j < (k + 1) * 8")
      case True
      then have "j div 8 = k" using that(1) by auto
      then show ?thesis using full [OF that(1) True that(2)] by simp
    next
      case False
      then have "j div 8 - k = Suc (j div 8 - (k + 1))" by auto
      then show ?thesis using IH that(2) False by simp
    qed
    moreover have "x div 8 - k = Suc (x div 8 - (k + 1))" using IH by auto
    ultimately show ?thesis using IH by auto
  qed
qed simp

lemma scan_bytes_None:
  "scan_bytes m k bs = None \<Longrightarrow> k * 8 \<le> j \<Longrightarrow> j < m \<Longrightarrow> j < (k + length bs) * 8 \<Longrightarrow>
   bit (bs ! (j div 8 - k)) (j mod 8)"
proof (induction bs arbitrary: k)
  case (Cons b bs)
  show ?case
  proof (cases "j < (k + 1) * 8")
    case True
    then have jk: "j div 8 = k" using Cons.prems(2) by auto
    show ?thesis
    proof (cases "b = 0xFF")
      case True
      have "bit (0xFF :: u8) (j mod 8)" by (rule bit_ff) simp
      with True jk show ?thesis by simp
    next
      case False
      then have "scan_bits m b k [0..<8] = None" using Cons.prems(1) by (auto split: option.splits)
      then show ?thesis using scan_bits_None [OF _ jk Cons.prems(3)] jk by simp
    qed
  next
    case False
    then have "j div 8 - k = Suc (j div 8 - (k + 1))" by auto
    moreover have "scan_bytes m (k + 1) bs = None" using Cons.prems(1) by (auto split: if_splits option.splits)
    ultimately show ?thesis using Cons.IH [of "k + 1"] Cons.prems False by simp
  qed
qed simp

lemma bitmap_take_Some:
  assumes "bitmap_take m b = Some (i, b')" "m \<le> 8 * length b"
  shows "i < m" "\<not> bitmap_test b i" "\<forall>j < i. bitmap_test b j" "b' = bitmap_put b i True"
  using assms scan_bytes_Some [of m 0 b i] by (auto simp: bitmap_take_def bitmap_test_def split: option.splits)

lemma bitmap_take_None:
  assumes "m \<le> 8 * length b"
  shows "bitmap_take m b = None \<longleftrightarrow> (\<forall>j < m. bitmap_test b j)"
proof
  assume "bitmap_take m b = None"
  then have "scan_bytes m 0 b = None" by (auto simp: bitmap_take_def split: option.splits)
  then show "\<forall>j < m. bitmap_test b j"
    using scan_bytes_None [of m 0 b] assms by (auto simp: bitmap_test_def)
next
  assume "\<forall>j < m. bitmap_test b j"
  then show "bitmap_take m b = None"
    using scan_bytes_Some [of m 0 b] by (cases "scan_bytes m 0 b") (auto simp: bitmap_take_def bitmap_test_def)
qed

text \<open>A bitmap of \<open>n\<close> bits is a bit store, where a clear bit is a free index, and its search is a
  first-fit allocator.\<close>

definition bitmap_free :: "u8 list \<Rightarrow> nat \<Rightarrow> bool" where
  "bitmap_free b i \<longleftrightarrow> \<not> bitmap_test b i"

definition bitmap_mark :: "u8 list \<Rightarrow> nat \<Rightarrow> bool \<Rightarrow> u8 list" where
  "bitmap_mark b i free = bitmap_put b i (\<not> free)"

interpretation bitmap: first_fit bitmap_free bitmap_mark "\<lambda>b. n \<le> 8 * length b" n "bitmap_take n"
  for n
proof unfold_locales
  fix s :: "u8 list" and i j v
  assume "n \<le> 8 * length s" "i < n" "j < n"
  then show "bitmap_free (bitmap_mark s i v) j = (if j = i then v else bitmap_free s j)"
    by (simp add: bitmap_free_def bitmap_mark_def bitmap_test_put)
next
  fix s :: "u8 list" and i s'
  assume ok: "n \<le> 8 * length s" and take: "bitmap_take n s = Some (i, s')"
  note t = bitmap_take_Some [OF take ok]
  have "bit_set (bitmap_free (bitmap_put s i True)) n = bit_set (bitmap_free s) n - {i}"
    using ok t(1) by (auto simp: bit_set_def bitmap_free_def bitmap_test_put split: if_splits)
  then show "i < n \<and> bitmap_free s i \<and> (\<forall>j < i. \<not> bitmap_free s j) \<and> n \<le> 8 * length s'
      \<and> bit_set (bitmap_free s') n = bit_set (bitmap_free s) n - {i}"
    using ok t by (simp add: bitmap_free_def)
next
  fix s :: "u8 list"
  assume "n \<le> 8 * length s"
  then show "(bitmap_take n s = None) = (bit_set (bitmap_free s) n = {})"
    by (auto simp: bitmap_take_None bit_set_def bitmap_free_def)
qed (simp add: bitmap_mark_def)

section \<open>Allocating and releasing blocks\<close>

text \<open>A disk on which the descriptor of group 0 and the block bitmap it names can be read, in
  different blocks, and every block of the group has its bit.\<close>

definition group0 :: "ext3 \<Rightarrow> disk \<Rightarrow> BgDescriptor" where
  "group0 fs d = bg_of (blk fs d (bg_desc_table_block fs)) 0"

definition bitmap_ok :: "ext3 \<Rightarrow> disk \<Rightarrow> bool" where
  "bitmap_ok fs d \<longleftrightarrow> sane_fs fs \<and> on_disk fs d (bg_desc_table_block fs)
     \<and> on_disk fs d (block_bitmap (group0 fs d))
     \<and> block_bitmap (group0 fs d) \<noteq> bg_desc_table_block fs
     \<and> unat (blocks_per_group fs) \<le> 8 * block_size fs"

definition block_bits :: "ext3 \<Rightarrow> disk \<Rightarrow> u8 list" where
  "block_bits fs d = blk fs d (block_bitmap (group0 fs d))"

lemma read_group0:
  assumes "sane_fs fs" "on_disk fs d (bg_desc_table_block fs)"
  shows "read_bg_desc fs 0 d = (Inr (group0 fs d), d)"
proof -
  have "block_size fs div BG_SIZE < 2 ^ 32" "0 < block_size fs div BG_SIZE"
    using sane_sizes(5,6) [OF assms(1)] by (auto simp: BG_SIZE_def)
  then have "(of_nat (block_size fs div BG_SIZE) :: u32) \<noteq> 0"
    by (simp add: word_of_nat_eq_0_iff take_bit_nat_eq_self nat_dvd_not_less)
  then show ?thesis
    by (simp add: read_bg_desc_def Let_def bindD_def okD_def read_block_ok [OF assms] group0_def)
qed

lemma length_block_bits: "bitmap_ok fs d \<Longrightarrow> length (block_bits fs d) = block_size fs"
  by (simp add: bitmap_ok_def block_bits_def)

lemma group0_set_bits:
  assumes "bitmap_ok fs d" "length b = block_size fs" "d' = set_blk fs d (block_bitmap (group0 fs d)) b"
  shows "group0 fs d' = group0 fs d" "bitmap_ok fs d'" "block_bits fs d' = b"
    "\<forall>c. on_disk fs d c \<and> c \<noteq> block_bitmap (group0 fs d) \<longrightarrow> blk fs d' c = blk fs d c"
proof -
  have ok: "on_disk fs d (block_bitmap (group0 fs d))" "on_disk fs d (bg_desc_table_block fs)"
    "bg_desc_table_block fs \<noteq> block_bitmap (group0 fs d)"
    using assms(1) by (auto simp: bitmap_ok_def)
  show g: "group0 fs d' = group0 fs d"
    using blk_set_other [OF ok(1,2) assms(2) ok(3)] by (simp add: group0_def assms(3))
  show "bitmap_ok fs d'" using assms g ok by (simp add: bitmap_ok_def)
  show "block_bits fs d' = b" using assms(2,3) g ok(1) by (simp add: block_bits_def blk_set_same)
  show "\<forall>c. on_disk fs d c \<and> c \<noteq> block_bitmap (group0 fs d) \<longrightarrow> blk fs d' c = blk fs d c"
    using assms(2,3) ok(1) by (simp add: blk_set_other)
qed

lemma bitmap_alloc_disk:
  assumes "bitmap_ok fs d"
  shows "alloc_block fs d =
    (case bitmap_take (unat (blocks_per_group fs)) (block_bits fs d) of
       None \<Rightarrow> (Inl ''no free bits in bitmap'', d)
     | Some (i, b) \<Rightarrow> (Inr (of_nat i), set_blk fs d (block_bitmap (group0 fs d)) b))"
proof -
  have ok: "sane_fs fs" "on_disk fs d (bg_desc_table_block fs)" "on_disk fs d (block_bitmap (group0 fs d))"
    using assms by (auto simp: bitmap_ok_def)
  have len: "bitmap_take m (block_bits fs d) = Some (i, b) \<Longrightarrow> length b = block_size fs" for m i b
    using length_block_bits [OF assms] by (auto simp: bitmap_take_def split: option.splits)
  show ?thesis
    using len
    by (auto simp: alloc_block_def bitmap_alloc_def dio_defs read_group0 [OF ok(1,2)] read_block_ok [OF ok(1,3)]
        block_bits_def [symmetric] write_block_ok [OF ok(1,3)] split: option.split)
qed

lemma free_block_disk:
  assumes "bitmap_ok fs d" "unat b < 8 * block_size fs"
  shows "free_block fs b d = (Inr (), set_blk fs d (block_bitmap (group0 fs d)) (bitmap_put (block_bits fs d) (unat b) False))"
proof -
  have ok: "sane_fs fs" "on_disk fs d (bg_desc_table_block fs)" "on_disk fs d (block_bitmap (group0 fs d))"
    using assms by (auto simp: bitmap_ok_def)
  show ?thesis
    using assms(2) length_block_bits [OF assms(1)]
    by (auto simp: free_block_def bitmap_set_def dio_defs read_group0 [OF ok(1,2)] read_block_ok [OF ok(1,3)]
        block_bits_def [symmetric] write_block_ok [OF ok(1,3)] not_le)
qed

text \<open>C33. \<open>alloc_block\<close> takes the lowest free block of the group: it fails exactly when every
  bit of the block bitmap is set and then leaves the disk alone; otherwise it returns the lowest
  clear bit, and on the disk exactly this bit is set and every other block is unchanged.\<close>

theorem ext3_alloc_block_first_fit:
  assumes "bitmap_ok fs d" "n = unat (blocks_per_group fs)"
  shows "if \<forall>i \<in> {..<n}. bitmap_test (block_bits fs d) i
     then alloc_block fs d = (Inl ''no free bits in bitmap'', d)
     else let m = Min (bit_set (bitmap_free (block_bits fs d)) n) in
       \<exists>d'. alloc_block fs d = (Inr (of_nat m), d') \<and> m < n \<and> bitmap_ok fs d'
         \<and> block_bits fs d' = bitmap_put (block_bits fs d) m True
         \<and> (\<forall>c. on_disk fs d c \<and> c \<noteq> block_bitmap (group0 fs d) \<longrightarrow> blk fs d' c = blk fs d c)"
proof -
  let ?b = "block_bits fs d"
  have len: "n \<le> 8 * length ?b" using assms by (simp add: length_block_bits bitmap_ok_def)
  show ?thesis
  proof (cases "\<forall>i \<in> {..<n}. bitmap_test ?b i")
    case True
    then have "bitmap_take n ?b = None" using bitmap_take_None [OF len] by auto
    then show ?thesis using True bitmap_alloc_disk [OF assms(1)] assms(2) by simp
  next
    case False
    then have "bit_set (bitmap_free ?b) n \<noteq> {}" by (auto simp: bit_set_def bitmap_free_def)
    from bitmap.alloc_least [OF len this] obtain s where
      t: "bitmap_take n ?b = Some (Min (bit_set (bitmap_free ?b) n), s)" by blast
    note T = bitmap_take_Some [OF t len]
    have "length (bitmap_put ?b (Min (bit_set (bitmap_free ?b) n)) True) = block_size fs"
      using assms(1) by (simp add: length_block_bits)
    note G = group0_set_bits [OF assms(1) this refl]
    have A: "alloc_block fs d = (Inr (of_nat (Min (bit_set (bitmap_free ?b) n))),
        set_blk fs d (block_bitmap (group0 fs d)) (bitmap_put ?b (Min (bit_set (bitmap_free ?b) n)) True))"
      using bitmap_alloc_disk [OF assms(1)] t T(4) assms(2) by simp
    show ?thesis
      unfolding Let_def using False A T(1) G(2-4) by (simp only: if_False) blast
  qed
qed

text \<open>A disk of eight blocks: the descriptor in block 2, the bitmap, with its first three bits set, in
  block 3.\<close>

definition sample_fs :: ext3 where
  "sample_fs = \<lparr>block_size = 1024, inodes_per_group = 8, blocks_per_group = 8,
     bg_desc_table_block = 2, bg_count = 1\<rparr>"

definition sample_disk :: disk where
  "sample_disk = replicate 2048 0 @ (le32 3 @ replicate 1020 0) @ ([7] @ replicate 1023 0) @ replicate 4096 0"

lemma sample_sane: "sane_fs sample_fs"
  by (auto simp: sane_fs_def sample_fs_def intro: exI [of _ "0 :: nat"])

lemma sample_group0: "block_bitmap (group0 sample_fs sample_disk) = 3"
proof -
  have "blk sample_fs sample_disk 2 = le32 3 @ replicate 1020 0"
    by (simp add: blk_def slc_def sample_fs_def sample_disk_def)
  moreover have "rd32 (le32 3 @ replicate 1020 0) 0 = 3"
    using of_le32_nth [of 3] by (simp add: rd32_def nth_append numeral_2_eq_2 [symmetric])
  ultimately show ?thesis by (simp add: group0_def bg_of_def sample_fs_def)
qed

lemma sample_bitmap_ok: "bitmap_ok sample_fs sample_disk"
  using sample_sane sample_group0 by (simp add: bitmap_ok_def on_disk_def sample_fs_def sample_disk_def)

lemma sample_bits: "block_bits sample_fs sample_disk = [7] @ replicate 1023 0"
  by (simp add: block_bits_def sample_group0) (simp add: blk_def slc_def sample_fs_def sample_disk_def)

theorem ext3_alloc_block_first_fit_witness:
  "\<exists>d'. alloc_block sample_fs sample_disk = (Inr 3, d') \<and> bitmap_ok sample_fs d'
     \<and> block_bits sample_fs d' = bitmap_put ([7] @ replicate 1023 0) 3 True"
proof -
  have test: "bitmap_test ([7] @ replicate 1023 0) i \<longleftrightarrow> i < 3" if "i < 8" for i
  proof -
    have "i = 0 \<or> i = 1 \<or> i = 2 \<or> i = 3 \<or> i = 4 \<or> i = 5 \<or> i = 6 \<or> i = 7" using that by linarith
    then show ?thesis by (auto simp: bitmap_test_def bit_numeral_rec)
  qed
  have free: "bit_set (bitmap_free ([7] @ replicate 1023 0)) 8 = {i. 3 \<le> i \<and> i < 8}"
    using test by (auto simp: bit_set_def bitmap_free_def)
  have least: "Min {i. 3 \<le> i \<and> i < (8 :: nat)} = 3" by (rule Min_eqI) auto
  have some: "\<not> (\<forall>i \<in> {..<8 :: nat}. bitmap_test ([7] @ replicate 1023 0) i)"
    using test [of 3] by (auto intro!: bexI [of _ 3])
  have "8 = unat (blocks_per_group sample_fs)" by (simp add: sample_fs_def)
  from ext3_alloc_block_first_fit [OF sample_bitmap_ok this] obtain d' where
    "alloc_block sample_fs sample_disk = (Inr (of_nat 3), d')" "bitmap_ok sample_fs d'"
    "block_bits sample_fs d' = bitmap_put ([7] @ replicate 1023 0) 3 True"
    unfolding sample_bits if_not_P [OF some] Let_def free least by blast
  then show ?thesis by (intro exI [of _ d']) simp
qed



end
