(* ===== verification/Ext3Files.thy ===== *)
theory Ext3Files
  imports Ext3Blocks
begin

text \<open>
  File contents and inodes of the ext2/3 file system: what \<open>write_file_data\<close> puts into the direct
  blocks of a file is what \<open>read_file_inode\<close> returns, and an inode that was written is read back.
\<close>

section \<open>The blocks of a file\<close>

lemma less_blocks_for: "0 < block_size fs \<Longrightarrow> k < blocks_for fs n \<longleftrightarrow> k * block_size fs < n"
proof -
  assume bs: "0 < block_size fs"
  have "k < blocks_for fs n \<longleftrightarrow> Suc k * block_size fs \<le> n + block_size fs - 1"
    unfolding blocks_for_def using bs by (simp only: Suc_le_eq [symmetric] less_eq_div_iff_mult_less_eq)
  also have "\<dots> \<longleftrightarrow> k * block_size fs < n" using bs by auto
  finally show ?thesis .
qed

definition content_block :: "ext3 \<Rightarrow> u8 list \<Rightarrow> nat \<Rightarrow> u8 list" where
  "content_block fs data k =
     (let copy = min (length data - k * block_size fs) (block_size fs) in
      slc (k * block_size fs) (k * block_size fs + copy) data @ replicate (block_size fs - copy) 0)"

lemma length_content_block:
  "k * block_size fs < length data \<Longrightarrow> length (content_block fs data k) = block_size fs"
  by (auto simp: content_block_def Let_def slc_def)

lemma grow_file_allocated:
  "\<forall>k \<in> set is. k < 12 \<and> i_block inode ! k \<noteq> 0 \<Longrightarrow> grow_file fs is inode d = (Inr inode, d)"
  by (induction "is") (auto simp: dio_defs Let_def)

lemma write_blocks_in_place:
  assumes "sane_fs fs"
  shows "distinct (map (\<lambda>k. i_block inode ! k) is) \<Longrightarrow>
    \<forall>k \<in> set is. k < 12 \<and> k * block_size fs < length data \<and> on_disk fs d (i_block inode ! k) \<Longrightarrow>
    \<exists>d'. write_blocks fs inode is data d = (Inr (), d') \<and> length d' = length d
      \<and> (\<forall>k \<in> set is. blk fs d' (i_block inode ! k) = content_block fs data k)
      \<and> (\<forall>c. on_disk fs d c \<and> c \<notin> (\<lambda>k. i_block inode ! k) ` set is \<longrightarrow> blk fs d' c = blk fs d c)"
proof (induction "is" arbitrary: d)
  case Nil
  then show ?case by (simp add: okD_def)
next
  case (Cons k "is")
  let ?B = "\<lambda>k. i_block inode ! k"
  let ?c = "content_block fs data k"
  let ?d = "set_blk fs d (?B k) ?c"
  have k: "k < 12" "on_disk fs d (?B k)" "length ?c = block_size fs"
    using Cons.prems(2) by (auto intro: length_content_block)
  have w: "write_blocks fs inode (k # is) data d = write_blocks fs inode is data ?d"
    using k(1) write_block_ok [OF assms k(2,3)]
    by (simp add: content_block_def Let_def bindD_def)
  have "\<forall>j \<in> set is. j < 12 \<and> j * block_size fs < length data \<and> on_disk fs ?d (?B j)"
    using Cons.prems(2) k by simp
  with Cons.IH [of ?d] Cons.prems(1) obtain d' where d': "write_blocks fs inode is data ?d = (Inr (), d')"
    "length d' = length ?d" "\<forall>j \<in> set is. blk fs d' (?B j) = content_block fs data j"
    "\<forall>c. on_disk fs ?d c \<and> c \<notin> ?B ` set is \<longrightarrow> blk fs d' c = blk fs ?d c" by auto
  have "blk fs d' (?B k) = ?c"
    using d'(4) k Cons.prems(1) by (auto simp: blk_set_same)
  moreover have "blk fs d' c = blk fs d c" if "on_disk fs d c" "c \<notin> ?B ` set (k # is)" for c
    using that d'(4) k blk_set_other [OF k(2) that(1) k(3)] by simp
  ultimately show ?case using w d' k by auto
qed

lemma read_blocks_back:
  assumes "sane_fs fs" "n = blocks_for fs (length data)" "n \<le> 12"
    and "\<forall>j < n. i_block inode ! j \<noteq> 0 \<and> on_disk fs d (i_block inode ! j)
        \<and> blk fs d (i_block inode ! j) = content_block fs data j"
  shows "k \<le> n \<Longrightarrow> read_blocks fs inode [k..<n]
    (take (k * block_size fs) data @ replicate (length data - k * block_size fs) 0) d = (Inr data, d)"
proof (induction "n - k" arbitrary: k)
  case 0
  have bs: "0 < block_size fs" using sane_sizes(3) [OF assms(1)] .
  have "\<not> n < blocks_for fs (length data)" using assms(2) by simp
  then have "length data \<le> n * block_size fs" using less_blocks_for [OF bs] by (simp add: not_less)
  moreover have "k = n" using 0 by simp
  ultimately show ?case by (simp add: okD_def)
next
  case (Suc x)
  let ?bs = "block_size fs" and ?L = "length data"
  let ?acc = "\<lambda>k. take (k * ?bs) data @ replicate (?L - k * ?bs) (0 :: u8)"
  have k: "k < n" "[k..<n] = k # [Suc k..<n]" using Suc.hyps(2) by (auto simp: upt_conv_Cons)
  have bs: "0 < ?bs" using sane_sizes(3) [OF assms(1)] .
  have lt: "k * ?bs < ?L" using k(1) assms(2) less_blocks_for [OF bs] by simp
  note B = assms(4) [rule_format, OF k(1)]
  let ?copy = "min (?L - k * ?bs) ?bs"
  have tk: "take ?copy (content_block fs data k) = slc (k * ?bs) (k * ?bs + ?copy) data"
    by (auto simp: content_block_def Let_def slc_def)
  have len: "length (?acc k) = ?L" using lt by simp
  have step: "patch (?acc k) (k * ?bs) (slc (k * ?bs) (k * ?bs + ?copy) data) = ?acc (Suc k)"
  proof -
    have "take (k * ?bs) (?acc k) = take (k * ?bs) data" using lt by simp
    moreover have "length (slc (k * ?bs) (k * ?bs + ?copy) data) = ?copy" using lt by (simp add: slc_def)
    moreover have "drop (k * ?bs + ?copy) (?acc k) = replicate (?L - Suc k * ?bs) 0"
      using lt by (auto simp: min_def)
    moreover have "take (k * ?bs) data @ slc (k * ?bs) (k * ?bs + ?copy) data = take (Suc k * ?bs) data"
      using lt by (auto simp: slc_def take_add [symmetric] min_def add.commute)
    ultimately show ?thesis by (simp add: patch_def append_assoc [symmetric] del: append_assoc)
  qed
  have "read_blocks fs inode [k..<n] (?acc k) d = read_blocks fs inode [Suc k..<n] (?acc (Suc k)) d"
    using k B assms(3) len
    by (simp add: inode_block_def dio_defs read_block_ok [OF assms(1)] Let_def tk step del: upt_Suc length_append)
  also have "\<dots> = (Inr data, d)" using Suc by (intro Suc.hyps(1)) auto
  finally show ?case .
qed

lemma write_read_back:
  assumes "sane_fs fs" "length (i_block inode) = 15"
    and "n = blocks_for fs (length data)" "n \<le> 12" "blocks_for fs (unat (i_size inode)) \<le> n"
    and "distinct (take n (i_block inode))"
    and "\<forall>b \<in> set (take n (i_block inode)). b \<noteq> 0 \<and> on_disk fs d b"
  shows "\<exists>inode' d'. write_file_data fs inode data d = (Inr inode', d')
    \<and> read_file_inode fs inode' d' = (Inr data, d') \<and> i_block inode' = i_block inode
    \<and> i_size inode' = of_nat (length data) \<and> length d' = length d
    \<and> (\<forall>c. on_disk fs d c \<and> c \<notin> set (take n (i_block inode)) \<longrightarrow> blk fs d' c = blk fs d c)"
proof -
  let ?B = "\<lambda>k. i_block inode ! k"
  have bs: "0 < block_size fs" "block_size fs \<noteq> 0" "block_size fs \<le> 65536"
    using sane_sizes(3,6) [OF assms(1)] by auto
  have tk: "take n (i_block inode) = map ?B [0..<n]"
    using assms(2,4) by (intro nth_equalityI) simp_all
  have all: "\<forall>k < n. ?B k \<noteq> 0 \<and> on_disk fs d (?B k)" using assms(7) by (auto simp: tk)
  have fit: "\<forall>k < n. k * block_size fs < length data" using assms(3) less_blocks_for [OF bs(1)] by simp
  have "\<not> n < blocks_for fs (length data)" using assms(3) by simp
  then have "length data \<le> n * block_size fs" using less_blocks_for [OF bs(1)] by (simp add: not_less)
  also have "n * block_size fs \<le> 12 * 65536" using assms(4) bs(3) by (rule mult_le_mono)
  finally have small: "unat (of_nat (length data) :: u32) = length data"
    by (simp add: unsigned_of_nat take_bit_nat_eq_self)
  have g: "grow_file fs [0..<n] inode d = (Inr inode, d)"
    using all assms(4) by (intro grow_file_allocated) auto
  have "distinct (map ?B [0..<n])" using assms(6) by (simp add: tk)
  from write_blocks_in_place [OF assms(1) this, of data d] all fit assms(4)
  obtain d' where d': "write_blocks fs inode [0..<n] data d = (Inr (), d')" "length d' = length d"
    "\<forall>k < n. blk fs d' (?B k) = content_block fs data k"
    "\<forall>c. on_disk fs d c \<and> c \<notin> ?B ` set [0..<n] \<longrightarrow> blk fs d' c = blk fs d c" by auto
  have nofree: "[n..<blocks_for fs (unat (i_size inode))] = []" using assms(5) by simp
  have f: "free_blocks fs [n..<blocks_for fs (unat (i_size inode))] inode d' = (Inr inode, d')"
    unfolding nofree by (simp add: okD_def)
  let ?i = "inode\<lparr>i_size := of_nat (length data)\<rparr>"
  have w: "write_file_data fs inode data d = (Inr ?i, d')"
    unfolding write_file_data_def Let_def assms(3) [symmetric]
    using bs(2) g d'(1) f by (simp add: bindD_def okD_def del: upt_eq_Nil_conv)
  have od: "on_disk fs d' c = on_disk fs d c" for c using d'(2) by (simp add: on_disk_def)
  have "read_blocks fs ?i [0..<n] (take (0 * block_size fs) data @ replicate (length data - 0 * block_size fs) 0) d' = (Inr data, d')"
    using all d'(3) by (intro read_blocks_back [OF assms(1,3,4)]) (simp_all add: od)
  then have "read_file_inode fs ?i d' = (Inr data, d')"
    using bs(2) small assms(3) by (simp add: read_file_inode_def Let_def)
  then show ?thesis using w d'(2,4) by (intro exI [of _ ?i] exI [of _ d']) (simp add: tk)
qed


text \<open>A file of two blocks, 5 and 6, on the sample disk.\<close>

definition sample_inode :: Inode where
  "sample_inode = new_inode\<lparr>i_block := [5, 6] @ replicate 13 0\<rparr>"


end
