(* ===== verification/Ext3Dirs.thy ===== *)
theory Ext3Dirs
  imports Ext3Files
begin

text \<open>
  Directories of the ext2/3 file system: the contents of a directory as a list of entries, what
  the scans of the code see in them, and what adding and removing an entry does to the listing,
  first on the bytes, then on the disk.
\<close>

section \<open>Entries as bytes\<close>

record dirent =
  d_ino :: u32
  d_ft :: u8
  d_nm :: "u8 list"
  d_pad :: "u8 list"

definition ent_len :: "dirent \<Rightarrow> nat" where
  "ent_len e = 8 + length (d_nm e) + length (d_pad e)"

definition ent_bytes :: "dirent \<Rightarrow> u8 list" where
  "ent_bytes e = dir_entry_bytes (d_ino e) (of_nat (ent_len e)) (d_nm e) (d_ft e) @ d_pad e"

definition dir_bytes :: "dirent list \<Rightarrow> u8 list" where
  "dir_bytes es = concat (map ent_bytes es)"

definition ent_ok :: "dirent \<Rightarrow> bool" where
  "ent_ok e \<longleftrightarrow> d_ino e \<noteq> 0 \<and> length (d_nm e) < 256 \<and> ent_len e < 65536"

definition listed :: "dirent \<Rightarrow> (u8 list \<times> u32 \<times> u8) list" where
  "listed e =
     (let nm = from_utf8_or (d_nm e) (ascii ''<invalid>'') in
      if nm \<noteq> ascii ''.'' \<and> nm \<noteq> ascii ''..'' then [(nm, d_ino e, d_ft e)] else [])"

definition listing :: "dirent list \<Rightarrow> (u8 list \<times> u32 \<times> u8) list" where
  "listing es = concat (map listed es)"

lemma dir_bytes_simps [simp]:
  "dir_bytes [] = []" "dir_bytes (e # es) = ent_bytes e @ dir_bytes es" "dir_bytes (es @ fs) = dir_bytes es @ dir_bytes fs"
  by (simp_all add: dir_bytes_def)

lemma listing_simps [simp]:
  "listing [] = []" "listing (e # es) = listed e @ listing es" "listing (es @ fs) = listing es @ listing fs"
  by (simp_all add: listing_def)

lemma length_ent_bytes [simp]: "length (ent_bytes e) = ent_len e"
  by (simp add: ent_bytes_def ent_len_def dir_entry_bytes_def)

lemma ent_len_pos: "8 \<le> ent_len e"
  by (simp add: ent_len_def)

lemma rd32_at: "rd32 (pre @ le32 w @ post) (length pre) = w"
  using of_le32_nth [of w] by (simp add: rd32_def nth_append)

lemma rd16_at: "rd16 (pre @ le16 w @ post) (length pre) = w"
  using of_le16_nth [of w] by (simp add: rd16_def nth_append)

lemma at_entry:
  assumes "ent_ok e" "raw = pre @ ent_bytes e @ post" "off = length pre"
  shows "de_inode raw off = d_ino e" "unat (de_rec_len raw off) = ent_len e" "de_rec_len raw off \<noteq> 0"
    "de_name_len raw off = length (d_nm e)" "de_file_type raw off = d_ft e" "de_name raw off = d_nm e"
    "off + 8 + length (d_nm e) \<le> length raw"
proof -
  have raw: "raw = pre @ le32 (d_ino e) @ le16 (of_nat (ent_len e)) @ [of_nat (length (d_nm e)), d_ft e] @ d_nm e @ d_pad e @ post"
    using assms(2) by (simp add: ent_bytes_def dir_entry_bytes_def)
  show "de_inode raw off = d_ino e" unfolding de_inode_def raw assms(3) by (rule rd32_at)
  have "raw = (pre @ le32 (d_ino e)) @ le16 (of_nat (ent_len e)) @ [of_nat (length (d_nm e)), d_ft e] @ d_nm e @ d_pad e @ post"
    by (simp add: raw)
  moreover have "off + 4 = length (pre @ le32 (d_ino e))" using assms(3) by simp
  ultimately have r: "de_rec_len raw off = of_nat (ent_len e)" unfolding de_rec_len_def by (metis rd16_at)
  show "unat (de_rec_len raw off) = ent_len e"
    using assms(1) by (simp add: r ent_ok_def unsigned_of_nat take_bit_nat_eq_self)
  then show "de_rec_len raw off \<noteq> 0" using ent_len_pos [of e] by auto
  show n: "de_name_len raw off = length (d_nm e)"
    using assms(1,3) by (simp add: de_name_len_def raw nth_append ent_ok_def unsigned_of_nat take_bit_nat_eq_self)
  show "de_file_type raw off = d_ft e" using assms(3) by (simp add: de_file_type_def raw nth_append)
  show "de_name raw off = d_nm e"
    unfolding de_name_def n using assms(3) by (simp add: raw slc_def)
  show "off + 8 + length (d_nm e) \<le> length raw" using assms(3) by (simp add: raw)
qed

section \<open>The scans\<close>

lemma scan_listing:
  "list_all ent_ok es \<Longrightarrow> dir_entries (pre @ dir_bytes es @ post) (length pre)
    = listing es @ dir_entries (pre @ dir_bytes es @ post) (length pre + length (dir_bytes es))"
proof (induction es arbitrary: pre)
  case (Cons e es)
  let ?raw = "pre @ dir_bytes (e # es) @ post"
  have ok: "ent_ok e" and raw: "?raw = pre @ ent_bytes e @ (dir_bytes es @ post)" using Cons.prems by simp_all
  note A = at_entry [OF ok raw refl]
  have "dir_entries ?raw (length pre) = listed e @ dir_entries ?raw (length pre + ent_len e)"
    using A ok ent_len_pos [of e] by (subst dir_entries.simps) (auto simp: listed_def Let_def ent_ok_def)
  moreover have "dir_entries ((pre @ ent_bytes e) @ dir_bytes es @ post) (length (pre @ ent_bytes e))
      = listing es @ dir_entries ((pre @ ent_bytes e) @ dir_bytes es @ post) (length (pre @ ent_bytes e) + length (dir_bytes es))"
    using Cons.prems by (intro Cons.IH) simp
  ultimately show ?case by (simp add: add.assoc)
qed simp

lemma entries_of_dir: "list_all ent_ok es \<Longrightarrow> dir_entries (dir_bytes es) 0 = listing es"
  using scan_listing [of es "[]" "[]"] by (simp add: dir_entries.simps [of _ "length _"])

text \<open>A zeroed inode number ends the listing, whatever follows.\<close>

lemma entries_until_zero:
  assumes "list_all ent_ok es" "4 \<le> length post"
  shows "dir_entries (dir_bytes es @ le32 0 @ post) 0 = listing es"
proof -
  have "de_inode (dir_bytes es @ le32 0 @ post) (length (dir_bytes es)) = 0"
    unfolding de_inode_def by (rule rd32_at)
  then have "dir_entries (dir_bytes es @ le32 0 @ post) (length (dir_bytes es)) = []"
    by (subst dir_entries.simps) simp
  then show ?thesis using scan_listing [OF assms(1), of "[]" "le32 0 @ post"] by simp
qed

definition named :: "u8 list \<Rightarrow> dirent \<Rightarrow> bool" where
  "named nm e \<longleftrightarrow> from_utf8_or (d_nm e) [] = nm"

lemma find_entry_skip:
  "list_all ent_ok es \<Longrightarrow> list_all (\<lambda>e. \<not> named nm e) es \<Longrightarrow>
   find_entry (pre @ dir_bytes es @ post) nm (length pre)
    = find_entry (pre @ dir_bytes es @ post) nm (length pre + length (dir_bytes es))"
proof (induction es arbitrary: pre)
  case (Cons e es)
  let ?raw = "pre @ dir_bytes (e # es) @ post"
  have ok: "ent_ok e" and raw: "?raw = pre @ ent_bytes e @ (dir_bytes es @ post)" using Cons.prems by simp_all
  note A = at_entry [OF ok raw refl]
  have "find_entry ?raw nm (length pre) = find_entry ?raw nm (length pre + ent_len e)"
    using A ok Cons.prems by (subst find_entry.simps) (simp add: named_def ent_ok_def)
  moreover have "find_entry ((pre @ ent_bytes e) @ dir_bytes es @ post) nm (length (pre @ ent_bytes e))
      = find_entry ((pre @ ent_bytes e) @ dir_bytes es @ post) nm (length (pre @ ent_bytes e) + length (dir_bytes es))"
    using Cons.prems by (intro Cons.IH) simp_all
  ultimately show ?case by (simp add: add.assoc)
qed simp

lemma find_entry_found:
  assumes "list_all ent_ok es" "list_all (\<lambda>e. \<not> named nm e) es" "ent_ok e" "named nm e"
  shows "find_entry (dir_bytes es @ ent_bytes e @ post) nm 0 = Some (length (dir_bytes es), d_ino e)"
proof -
  note A = at_entry [OF assms(3) refl refl, of "dir_bytes es" post]
  have "find_entry (dir_bytes es @ ent_bytes e @ post) nm (length (dir_bytes es)) = Some (length (dir_bytes es), d_ino e)"
    using A assms(3,4) by (subst find_entry.simps) (simp add: named_def ent_ok_def)
  then show ?thesis using find_entry_skip [OF assms(1,2), of "[]" "ent_bytes e @ post"] by simp
qed

section \<open>Appending an entry\<close>

text \<open>Only the lengths matter to the walks over record lengths, which pass through cleared
  entries too.\<close>

definition ent_sized :: "dirent \<Rightarrow> bool" where
  "ent_sized e \<longleftrightarrow> length (d_nm e) < 256 \<and> ent_len e < 65536"

lemma ent_ok_sized: "ent_ok e \<Longrightarrow> ent_sized e"
  by (simp add: ent_ok_def ent_sized_def)

lemma all_sized: "list_all ent_ok es \<Longrightarrow> list_all ent_sized es"
  by (auto elim: list.pred_mono_strong intro: ent_ok_sized)

lemma rec_len_at:
  "off = length pre \<Longrightarrow> de_rec_len (pre @ ent_bytes e @ post) off = of_nat (ent_len e)"
proof -
  assume "off = length pre"
  then have "off + 4 = length (pre @ le32 (d_ino e))" by simp
  then show ?thesis
    using rd16_at [of "pre @ le32 (d_ino e)" "of_nat (ent_len e)" "[of_nat (length (d_nm e)), d_ft e] @ d_nm e @ d_pad e @ post"]
    by (simp add: de_rec_len_def ent_bytes_def dir_entry_bytes_def)
qed

lemma unat_ent_len: "ent_sized e \<Longrightarrow> unat (of_nat (ent_len e) :: u16) = ent_len e"
  by (simp add: ent_sized_def unsigned_of_nat take_bit_nat_eq_self)

lemma ent_len_word: "ent_sized e \<Longrightarrow> (of_nat (ent_len e) :: u16) \<noteq> 0"
  using unat_ent_len [of e] ent_len_pos [of e] by auto

lemma set_rec_len_at:
  assumes "off = length pre"
  shows "set_rec_len (pre @ ent_bytes e @ post) off r
    = pre @ le32 (d_ino e) @ le16 r @ [of_nat (length (d_nm e)), d_ft e] @ d_nm e @ d_pad e @ post"
proof -
  have "off + 4 = length (pre @ le32 (d_ino e))" using assms by simp
  then show ?thesis
    by (simp add: set_rec_len_def patch_def ent_bytes_def dir_entry_bytes_def)
qed

lemma adjust_last_same:
  "es \<noteq> [] \<Longrightarrow> list_all ent_sized es \<Longrightarrow>
   adjust_last (pre @ dir_bytes es @ post) (length pre) (length pre + length (dir_bytes es)) = pre @ dir_bytes es @ post"
proof (induction es arbitrary: pre)
  case (Cons e es)
  let ?raw = "pre @ ent_bytes e @ dir_bytes es @ post"
  have e: "ent_sized e" using Cons.prems by simp
  have r: "de_rec_len ?raw (length pre) = of_nat (ent_len e)" by (rule rec_len_at) simp
  show ?case
  proof (cases "es = []")
    case True
    then show ?thesis
      using r unat_ent_len [OF e] ent_len_word [OF e]
      by (subst adjust_last.simps) (simp add: set_rec_len_at, simp add: ent_bytes_def dir_entry_bytes_def)
  next
    case False
    then obtain f fs where f: "es = f # fs" by (cases es) auto
    have pos: "0 < length (dir_bytes es)" using ent_len_pos [of f] by (simp add: f)
    have "adjust_last ?raw (length pre) (length pre + (ent_len e + length (dir_bytes es)))
        = adjust_last ?raw (length pre + ent_len e) (length pre + (ent_len e + length (dir_bytes es)))"
      using r unat_ent_len [OF e] ent_len_word [OF e] pos by (subst adjust_last.simps) simp
    with Cons.IH [OF False, of "pre @ ent_bytes e"] Cons.prems show ?thesis by (simp add: add.assoc)
  qed
qed simp

definition new_ent :: "u8 list \<Rightarrow> u32 \<Rightarrow> u8 \<Rightarrow> dirent" where
  "new_ent nm ino ft = \<lparr>d_ino = ino, d_ft = ft, d_nm = nm, d_pad = replicate (4 * ((8 + length nm + 3) div 4) - (8 + length nm)) 0\<rparr>"

lemma new_ent_len: "ent_len (new_ent nm ino ft) = 4 * ((8 + length nm + 3) div 4)"
  by (simp add: ent_len_def new_ent_def)

lemma new_ent_ok: "ino \<noteq> 0 \<Longrightarrow> length nm < 256 \<Longrightarrow> ent_ok (new_ent nm ino ft)"
  using new_ent_len [of nm ino ft] by (simp add: ent_ok_def) (simp add: new_ent_def)

lemma new_ent_sized: "length nm < 256 \<Longrightarrow> ent_sized (new_ent nm ino ft)"
  using new_ent_len [of nm ino ft] by (simp add: ent_sized_def) (simp add: new_ent_def)

lemma new_ent_rec: "rec_len_for nm = of_nat (ent_len (new_ent nm ino ft))"
  by (simp add: rec_len_for_def new_ent_len)

lemma dir_append_bytes:
  assumes "list_all ent_sized es" "length nm < 256"
  shows "dir_append (dir_bytes es) nm ino ft = dir_bytes (es @ [new_ent nm ino ft])"
proof -
  let ?e = "new_ent nm ino ft"
  have u: "unat (rec_len_for nm) = ent_len ?e"
    unfolding new_ent_rec [of nm ino ft] using assms(2) by (intro unat_ent_len new_ent_sized)
  have "patch (dir_bytes es @ replicate (ent_len ?e) 0) (length (dir_bytes es)) (dir_entry_bytes ino (rec_len_for nm) nm ft)
      = dir_bytes es @ ent_bytes ?e"
    unfolding new_ent_rec [of nm ino ft]
    by (simp add: patch_def ent_bytes_def dir_entry_bytes_def) (simp add: new_ent_def ent_len_def)
  moreover have "adjust_last (dir_bytes es @ ent_bytes ?e) 0 (length (dir_bytes es)) = dir_bytes es @ ent_bytes ?e"
    if "0 < length (dir_bytes es)"
  proof -
    have "es \<noteq> []" using that by auto
    from adjust_last_same [OF this assms(1), of "[]" "ent_bytes ?e"] show ?thesis by simp
  qed
  ultimately show ?thesis by (cases "dir_bytes es = []") (simp_all add: dir_append_def Let_def u)
qed

section \<open>Removing an entry\<close>

lemma merge_at:
  "list_all ent_sized es \<Longrightarrow>
   merge_into_previous (pre @ dir_bytes (es @ [p]) @ post) (length pre) (length pre + length (dir_bytes (es @ [p])))
   = merge_into_previous (pre @ dir_bytes (es @ [p]) @ post) (length pre + length (dir_bytes es))
       (length pre + length (dir_bytes (es @ [p])))"
proof (induction es arbitrary: pre)
  case (Cons e es)
  let ?raw = "pre @ ent_bytes e @ dir_bytes es @ ent_bytes p @ post"
  have e: "ent_sized e" using Cons.prems by simp
  have r: "de_rec_len ?raw (length pre) = of_nat (ent_len e)" by (rule rec_len_at) simp
  have "merge_into_previous ?raw (length pre) (length pre + (ent_len e + length (dir_bytes es) + ent_len p))
      = merge_into_previous ?raw (length pre + ent_len e) (length pre + (ent_len e + length (dir_bytes es) + ent_len p))"
    using r unat_ent_len [OF e] ent_len_word [OF e] ent_len_pos [of p] by (subst merge_into_previous.simps) simp
  with Cons.IH [of "pre @ ent_bytes e"] Cons.prems show ?case by (cases "es = []") (simp_all add: add.assoc)
qed simp

text \<open>The entry before the one removed takes over its bytes as padding.\<close>

definition absorb :: "dirent \<Rightarrow> dirent \<Rightarrow> dirent" where
  "absorb p e = p\<lparr>d_pad := d_pad p @ le32 0 @ drop 4 (ent_bytes e)\<rparr>"

lemma absorb_len: "ent_len (absorb p e) = ent_len p + ent_len e"
proof -
  have "length (d_pad (absorb p e)) = length (d_pad p) + ent_len e"
    using ent_len_pos [of e] by (simp add: absorb_def)
  then show ?thesis by (simp add: ent_len_def) (simp add: absorb_def)
qed

lemma absorb_ok: "ent_ok p \<Longrightarrow> ent_len p + ent_len e < 65536 \<Longrightarrow> ent_ok (absorb p e)"
  using absorb_len [of p e] by (simp add: ent_ok_def) (simp add: absorb_def)

lemma listed_absorb [simp]: "listed (absorb p e) = listed p"
  by (simp add: listed_def absorb_def Let_def)

lemma patch_mid: "k = length xs \<Longrightarrow> 4 \<le> length ys \<Longrightarrow> patch (xs @ ys @ zs) k (le32 w) = xs @ le32 w @ drop 4 ys @ zs"
  by (simp add: patch_def)

lemma merge_found:
  assumes "list_all ent_sized es" "ent_sized p"
  shows "patch (merge_into_previous (dir_bytes (es @ [p]) @ ent_bytes e @ post) 0 (length (dir_bytes (es @ [p]))))
      (length (dir_bytes (es @ [p]))) (le32 0) = dir_bytes (es @ [absorb p e]) @ post"
proof -
  let ?raw = "dir_bytes (es @ [p]) @ ent_bytes e @ post" and ?at = "length (dir_bytes (es @ [p]))"
  have p: "de_rec_len ?raw (length (dir_bytes es)) = of_nat (ent_len p)"
    using rec_len_at [OF refl, of "dir_bytes es" p "ent_bytes e @ post"] by simp
  have e: "de_rec_len ?raw ?at = of_nat (ent_len e)"
    using rec_len_at [OF refl, of "dir_bytes (es @ [p])" e post] by simp
  have "merge_into_previous ?raw 0 ?at = merge_into_previous ?raw (length (dir_bytes es)) ?at"
    using merge_at [OF assms(1), of "[]" p "ent_bytes e @ post"] by simp
  also have "\<dots> = set_rec_len ?raw (length (dir_bytes es)) (of_nat (ent_len p) + of_nat (ent_len e))"
    using p e unat_ent_len [OF assms(2)] ent_len_word [OF assms(2)] by (subst merge_into_previous.simps) simp
  also have "\<dots> = dir_bytes es @ dir_entry_bytes (d_ino p) (of_nat (ent_len p + ent_len e)) (d_nm p) (d_ft p) @ d_pad p @ ent_bytes e @ post"
    using set_rec_len_at [OF refl, of "dir_bytes es" p "ent_bytes e @ post"] by (simp add: dir_entry_bytes_def)
  finally have m: "merge_into_previous ?raw 0 ?at = \<dots>" .
  have l: "?at = length (dir_bytes es @ dir_entry_bytes (d_ino p) (of_nat (ent_len p + ent_len e)) (d_nm p) (d_ft p) @ d_pad p)"
    by (simp add: ent_len_def dir_entry_bytes_def)
  have "4 \<le> length (ent_bytes e)" using ent_len_pos [of e] by simp
  from patch_mid [OF l this, of post 0]
  have "patch (merge_into_previous ?raw 0 ?at) ?at (le32 0)
    = (dir_bytes es @ dir_entry_bytes (d_ino p) (of_nat (ent_len p + ent_len e)) (d_nm p) (d_ft p) @ d_pad p) @ le32 0 @ drop 4 (ent_bytes e) @ post"
    unfolding m by (simp only: append_assoc)
  also have "\<dots> = dir_bytes (es @ [absorb p e]) @ post"
    by (simp add: ent_bytes_def [of "absorb p e"] absorb_len) (simp add: absorb_def)
  finally show ?thesis .
qed

lemma dir_remove_middle:
  assumes "list_all ent_ok (es @ [p])" "list_all (\<lambda>e. \<not> named nm e) (es @ [p])" "ent_ok e" "named nm e" "post \<noteq> []"
  shows "dir_remove (dir_bytes (es @ [p]) @ ent_bytes e @ post) nm = Some (d_ino e, dir_bytes (es @ [absorb p e]) @ post)"
proof -
  have "unat (of_nat (ent_len e) :: u16) = ent_len e" using ent_ok_sized [OF assms(3)] by (rule unat_ent_len)
  moreover have "de_rec_len (dir_bytes (es @ [p]) @ ent_bytes e @ post) (length (dir_bytes (es @ [p]))) = of_nat (ent_len e)"
    by (rule rec_len_at) simp
  moreover have "list_all ent_sized es" "ent_sized p" using all_sized [OF assms(1)] by simp_all
  note merge_found [OF this]
  ultimately show ?thesis
    using find_entry_found [OF assms(1-4), of post] assms(5)
    by (simp add: dir_remove_def Let_def del: dir_bytes_simps length_append) simp
qed

text \<open>The last entry is only cleared.\<close>

lemma dir_remove_last:
  assumes "list_all ent_ok es" "list_all (\<lambda>e. \<not> named nm e) es" "ent_ok e" "named nm e"
  shows "dir_remove (dir_bytes (es @ [e])) nm = Some (d_ino e, dir_bytes (es @ [e\<lparr>d_ino := 0\<rparr>]))"
proof -
  have "unat (of_nat (ent_len e) :: u16) = ent_len e" using ent_ok_sized [OF assms(3)] by (rule unat_ent_len)
  moreover have "de_rec_len (dir_bytes es @ ent_bytes e) (length (dir_bytes es)) = of_nat (ent_len e)"
    using rec_len_at [OF refl, of "dir_bytes es" e "[]"] by simp
  moreover have "patch (dir_bytes es @ ent_bytes e) (length (dir_bytes es)) (le32 0) = dir_bytes es @ ent_bytes (e\<lparr>d_ino := 0\<rparr>)"
    by (simp add: patch_def ent_bytes_def dir_entry_bytes_def) (simp add: ent_len_def)
  ultimately show ?thesis
    using find_entry_found [OF assms, of "[]"] by (simp add: dir_remove_def Let_def)
qed

lemma cleared_bytes: "ent_bytes (e\<lparr>d_ino := 0\<rparr>) = le32 0 @ drop 4 (ent_bytes (e\<lparr>d_ino := 0\<rparr>))"
  by (simp add: ent_bytes_def dir_entry_bytes_def)

lemma entries_until_cleared:
  assumes "list_all ent_ok es"
  shows "dir_entries (dir_bytes (es @ e\<lparr>d_ino := 0\<rparr> # es')) 0 = listing es"
proof -
  obtain r where r: "ent_bytes (e\<lparr>d_ino := 0\<rparr>) = le32 0 @ r" using cleared_bytes [of e] by blast
  have "length (le32 0 @ r) = ent_len (e\<lparr>d_ino := 0\<rparr>)" by (simp only: r [symmetric] length_ent_bytes)
  then have "4 \<le> length (r @ dir_bytes es')" using ent_len_pos [of "e\<lparr>d_ino := 0\<rparr>"] by simp
  from entries_until_zero [OF assms this] show ?thesis by (simp add: r)
qed

section \<open>Directories on the disk\<close>

text \<open>The directory file of \<open>inode\<close> holds the entries, and has direct blocks of its own for
  \<open>len\<close> bytes.\<close>

definition dir_at :: "ext3 \<Rightarrow> disk \<Rightarrow> Inode \<Rightarrow> dirent list \<Rightarrow> bool" where
  "dir_at fs d inode es \<longleftrightarrow> unat (i_size inode) = length (dir_bytes es)
     \<and> read_file_inode fs inode d = (Inr (dir_bytes es), d)"

definition room :: "ext3 \<Rightarrow> disk \<Rightarrow> Inode \<Rightarrow> nat \<Rightarrow> bool" where
  "room fs d inode len \<longleftrightarrow>
     (let n = blocks_for fs len; bs = take n (i_block inode) in
      length (i_block inode) = 15 \<and> n \<le> 12 \<and> distinct bs \<and> list_all (\<lambda>b. b \<noteq> 0 \<and> on_disk fs d b) bs)"

lemma blocks_for_mono: "l \<le> m \<Longrightarrow> blocks_for fs l \<le> blocks_for fs m"
  by (simp add: blocks_for_def div_le_mono)

lemma room_le: "room fs d inode m \<Longrightarrow> l \<le> m \<Longrightarrow> room fs d inode l"
proof -
  assume r: "room fs d inode m" and "l \<le> m"
  let ?t = "take (blocks_for fs m) (i_block inode)"
  have n: "blocks_for fs l \<le> blocks_for fs m" using \<open>l \<le> m\<close> by (rule blocks_for_mono)
  then have t: "take (blocks_for fs l) (i_block inode) = take (blocks_for fs l) ?t" by (simp add: min_def)
  have "set (take (blocks_for fs l) ?t) \<subseteq> set ?t" by (rule set_take_subset)
  moreover have "distinct ?t" using r by (simp add: room_def Let_def)
  then have "distinct (take (blocks_for fs l) ?t)" by (rule distinct_take)
  ultimately show ?thesis using r n unfolding room_def Let_def t by (auto simp: list_all_iff simp del: take_take)
qed

lemma room_size:
  assumes "sane_fs fs" "room fs d inode len"
  shows "unat (of_nat len :: u32) = len"
proof -
  have bs: "0 < block_size fs" "block_size fs \<le> 65536" using sane_sizes(3,6) [OF assms(1)] by auto
  have n: "blocks_for fs len \<le> 12" using assms(2) by (simp add: room_def Let_def)
  have "len \<le> blocks_for fs len * block_size fs"
    using less_blocks_for [OF bs(1), of "blocks_for fs len" len] by (simp add: not_less)
  also have "\<dots> \<le> 12 * 65536" using n bs(2) by (rule mult_le_mono)
  finally show ?thesis by (simp add: unsigned_of_nat take_bit_nat_eq_self)
qed

lemma dir_written:
  assumes "sane_fs fs" "room fs d inode (length raw)" "unat (i_size inode) \<le> length raw"
  shows "\<exists>inode' d'. write_file_data fs inode raw d = (Inr inode', d')
    \<and> read_file_inode fs inode' d' = (Inr raw, d') \<and> unat (i_size inode') = length raw
    \<and> (\<forall>len. room fs d' inode' len = room fs d inode len)"
proof -
  let ?n = "blocks_for fs (length raw)"
  have r: "length (i_block inode) = 15" "?n \<le> 12" "distinct (take ?n (i_block inode))"
    "\<forall>b \<in> set (take ?n (i_block inode)). b \<noteq> 0 \<and> on_disk fs d b"
    using assms(2) by (simp_all add: room_def Let_def list_all_iff)
  from write_read_back [OF assms(1) r(1) refl r(2) blocks_for_mono [OF assms(3)] r(3,4)]
  obtain inode' d' where w: "write_file_data fs inode raw d = (Inr inode', d')"
    "read_file_inode fs inode' d' = (Inr raw, d')" "i_block inode' = i_block inode"
    "i_size inode' = of_nat (length raw)" "length d' = length d" by blast
  have "room fs d' inode' len = room fs d inode len" for len
    using w(3,5) by (simp add: room_def on_disk_def)
  then show ?thesis using w room_size [OF assms(1,2)] by auto
qed

lemma dir_at_listing: "dir_at fs d inode es \<Longrightarrow> list_all ent_ok es \<Longrightarrow> read_dir_inode fs inode d = (Inr (listing es), d)"
  by (simp add: dir_at_def read_dir_inode_def dio_defs entries_of_dir)

lemma dir_add_on_disk:
  assumes "sane_fs fs" "dir_at fs d inode es" "list_all ent_sized es" "nm \<noteq> []" "length nm < 256"
    and "room fs d inode (length (dir_bytes (es @ [new_ent nm ino ft])))"
  shows "\<exists>inode' d'. dir_add_entry fs inode nm ino ft d = (Inr inode', d') \<and> dir_at fs d' inode' (es @ [new_ent nm ino ft])"
proof -
  let ?raw = "dir_bytes (es @ [new_ent nm ino ft])"
  have "unat (i_size inode) \<le> length ?raw" using assms(2) by (simp add: dir_at_def)
  from dir_written [OF assms(1,6) this] obtain inode' d' where w: "write_file_data fs inode ?raw d = (Inr inode', d')"
    "read_file_inode fs inode' d' = (Inr ?raw, d')" "unat (i_size inode') = length ?raw" by blast
  have "12 \<le> ent_len (new_ent nm ino ft)" using assms(4) by (cases nm) (simp_all add: new_ent_len)
  then have "\<not> rec_len_for nm < 12"
    using unat_ent_len [OF new_ent_sized [OF assms(5)], of ino ft] by (simp add: new_ent_rec [of nm ino ft] word_less_nat_alt)
  then have "dir_add_entry fs inode nm ino ft d = (Inr inode', d')"
    using assms(2) w(1) dir_append_bytes [OF assms(3,5)] by (simp add: dir_add_entry_def dir_at_def bindD_def)
  then show ?thesis using w by (auto simp: dir_at_def)
qed

lemma dir_remove_on_disk:
  assumes "sane_fs fs" "dir_at fs d inode es" "dir_remove (dir_bytes es) nm = Some (ino, dir_bytes es')"
    and "length (dir_bytes es') = length (dir_bytes es)" "room fs d inode (length (dir_bytes es))"
  shows "\<exists>inode' d'. dir_remove_entry fs inode nm d = (Inr (ino, inode'), d') \<and> dir_at fs d' inode' es'
    \<and> (\<forall>len. room fs d' inode' len = room fs d inode len)"
proof -
  have "room fs d inode (length (dir_bytes es'))" "unat (i_size inode) \<le> length (dir_bytes es')"
    using assms by (simp_all add: dir_at_def)
  from dir_written [OF assms(1) this] obtain inode' d' where w: "write_file_data fs inode (dir_bytes es') d = (Inr inode', d')"
    "read_file_inode fs inode' d' = (Inr (dir_bytes es'), d')" "unat (i_size inode') = length (dir_bytes es')"
    "\<forall>len. room fs d' inode' len = room fs d inode len" by blast
  then show ?thesis using assms(2,3) by (auto simp: dir_remove_entry_def dir_at_def dio_defs)
qed

lemma listed_new: "utf8_ok nm \<Longrightarrow> nm \<noteq> ascii ''.'' \<Longrightarrow> nm \<noteq> ascii ''..'' \<Longrightarrow> listed (new_ent nm ino ft) = [(nm, ino, ft)]"
  by (simp add: listed_def new_ent_def from_utf8_or_def)


text \<open>C36. Removing a name that is not the first entry of a directory on the disk:
  \<open>dir_remove_entry\<close> returns the inode number of the first entry of that name, and the directory
  then lists the other entries in their order, whether the entry stood in the middle or at the
  end.\<close>

theorem ext3_dir_remove_unlisted:
  assumes "sane_fs fs" "dir_at fs d inode (es @ [p, e] @ es')" "list_all ent_ok (es @ [p, e] @ es')"
    and "list_all (\<lambda>e. \<not> named nm e) (es @ [p])" "named nm e" "ent_len p + ent_len e < 65536"
    and "room fs d inode (length (dir_bytes (es @ [p, e] @ es')))"
  shows "\<exists>inode' d'. dir_remove_entry fs inode nm d = (Inr (d_ino e, inode'), d')
    \<and> read_dir_inode fs inode' d' = (Inr (listing (es @ [p]) @ listing es'), d')"
proof -
  have ok: "list_all ent_ok (es @ [p])" "ent_ok e" "ent_ok p" "list_all ent_ok es" "list_all ent_ok es'" using assms(3) by simp_all
  show ?thesis
  proof (cases "es' = []")
    case True
    let ?es = "es @ [p] @ [e\<lparr>d_ino := 0\<rparr>]"
    have r: "dir_remove (dir_bytes (es @ [p, e] @ es')) nm = Some (d_ino e, dir_bytes ?es)"
      using dir_remove_last [OF ok(1) assms(4) ok(2) assms(5)] True by simp
    have l: "length (dir_bytes ?es) = length (dir_bytes (es @ [p, e] @ es'))" using True by (simp add: ent_len_def)
    obtain inode' d' where a: "dir_remove_entry fs inode nm d = (Inr (d_ino e, inode'), d')" "dir_at fs d' inode' ?es"
      using dir_remove_on_disk [OF assms(1,2) r l assms(7)] by blast
    have "dir_entries (dir_bytes ?es) 0 = listing (es @ [p])"
      using entries_until_cleared [OF ok(1), of e "[]"] by simp
    with a True show ?thesis by (auto simp: dir_at_def read_dir_inode_def dio_defs)
  next
    case False
    let ?es = "es @ [absorb p e] @ es'"
    obtain f fs' where "es' = f # fs'" using False by (cases es') auto
    then have "dir_bytes es' \<noteq> []" using ent_len_pos [of f] by (metis append_is_Nil_conv dir_bytes_simps(2) length_ent_bytes list.size(3) not_numeral_le_zero)
    from dir_remove_middle [OF ok(1) assms(4) ok(2) assms(5) this]
    have r: "dir_remove (dir_bytes (es @ [p, e] @ es')) nm = Some (d_ino e, dir_bytes ?es)" by simp
    have l: "length (dir_bytes ?es) = length (dir_bytes (es @ [p, e] @ es'))" by (simp add: absorb_len)
    obtain inode' d' where a: "dir_remove_entry fs inode nm d = (Inr (d_ino e, inode'), d')" "dir_at fs d' inode' ?es"
      using dir_remove_on_disk [OF assms(1,2) r l assms(7)] by blast
    have "list_all ent_ok ?es" using ok absorb_ok [OF ok(3) assms(6)] by simp
    from dir_at_listing [OF a(2) this] a(1) show ?thesis by simp
  qed
qed

text \<open>C37. A directory that loses its last entry hides what is added next: \<open>dir_remove_entry\<close> only
  clears the inode number of the last entry, \<open>dir_add_entry\<close> puts the new one behind it, and the
  listing, which stops at a cleared entry, shows the new name neither to \<open>ls\<close> nor to the lookup of
  a path: creating the file succeeds and the file cannot be found.\<close>

theorem ext3_name_after_cleared_hidden:
  assumes "sane_fs fs" "dir_at fs d inode (es @ [e])" "list_all ent_ok (es @ [e])"
    and "list_all (\<lambda>e. \<not> named old e) es" "named old e" "nm \<noteq> []" "length nm < 256"
    and "room fs d inode (length (dir_bytes (es @ [e, new_ent nm ino ft])))"
  shows "\<exists>inode1 d1 inode2 d2. dir_remove_entry fs inode old d = (Inr (d_ino e, inode1), d1)
    \<and> dir_add_entry fs inode1 nm ino ft d1 = (Inr inode2, d2)
    \<and> read_dir_inode fs inode2 d2 = (Inr (listing es), d2)"
proof -
  let ?n = "new_ent nm ino ft" and ?c = "e\<lparr>d_ino := 0\<rparr>"
  have ok: "list_all ent_ok es" "ent_ok e" using assms(3) by simp_all
  have c: "ent_len ?c = ent_len e" by (simp add: ent_len_def)
  have sized: "list_all ent_sized (es @ [?c])" using all_sized [OF assms(3)] by (simp add: ent_sized_def c)
  have l: "length (dir_bytes (es @ [?c])) = length (dir_bytes (es @ [e]))" by (simp add: c)
  have "length (dir_bytes (es @ [e])) \<le> length (dir_bytes (es @ [e, ?n]))" by simp
  note dir_remove_on_disk [OF assms(1,2) dir_remove_last [OF ok(1) assms(4) ok(2) assms(5)] l room_le [OF assms(8) this]]
  then obtain inode1 d1 where r: "dir_remove_entry fs inode old d = (Inr (d_ino e, inode1), d1)" "dir_at fs d1 inode1 (es @ [?c])"
    "\<forall>len. room fs d1 inode1 len = room fs d inode len" by blast
  have "room fs d1 inode1 (length (dir_bytes ((es @ [?c]) @ [?n])))" using r(3) assms(8) by (simp add: c)
  from dir_add_on_disk [OF assms(1) r(2) sized assms(6,7) this]
  obtain inode2 d2 where a: "dir_add_entry fs inode1 nm ino ft d1 = (Inr inode2, d2)" "dir_at fs d2 inode2 ((es @ [?c]) @ [?n])"
    by blast
  have "dir_entries (dir_bytes ((es @ [?c]) @ [?n])) 0 = listing es"
    using entries_until_cleared [OF ok(1), of e "[?n]"] by simp
  then have "read_dir_inode fs inode2 d2 = (Inr (listing es), d2)"
    using a(2) by (simp add: read_dir_inode_def dir_at_def dio_defs)
  with r(1) a(1) show ?thesis by blast
qed

section \<open>A sample directory\<close>

definition sample_ents :: "dirent list" where
  "sample_ents = [new_ent (ascii ''.'') 2 FT_DIR, new_ent (ascii ''..'') 2 FT_DIR, new_ent (ascii ''a'') 12 FT_REG,
     new_ent (ascii ''b'') 13 FT_REG]"

definition sample_dir :: "(string + Inode) \<times> disk" where
  "sample_dir = write_file_data sample_fs sample_inode (dir_bytes sample_ents) sample_disk"

definition sample_dir_inode :: Inode where
  "sample_dir_inode = (case fst sample_dir of Inr i \<Rightarrow> i | Inl _ \<Rightarrow> sample_inode)"

definition sample_dir_disk :: disk where
  "sample_dir_disk = snd sample_dir"

lemma sample_room: "len \<le> 2048 \<Longrightarrow> room sample_fs sample_disk sample_inode len"
proof (rule room_le)
  have bs: "block_size sample_fs = 1024" by (simp add: sample_fs_def)
  have "on_disk sample_fs sample_disk 5" "on_disk sample_fs sample_disk 6"
    by (simp_all add: on_disk_def sample_fs_def sample_disk_def)
  then show "room sample_fs sample_disk sample_inode 2048"
    by (simp add: room_def Let_def blocks_for_def sample_inode_def bs)
qed

lemma ent_len_of_new: "ent_len (new_ent (ascii s) ino ft) = 4 * ((11 + length s) div 4)"
  by (simp add: new_ent_len ascii_def)

lemma sample_len: "length (dir_bytes sample_ents) = 48"
  by (simp add: sample_ents_def ent_len_of_new)

lemma sample_dir_at:
  "dir_at sample_fs sample_dir_disk sample_dir_inode sample_ents
   \<and> (\<forall>len. room sample_fs sample_dir_disk sample_dir_inode len = room sample_fs sample_disk sample_inode len)"
proof -
  have "room sample_fs sample_disk sample_inode (length (dir_bytes sample_ents))"
    "unat (i_size sample_inode) \<le> length (dir_bytes sample_ents)"
    using sample_room [of 48] by (simp_all add: sample_len sample_inode_def new_inode_def)
  from dir_written [OF sample_sane this] obtain i d where w:
    "write_file_data sample_fs sample_inode (dir_bytes sample_ents) sample_disk = (Inr i, d)"
    "read_file_inode sample_fs i d = (Inr (dir_bytes sample_ents), d)" "unat (i_size i) = length (dir_bytes sample_ents)"
    "\<forall>len. room sample_fs d i len = room sample_fs sample_disk sample_inode len" by blast
  have s: "sample_dir = (Inr i, d)" unfolding sample_dir_def by (rule w(1))
  have "sample_dir_inode = i" "sample_dir_disk = d" by (simp_all only: sample_dir_inode_def sample_dir_disk_def s fst_conv snd_conv sum.case)
  then show ?thesis using w(2,3,4) by (simp only: dir_at_def simp_thms)
qed

lemma sample_ents_ok: "list_all ent_ok sample_ents"
  by (simp add: sample_ents_def new_ent_ok ascii_def)

lemma named_new: "utf8_ok n \<Longrightarrow> named nm (new_ent n ino ft) \<longleftrightarrow> n = nm"
  by (simp add: named_def new_ent_def from_utf8_or_def)


theorem ext3_dir_remove_unlisted_witness:
  "\<exists>inode' d'. dir_remove_entry sample_fs sample_dir_inode (ascii ''a'') sample_dir_disk = (Inr (12, inode'), d')
    \<and> read_dir_inode sample_fs inode' d' = (Inr [(ascii ''b'', 13, FT_REG)], d')"
proof -
  let ?dot = "new_ent (ascii ''.'') 2 FT_DIR" and ?dots = "new_ent (ascii ''..'') 2 FT_DIR"
    and ?a = "new_ent (ascii ''a'') 12 FT_REG" and ?b = "new_ent (ascii ''b'') 13 FT_REG"
  have split: "sample_ents = [?dot] @ [?dots, ?a] @ [?b]" by (simp add: sample_ents_def)
  have at: "dir_at sample_fs sample_dir_disk sample_dir_inode ([?dot] @ [?dots, ?a] @ [?b])"
    using sample_dir_at unfolding split by blast
  have room: "room sample_fs sample_dir_disk sample_dir_inode (length (dir_bytes ([?dot] @ [?dots, ?a] @ [?b])))"
    using sample_dir_at sample_room [of 48] unfolding split [symmetric] sample_len by simp
  have ok: "list_all ent_ok ([?dot] @ [?dots, ?a] @ [?b])" using sample_ents_ok unfolding split .
  have "list_all (\<lambda>e. \<not> named (ascii ''a'') e) ([?dot] @ [?dots])" "named (ascii ''a'') ?a"
    "ent_len ?dots + ent_len ?a < 65536"
    by (simp_all add: named_new ent_len_of_new) (simp_all add: ascii_def named_new)
  from ext3_dir_remove_unlisted [OF sample_sane at ok this room]
  show ?thesis by (simp add: listed_new ascii_def) (simp add: new_ent_def listed_def ascii_def from_utf8_or_def)
qed

theorem ext3_name_after_cleared_hidden_witness:
  "\<exists>inode1 d1 inode2 d2. dir_remove_entry sample_fs sample_dir_inode (ascii ''b'') sample_dir_disk = (Inr (13, inode1), d1)
    \<and> dir_add_entry sample_fs inode1 (ascii ''c'') 14 FT_REG d1 = (Inr inode2, d2)
    \<and> read_dir_inode sample_fs inode2 d2 = (Inr [(ascii ''a'', 12, FT_REG)], d2)"
proof -
  let ?es = "[new_ent (ascii ''.'') 2 FT_DIR, new_ent (ascii ''..'') 2 FT_DIR, new_ent (ascii ''a'') 12 FT_REG]"
    and ?b = "new_ent (ascii ''b'') 13 FT_REG"
  have split: "sample_ents = ?es @ [?b]" by (simp add: sample_ents_def)
  have at: "dir_at sample_fs sample_dir_disk sample_dir_inode (?es @ [?b])" using sample_dir_at unfolding split by blast
  have ok: "list_all ent_ok (?es @ [?b])" using sample_ents_ok unfolding split .
  have room: "room sample_fs sample_dir_disk sample_dir_inode (length (dir_bytes (?es @ [?b, new_ent (ascii ''c'') 14 FT_REG])))"
    using sample_dir_at sample_room [of 60] by (simp add: ent_len_of_new)
  have "list_all (\<lambda>e. \<not> named (ascii ''b'') e) ?es" "named (ascii ''b'') ?b" "ascii ''c'' \<noteq> []" "length (ascii ''c'') < 256"
    by (simp_all add: named_new ascii_def)
  from ext3_name_after_cleared_hidden [OF sample_sane at ok this room]
  show ?thesis by (simp add: listed_new ascii_def) (simp add: new_ent_def listed_def ascii_def from_utf8_or_def)
qed

end
