(* ===== verification/Format.thy ===== *)
theory Format
  imports Prelude
begin

text \<open>
  The conversions of Rust's \<open>format!\<close> that the kernel prints with: decimal and hexadecimal
  numbers, with a minimal width, filled with zeros or blanks.
\<close>

definition text_bytes :: "string \<Rightarrow> u8 list" where
  "text_bytes s = map of_char s"

definition digit_char :: "nat \<Rightarrow> char" where
  "digit_char d = char_of (if d < 10 then 48 + d else 87 + d)"

fun digits :: "nat \<Rightarrow> nat \<Rightarrow> nat list" where
  "digits b n = (if n < b \<or> b < 2 then [n] else digits b (n div b) @ [n mod b])"

declare digits.simps [simp del]

definition decimal :: "nat \<Rightarrow> string" where
  "decimal n = map digit_char (digits 10 n)"

definition hexadecimal :: "nat \<Rightarrow> string" where
  "hexadecimal n = map digit_char (digits 16 n)"

text \<open>\<open>{:0w}\<close> and \<open>{:w}\<close> of a number, \<open>{:w}\<close> of a text.\<close>

definition fill_left :: "char \<Rightarrow> nat \<Rightarrow> string \<Rightarrow> string" where
  "fill_left c w s = replicate (w - length s) c @ s"

definition fill_right :: "nat \<Rightarrow> string \<Rightarrow> string" where
  "fill_right w s = s @ replicate (w - length s) CHR '' ''"

abbreviation zeros :: "nat \<Rightarrow> string \<Rightarrow> string" where
  "zeros \<equiv> fill_left CHR ''0''"

section \<open>Numbers are read back\<close>

definition number :: "nat \<Rightarrow> nat list \<Rightarrow> nat" where
  "number b ds = foldl (\<lambda>n d. b * n + d) 0 ds"

lemma digits_not_empty [simp]: "digits b n \<noteq> []"
  by (subst digits.simps) simp

lemma number_digits: "number b (digits b n) = n"
proof (induction b n rule: digits.induct)
  case (1 b n)
  show ?case
  proof (cases "n < b \<or> b < 2")
    case True
    then show ?thesis by (simp add: digits.simps [of b n] number_def)
  next
    case False
    with 1 show ?thesis by (simp add: digits.simps [of b n] number_def)
  qed
qed

lemma digits_less: "2 \<le> b \<Longrightarrow> d \<in> set (digits b n) \<Longrightarrow> d < b"
proof (induction b n rule: digits.induct)
  case (1 b n)
  then show ?case by (subst (asm) (2) digits.simps) (auto split: if_splits)
qed

lemma length_digits: "2 \<le> b \<Longrightarrow> n < b ^ k \<Longrightarrow> 0 < k \<Longrightarrow> length (digits b n) \<le> k"
proof (induction k arbitrary: n)
  case (Suc k)
  show ?case
  proof (cases "n < b")
    case True
    then show ?thesis by (simp add: digits.simps)
  next
    case False
    then have k: "0 < k" using Suc.prems by (cases k) auto
    have "n div b < b ^ k" using Suc.prems by (simp add: less_mult_imp_div_less mult.commute)
    with Suc.IH [of "n div b"] Suc.prems(1) k False show ?thesis by (simp add: digits.simps [of b n])
  qed
qed simp

end
