(* ===== verification/Boot.thy ===== *)
theory Boot
  imports FrameBitmap
begin

text \<open>
  The page tables that the boot code of \<^verbatim>\<open>src/asm.rs\<close> builds before it enters long
  mode, the 1 GiB pages that \<open>map_1gb_page\<close> of \<^verbatim>\<open>src/memory/paging.rs\<close> adds to them,
  and the translation of an address by the processor through such tables. Memory is its 32-bit
  cells by address; where the linker puts the three tables is an argument.
\<close>

section \<open>The tables\<close>

type_synonym cells = "nat \<Rightarrow> u32"

record tables =
  t_pml4 :: u32
  t_pdpt :: u32
  t_pd :: u32

text \<open>The loop over the 512 entries of the page directory, with its register EAX.\<close>

fun fill_pd :: "u32 \<Rightarrow> nat list \<Rightarrow> u32 \<Rightarrow> cells \<Rightarrow> cells" where
  "fill_pd pd [] eax m = m"
| "fill_pd pd (ecx # is) eax m =
     fill_pd pd is (eax + 0x200000) (m(unat pd + ecx * 8 := eax, unat pd + ecx * 8 + 4 := 0))"

definition boot_tables :: "tables \<Rightarrow> cells \<Rightarrow> cells" where
  "boot_tables t m =
     (let m = m(unat (t_pml4 t) := t_pdpt t OR 0x3);
          m = m(unat (t_pdpt t) := t_pd t OR 0x3)
      in fill_pd (t_pd t) [0..<512] 0x83 m)"

text \<open>A 64-bit store is two cells.\<close>

definition store64 :: "nat \<Rightarrow> u64 \<Rightarrow> cells \<Rightarrow> cells" where
  "store64 a w m = m(a := ucast w, a + 4 := ucast (drop_bit 32 w))"

definition map_1gb_page :: "tables \<Rightarrow> u64 \<Rightarrow> cells \<Rightarrow> cells" where
  "map_1gb_page t phys m =
     (case map_1gb_entry phys of (i, e) \<Rightarrow> store64 (unat (t_pdpt t) + i * 8) e m)"

section \<open>The translation of an address\<close>

text \<open>What the processor does with an address of 48 bits: a table entry is a 64-bit number; bit 0
  says that it is present, bit 7 that it maps a large page, and the address it holds begins at
  bit 12 (21, 30 for large pages) and ends with bit 51.\<close>

definition entry :: "cells \<Rightarrow> nat \<Rightarrow> nat \<Rightarrow> nat" where
  "entry m table i = unat (m (table + i * 8)) + 2 ^ 32 * unat (m (table + i * 8 + 4))"

definition present :: "nat \<Rightarrow> bool" where "present e \<longleftrightarrow> e mod 2 = 1"
definition huge :: "nat \<Rightarrow> bool" where "huge e \<longleftrightarrow> e div 128 mod 2 = 1"

definition frame_at :: "nat \<Rightarrow> nat \<Rightarrow> nat" where
  "frame_at k e = e mod 2 ^ 52 div 2 ^ k * 2 ^ k"

definition translate_page :: "cells \<Rightarrow> nat \<Rightarrow> nat \<Rightarrow> nat option" where
  "translate_page m pt va =
     (let e = entry m pt (va div 2 ^ 12 mod 512) in
      if \<not> present e then None else Some (frame_at 12 e + va mod 2 ^ 12))"

definition translate_directory :: "cells \<Rightarrow> nat \<Rightarrow> nat \<Rightarrow> nat option" where
  "translate_directory m pd va =
     (let e = entry m pd (va div 2 ^ 21 mod 512) in
      if \<not> present e then None
      else if huge e then Some (frame_at 21 e + va mod 2 ^ 21)
      else translate_page m (frame_at 12 e) va)"

definition translate_pointer :: "cells \<Rightarrow> nat \<Rightarrow> nat \<Rightarrow> nat option" where
  "translate_pointer m pdpt va =
     (let e = entry m pdpt (va div 2 ^ 30 mod 512) in
      if \<not> present e then None
      else if huge e then Some (frame_at 30 e + va mod 2 ^ 30)
      else translate_directory m (frame_at 12 e) va)"

definition translate :: "cells \<Rightarrow> nat \<Rightarrow> nat \<Rightarrow> nat option" where
  "translate m pml4 va =
     (let e = entry m pml4 (va div 2 ^ 39 mod 512) in
      if \<not> present e then None else translate_pointer m (frame_at 12 e) va)"

section \<open>What the boot code maps\<close>

text \<open>The linker places the tables in zeroed memory, page aligned and apart from each other.\<close>

definition tables_ok :: "tables \<Rightarrow> bool" where
  "tables_ok t \<longleftrightarrow> 4096 dvd unat (t_pml4 t) \<and> 4096 dvd unat (t_pdpt t) \<and> 4096 dvd unat (t_pd t)
     \<and> distinct [t_pml4 t, t_pdpt t, t_pd t]"

definition tables_zero :: "tables \<Rightarrow> cells \<Rightarrow> bool" where
  "tables_zero t m \<longleftrightarrow> (\<forall>i < 512. entry m (unat (t_pml4 t)) i = 0 \<and> entry m (unat (t_pdpt t)) i = 0)"

lemma pages_apart:
  assumes "4096 dvd (a :: nat)" "4096 dvd b" "a \<noteq> b" "x < 4096" "y < 4096"
  shows "a + x \<noteq> b + y"
proof
  assume eq: "a + x = b + y"
  have "(a + x) div 4096 = a div 4096" "(b + y) div 4096 = b div 4096"
    using assms by auto
  then have "a div 4096 = b div 4096" using eq by simp
  then show False using assms(1-3) by auto
qed

lemma fill_pd_other:
  "\<forall>i \<in> set is. a \<noteq> unat pd + i * 8 \<and> a \<noteq> unat pd + i * 8 + 4 \<Longrightarrow> fill_pd pd is eax m a = m a"
  by (induction pd "is" eax m rule: fill_pd.induct) auto

lemma fill_pd_entry:
  "n \<le> k \<Longrightarrow> k < n' \<Longrightarrow> fill_pd pd [n..<n'] eax m (unat pd + k * 8) = eax + of_nat (k - n) * 0x200000
    \<and> fill_pd pd [n..<n'] eax m (unat pd + k * 8 + 4) = 0"
proof (induction "n' - n" arbitrary: n eax m)
  case (Suc x)
  then have upt: "[n..<n'] = n # [Suc n..<n']" by (simp add: upt_conv_Cons)
  show ?case
  proof (cases "k = n")
    case True
    have "unat pd + k * 8 \<noteq> unat pd + i * 8 + 4 \<and> unat pd + k * 8 + 4 \<noteq> unat pd + i * 8" for i
      by presburger
    then show ?thesis unfolding upt using True by (simp add: fill_pd_other)
  next
    case False
    have IH: "fill_pd pd [Suc n..<n'] e m' (unat pd + k * 8) = e + of_nat (k - Suc n) * 0x200000
      \<and> fill_pd pd [Suc n..<n'] e m' (unat pd + k * 8 + 4) = 0" for e m'
      by (rule Suc.hyps(1)) (use Suc False in simp_all)
    have "(of_nat (k - n) :: u32) * 0x200000 = 0x200000 + of_nat (k - Suc n) * 0x200000"
    proof -
      have "k - n = Suc (k - Suc n)" using False Suc.prems by simp
      then show ?thesis by (simp add: distrib_right del: of_nat_diff)
    qed
    then show ?thesis unfolding upt using IH by (simp add: add.assoc)
  qed
qed simp

lemma boot_pd_entry:
  assumes "k < 512"
  shows "entry (boot_tables t m) (unat (t_pd t)) k = 0x83 + k * 0x200000"
proof -
  have "fill_pd (t_pd t) [0..<512] 0x83 m' (unat (t_pd t) + k * 8) = 0x83 + of_nat k * 0x200000"
    "fill_pd (t_pd t) [0..<512] 0x83 m' (unat (t_pd t) + k * 8 + 4) = 0" for m'
    using fill_pd_entry [of 0 k 512 "t_pd t" "0x83" m'] assms by simp_all
  moreover have "unat (0x83 + of_nat k * 0x200000 :: u32) = 0x83 + k * 0x200000"
    using assms by (simp add: unat_word_ariths unsigned_of_nat take_bit_nat_eq_self)
  ultimately show ?thesis by (simp add: entry_def boot_tables_def)
qed

text \<open>The boot code leaves every cell outside the directory alone, but for the two links.\<close>

lemma boot_other:
  assumes "\<forall>i < 1024. a \<noteq> unat (t_pd t) + i * 4"
  shows "boot_tables t m a = (m(unat (t_pml4 t) := t_pdpt t OR 0x3, unat (t_pdpt t) := t_pd t OR 0x3)) a"
proof -
  have "a \<noteq> unat (t_pd t) + i * 8 \<and> a \<noteq> unat (t_pd t) + i * 8 + 4" if "i < 512" for i
    using assms [rule_format, of "2 * i"] assms [rule_format, of "2 * i + 1"] that by simp
  then show ?thesis unfolding boot_tables_def Let_def by (intro fill_pd_other) auto
qed

lemma or_3:
  assumes "4096 dvd unat (w :: u32)"
  shows "unat (w OR 3) = unat w + 3"
proof -
  have "take_bit 12 w = 0"
    using assms by (simp add: unsigned_eq_0_iff [symmetric, where 'a = nat] unsigned_take_bit_eq take_bit_nat_def)
  then have low: "\<not> bit w n" if "n < 12" for n
    using that bit_take_bit_iff [of 12 w n] by simp
  have "(3 :: u32) = mask 2" by (simp add: mask_eq_exp_minus_1)
  then have "bit (3 :: u32) n \<Longrightarrow> n < 2" for n by (simp only: bit_mask_iff)
  then have "\<not> bit w n \<or> \<not> bit (3 :: u32) n" for n using low [of n] by (meson less_trans numeral_less_iff semiring_norm(76,78,79))
  then have "w OR 3 = w + 3" by (simp add: disjunctive_add)
  moreover have "unat w + 3 < 2 ^ 32"
  proof -
    obtain c where c: "unat w = 4096 * c" using assms by blast
    then have "c < 2 ^ 20" using u32_less [of w] by simp
    then show ?thesis using c by simp
  qed
  ultimately show ?thesis by (simp add: unat_word_ariths)
qed

lemma frame_of_link: "4096 dvd n \<Longrightarrow> n < 2 ^ 32 \<Longrightarrow> frame_at 12 (n + 3) = n \<and> present (n + 3) \<and> \<not> huge (n + 3)"
proof -
  assume n: "4096 dvd n" "n < 2 ^ 32"
  then obtain c where c: "n = 4096 * c" by blast
  have "(n + 3) mod 2 ^ 52 = n + 3" using n(2) by simp
  moreover have "(n + 3) div 2 ^ 12 = c" using c by simp
  moreover have "(n + 3) div 128 mod 2 = 0"
  proof -
    have "n + 3 = 3 + (32 * c) * 128" using c by simp
    then have "(n + 3) div 128 = 32 * c" by (simp add: div_mult_self1)
    then show ?thesis by simp
  qed
  moreover have "(n + 3) mod 2 = 1"
  proof -
    have "n + 3 = 1 + (2048 * c + 1) * 2" using c by simp
    then show ?thesis by (simp only: mod_mult_self1) simp
  qed
  ultimately show ?thesis using c by (simp add: frame_at_def present_def huge_def)
qed

lemma frame_of_large_any: "present (0x83 + k * 0x200000)" "huge (0x83 + k * 0x200000)"
proof -
  have "0x83 + k * 0x200000 = 1 + (0x41 + k * 0x100000) * (2 :: nat)" by simp
  then show "present (0x83 + k * 0x200000)" unfolding present_def by (simp only: mod_mult_self1) simp
  have "0x83 + k * 0x200000 = 3 + (1 + k * 0x4000) * (128 :: nat)" by simp
  then have "(0x83 + k * 0x200000) div 128 = 1 + k * 0x4000" by (simp add: div_mult_self1)
  moreover have "1 + k * 0x4000 = 1 + (k * 0x2000) * (2 :: nat)" by simp
  ultimately show "huge (0x83 + k * 0x200000)" unfolding huge_def by (simp only: mod_mult_self1) simp
qed

lemma frame_of_large:
  assumes "k < 512"
  shows "frame_at 21 (0x83 + k * 0x200000) = k * 2 ^ 21" "present (0x83 + k * 0x200000)" "huge (0x83 + k * 0x200000)"
proof -
  have "(0x83 + k * 0x200000) mod 2 ^ 52 = 0x83 + k * 0x200000" using assms by simp
  moreover have "(0x83 + k * 0x200000) div 2 ^ 21 = k" by simp
  ultimately show "frame_at 21 (0x83 + k * 0x200000) = k * 2 ^ 21" by (simp add: frame_at_def)
  show "present (0x83 + k * 0x200000)" "huge (0x83 + k * 0x200000)" by (rule frame_of_large_any)+
qed

lemma entry_cong:
  "m (p + i * 8) = m' (p + i * 8) \<Longrightarrow> m (p + i * 8 + 4) = m' (p + i * 8 + 4) \<Longrightarrow> entry m p i = entry m' p i"
  by (simp add: entry_def)

lemma boot_links:
  assumes "tables_ok t" "tables_zero t m" "i < 512"
  shows "entry (boot_tables t m) (unat (t_pml4 t)) i = (if i = 0 then unat (t_pdpt t) + 3 else 0)"
    and "entry (boot_tables t m) (unat (t_pdpt t)) i = (if i = 0 then unat (t_pd t) + 3 else 0)"
proof -
  let ?a = "unat (t_pml4 t)" and ?b = "unat (t_pdpt t)" and ?c = "unat (t_pd t)"
  have al: "4096 dvd ?a" "4096 dvd ?b" "4096 dvd ?c" using assms(1) by (auto simp: tables_ok_def)
  have ne: "?a \<noteq> ?b" "?a \<noteq> ?c" "?b \<noteq> ?c"
    using assms(1) unsigned_word_eqI [where ?'a = nat] by (auto simp: tables_ok_def)
  have z: "m (?a + i * 8) = 0" "m (?a + i * 8 + 4) = 0" "m (?b + i * 8) = 0" "m (?b + i * 8 + 4) = 0"
    using assms(2,3) by (simp_all add: tables_zero_def entry_def unsigned_eq_0_iff)
  let ?m = "m(?a := t_pdpt t OR 0x3, ?b := t_pd t OR 0x3)"
  have off: "i * 8 < 4096" "i * 8 + 4 < 4096" using assms(3) by simp_all
  have B: "boot_tables t m (p + x) = ?m (p + x)" if "4096 dvd p" "p \<noteq> ?c" "x < 4096" for p x
    using pages_apart [OF that(1) al(3) that(2,3)] by (intro boot_other) auto
  have ab: "?a + x \<noteq> ?b + y" if "x < 4096" "y < 4096" for x y
    using pages_apart [OF al(1,2) ne(1) that] .
  have "?m (?a + i * 8) = (if i = 0 then t_pdpt t OR 3 else 0)" "?m (?a + i * 8 + 4) = 0"
    "?m (?b + i * 8) = (if i = 0 then t_pd t OR 3 else 0)" "?m (?b + i * 8 + 4) = 0"
    using z off ab [of "i * 8" 0] ab [of "i * 8 + 4" 0] ab [of 0 "i * 8"] ab [of 0 "i * 8 + 4"] ne by auto
  moreover note B [OF al(1) ne(2) off(1)] B [OF al(1) ne(2) off(2)] B [OF al(2) ne(3) off(1)] B [OF al(2) ne(3) off(2)]
  ultimately show "entry (boot_tables t m) ?a i = (if i = 0 then ?b + 3 else 0)"
    and "entry (boot_tables t m) ?b i = (if i = 0 then ?c + 3 else 0)"
    using or_3 [OF al(2)] or_3 [OF al(3)] by (simp_all add: entry_def add.assoc)
qed

section \<open>What \<open>map_1gb_page\<close> adds\<close>

lemma entry_store64_same:
  "entry (store64 (p + i * 8) w m) p i = unat w"
proof -
  have lo: "unat (ucast w :: u32) = unat w mod 2 ^ 32" by (simp add: unsigned_ucast_eq take_bit_nat_def)
  have d: "unat (drop_bit 32 w) = unat w div 2 ^ 32" by (simp add: unat_drop_bit_eq drop_bit_nat_def)
  have "unat w div 2 ^ 32 < 2 ^ 32" using unsigned_less [of w, where 'a = nat] by simp
  then have hi: "unat (ucast (drop_bit 32 w) :: u32) = unat w div 2 ^ 32"
    by (simp only: unsigned_ucast_eq d) (simp add: take_bit_nat_eq_self)
  show ?thesis
    unfolding entry_def store64_def using lo hi by simp
qed

lemma entry_store64_other:
  assumes "4096 dvd p" "4096 dvd q" "i < 512" "j < 512" "p \<noteq> q \<or> i \<noteq> j"
  shows "entry (store64 (p + i * 8) w m) q j = entry m q j"
proof -
  have "p + i * 8 \<noteq> q + j * 8 \<and> p + i * 8 \<noteq> q + j * 8 + 4 \<and> p + i * 8 + 4 \<noteq> q + j * 8 \<and> p + i * 8 + 4 \<noteq> q + j * 8 + 4"
  proof (cases "p = q")
    case True
    then have "i \<noteq> j" using assms(5) by simp
    then show ?thesis using True by (simp; presburger)
  next
    case False
    then show ?thesis
      using pages_apart [OF assms(1,2) False, of "i * 8" "j * 8"] pages_apart [OF assms(1,2) False, of "i * 8" "j * 8 + 4"]
        pages_apart [OF assms(1,2) False, of "i * 8 + 4" "j * 8"] pages_apart [OF assms(1,2) False, of "i * 8 + 4" "j * 8 + 4"]
        assms(3,4) by (simp add: add.assoc)
  qed
  then show ?thesis by (simp add: entry_def store64_def)
qed

lemma map_1gb_entry_value:
  assumes "unat phys < 2 ^ 39"
  shows "map_1gb_entry phys = (unat phys div 2 ^ 30, snd (map_1gb_entry phys))"
    "unat (snd (map_1gb_entry phys)) = unat phys div 2 ^ 30 * 2 ^ 30 + 0x83" "unat phys div 2 ^ 30 < 512"
proof -
  have d: "unat (drop_bit 30 phys) = unat phys div 2 ^ 30"
    by (simp add: unat_drop_bit_eq drop_bit_nat_def)
  show lt: "unat phys div 2 ^ 30 < 512" using assms by simp
  have m: "(0x1FF :: u64) = mask 9" "(0xFFFFFFFFC0000000 :: u64) = NOT (mask 30)"
    by (simp_all add: mask_eq_exp_minus_1)
  have "unat (drop_bit 30 phys AND 0x1FF) = unat phys div 2 ^ 30"
    unfolding m using lt by (simp only: take_bit_eq_mask [symmetric] unsigned_take_bit_eq d) (simp add: take_bit_nat_eq_self)
  then show "map_1gb_entry phys = (unat phys div 2 ^ 30, snd (map_1gb_entry phys))"
    by (simp add: map_1gb_entry_def)
  have pd: "phys AND NOT (mask 30) = push_bit 30 (drop_bit 30 phys)"
    by (rule bit_word_eqI) (auto simp: bit_simps)
  have small: "unat phys div 2 ^ 30 * 2 ^ 30 < 2 ^ 39" using assms by (meson le_less_trans div_times_less_eq_dividend)
  have u: "unat (push_bit 30 (drop_bit 30 phys)) = unat phys div 2 ^ 30 * 2 ^ 30"
    using small d by (simp add: push_bit_eq_mult unat_word_ariths)
  have dis: "\<not> bit (push_bit 30 (drop_bit 30 phys)) n \<or> \<not> bit (0x83 :: u64) n" for n
  proof (cases "n < 30")
    case False
    have "(0x83 :: u64) = take_bit 30 0x83" by simp
    then have "bit (0x83 :: u64) n \<longleftrightarrow> n < 30 \<and> bit (0x83 :: u64) n" by (metis bit_take_bit_iff)
    then show ?thesis using False by simp
  qed (simp add: bit_simps)
  have "phys AND NOT (mask 30) OR 0x83 = push_bit 30 (drop_bit 30 phys) + 0x83"
    unfolding pd using dis by (intro disjunctive_add [symmetric]) auto
  then show "unat (snd (map_1gb_entry phys)) = unat phys div 2 ^ 30 * 2 ^ 30 + 0x83"
    using small u by (simp add: map_1gb_entry_def m unat_word_ariths)
qed

text \<open>The tables with the gigabytes of \<open>S\<close> mapped beside the first.\<close>

definition maps_gigabytes :: "tables \<Rightarrow> nat set \<Rightarrow> cells \<Rightarrow> bool" where
  "maps_gigabytes t S M \<longleftrightarrow>
     (\<forall>i < 512. entry M (unat (t_pml4 t)) i = (if i = 0 then unat (t_pdpt t) + 3 else 0)
       \<and> entry M (unat (t_pd t)) i = 0x83 + i * 0x200000
       \<and> entry M (unat (t_pdpt t)) i = (if i = 0 then unat (t_pd t) + 3 else if i \<in> S then i * 2 ^ 30 + 0x83 else 0))"

lemma boot_maps: "tables_ok t \<Longrightarrow> tables_zero t m \<Longrightarrow> maps_gigabytes t {} (boot_tables t m)"
  by (simp add: maps_gigabytes_def boot_links boot_pd_entry)

lemma map_1gb_page_maps:
  assumes "tables_ok t" "maps_gigabytes t S M" "2 ^ 30 \<le> unat phys" "unat phys < 2 ^ 39"
  shows "maps_gigabytes t (insert (unat phys div 2 ^ 30) S) (map_1gb_page t phys M)"
proof -
  let ?i = "unat phys div 2 ^ 30" and ?b = "unat (t_pdpt t)"
  note E = map_1gb_entry_value [OF assms(4)]
  have al: "4096 dvd unat (t_pml4 t)" "4096 dvd ?b" "4096 dvd unat (t_pd t)" using assms(1) by (auto simp: tables_ok_def)
  have ne: "?b \<noteq> unat (t_pml4 t)" "?b \<noteq> unat (t_pd t)"
    using assms(1) unsigned_word_eqI [where ?'a = nat, of "t_pdpt t" "t_pml4 t"]
      unsigned_word_eqI [where ?'a = nat, of "t_pdpt t" "t_pd t"] by (auto simp: tables_ok_def)
  have M: "map_1gb_page t phys M = store64 (?b + ?i * 8) (snd (map_1gb_entry phys)) M"
    unfolding map_1gb_page_def by (subst E(1)) simp
  have i0: "?i \<noteq> 0" using assms(3) by simp
  have "entry (map_1gb_page t phys M) ?b j = (if j = 0 then unat (t_pd t) + 3
      else if j \<in> insert ?i S then j * 2 ^ 30 + 0x83 else 0)" if "j < 512" for j
  proof (cases "j = ?i")
    case True
    then show ?thesis unfolding M True using i0 E(2) entry_store64_same [of ?b ?i] by simp
  next
    case False
    then show ?thesis
      unfolding M using entry_store64_other [OF al(2,2) E(3) that] assms(2) that by (simp add: maps_gigabytes_def)
  qed
  moreover have "entry (map_1gb_page t phys M) q j = entry M q j" if "j < 512" "4096 dvd q" "?b \<noteq> q" for q j
    unfolding M using that by (intro entry_store64_other [OF al(2) _ E(3)]) auto
  ultimately show ?thesis
    using assms(2) al ne unfolding maps_gigabytes_def by simp
qed

lemma fold_map_1gb_page:
  assumes "tables_ok t"
  shows "maps_gigabytes t S M \<Longrightarrow> list_all (\<lambda>p. 2 ^ 30 \<le> unat p \<and> unat p < 2 ^ 39) ps \<Longrightarrow>
    maps_gigabytes t (S \<union> (\<lambda>p. unat p div 2 ^ 30) ` set ps) (fold (map_1gb_page t) ps M)"
proof (induction ps arbitrary: S M)
  case (Cons p ps)
  have "maps_gigabytes t (insert (unat p div 2 ^ 30) S) (map_1gb_page t p M)"
    using Cons.prems by (intro map_1gb_page_maps assms) auto
  from Cons.IH [OF this] Cons.prems show ?case by simp
qed simp

lemma frame_of_gigabyte:
  assumes "i < 512"
  shows "frame_at 30 (i * 2 ^ 30 + 0x83) = i * 2 ^ 30" "present (i * 2 ^ 30 + 0x83)" "huge (i * 2 ^ 30 + 0x83)"
proof -
  have "(i * 2 ^ 30 + 0x83) mod 2 ^ 52 = i * 2 ^ 30 + 0x83" using assms by simp
  then show "frame_at 30 (i * 2 ^ 30 + 0x83) = i * 2 ^ 30" by (simp add: frame_at_def)
  have "i * 2 ^ 30 + 0x83 = 0x83 + (i * 512) * 0x200000" by simp
  moreover have "present (0x83 + k * 0x200000)" "huge (0x83 + k * 0x200000)" for k
    by (rule frame_of_large_any)+
  ultimately show "present (i * 2 ^ 30 + 0x83)" "huge (i * 2 ^ 30 + 0x83)" by metis+
qed

text \<open>What the processor makes of such tables.\<close>

lemma translate_maps:
  assumes "tables_ok t" "maps_gigabytes t S M" "\<forall>x \<in> S. x < 512" "va < 2 ^ 48"
  shows "translate M (unat (t_pml4 t)) va = (if va < 2 ^ 30 \<or> va div 2 ^ 30 \<in> S then Some va else None)"
proof -
  let ?b = "unat (t_pdpt t)" and ?c = "unat (t_pd t)"
  note G = assms(2) and S = assms(3) [rule_format]
  have al: "4096 dvd ?b" "4096 dvd ?c" using assms(1) by (auto simp: tables_ok_def)
  have lt: "?b < 2 ^ 32" "?c < 2 ^ 32" using u32_less [of "t_pdpt t"] u32_less [of "t_pd t"] by simp_all
  note b = frame_of_link [OF al(1) lt(1)] and c = frame_of_link [OF al(2) lt(2)]
  have no: "\<not> present 0" by (simp add: present_def)
  show ?thesis
  proof (cases "va < 2 ^ 39")
    case False
    have i4: "va div 2 ^ 39 mod 512 = va div 2 ^ 39" "va div 2 ^ 39 < 512" using assms(4) by simp_all
    have "va div 2 ^ 39 \<noteq> 0" using False by simp
    then have "entry M (unat (t_pml4 t)) (va div 2 ^ 39 mod 512) = 0" using G i4 by (simp only: maps_gigabytes_def) simp
    moreover have "\<not> va div 2 ^ 30 < 512" "\<not> va < 2 ^ 30" using False by simp_all
    ultimately show ?thesis using S no unfolding translate_def by auto
  next
    case True
    have "va div 2 ^ 39 mod 512 = 0" using True by simp
    then have "entry M (unat (t_pml4 t)) (va div 2 ^ 39 mod 512) = ?b + 3" using G by (simp add: maps_gigabytes_def)
    then have top: "translate M (unat (t_pml4 t)) va = translate_pointer M ?b va"
      unfolding translate_def using b by simp
    have i3: "va div 2 ^ 30 < 512" "va div 2 ^ 30 mod 512 = va div 2 ^ 30" using True by simp_all
    have e3: "entry M ?b (va div 2 ^ 30 mod 512) = (if va div 2 ^ 30 = 0 then ?c + 3
        else if va div 2 ^ 30 \<in> S then va div 2 ^ 30 * 2 ^ 30 + 0x83 else 0)"
      unfolding i3(2) using G i3(1) by (simp only: maps_gigabytes_def)
    show ?thesis
    proof (cases "va < 2 ^ 30")
      case low: True
      then have z: "va div 2 ^ 30 = 0" by simp
      have k: "va div 2 ^ 21 < 512" "va div 2 ^ 21 mod 512 = va div 2 ^ 21" using low by simp_all
      have e2: "entry M ?c (va div 2 ^ 21 mod 512) = 0x83 + va div 2 ^ 21 * 0x200000"
        unfolding k(2) using G k(1) by (simp only: maps_gigabytes_def)
      have "translate M (unat (t_pml4 t)) va = translate_directory M ?c va"
        unfolding top translate_pointer_def e3 unfolding z using c by simp
      also have "\<dots> = Some (va div 2 ^ 21 * 2 ^ 21 + va mod 2 ^ 21)"
        unfolding translate_directory_def e2 Let_def using frame_of_large [OF k(1)] by simp
      also have "va div 2 ^ 21 * 2 ^ 21 + va mod 2 ^ 21 = va" by (rule div_mult_mod_eq)
      finally show ?thesis using low by simp
    next
      case high: False
      then have nz: "va div 2 ^ 30 \<noteq> 0" by simp
      note F = frame_of_gigabyte [OF i3(1)]
      have "va div 2 ^ 30 * 2 ^ 30 + va mod 2 ^ 30 = va" by (rule div_mult_mod_eq)
      then show ?thesis
        unfolding top translate_pointer_def e3 Let_def using nz high F no by (simp only: if_False if_True) simp
    qed
  qed
qed

text \<open>After the boot code has built its tables and \<open>map_1gb_page\<close> was called for any addresses
  from the second gigabyte on, below 512 GiB, the processor translates every address of the
  first gigabyte and of the gigabytes of these calls to itself, and no other address to anything.\<close>

theorem identity_mapping:
  assumes "tables_ok t" "tables_zero t m" "list_all (\<lambda>p. 2 ^ 30 \<le> unat p \<and> unat p < 2 ^ 39) ps" "va < 2 ^ 48"
  shows "translate (fold (map_1gb_page t) ps (boot_tables t m)) (unat (t_pml4 t)) va =
    (if va < 2 ^ 30 \<or> va div 2 ^ 30 \<in> (\<lambda>p. unat p div 2 ^ 30) ` set ps then Some va else None)"
proof (rule translate_maps [OF assms(1) _ _ assms(4)])
  show "maps_gigabytes t ((\<lambda>p. unat p div 2 ^ 30) ` set ps) (fold (map_1gb_page t) ps (boot_tables t m))"
    using fold_map_1gb_page [OF assms(1) boot_maps [OF assms(1,2)] assms(3)] by simp
  show "\<forall>x \<in> (\<lambda>p. unat p div 2 ^ 30) ` set ps. x < 512" using assms(3) by (auto simp: list_all_iff)
qed

text \<open>Tables at 1, 2 and 3 times 4096 in zeroed memory, and the gigabyte of the frame buffer.\<close>

theorem identity_mapping_witness:
  "let M = map_1gb_page \<lparr>t_pml4 = 0x1000, t_pdpt = 0x2000, t_pd = 0x3000\<rparr> 0xFC000000
      (boot_tables \<lparr>t_pml4 = 0x1000, t_pdpt = 0x2000, t_pd = 0x3000\<rparr> (\<lambda>_. 0)) in
   translate M 0x1000 0x12345678 = Some 0x12345678 \<and> translate M 0x1000 0xFD000010 = Some 0xFD000010
     \<and> translate M 0x1000 0x40000000 = None"
proof -
  let ?t = "\<lparr>t_pml4 = 0x1000, t_pdpt = 0x2000, t_pd = 0x3000\<rparr> :: tables"
  have ok: "tables_ok ?t" by (simp add: tables_ok_def)
  have z: "tables_zero ?t (\<lambda>_. 0)" by (simp add: tables_zero_def entry_def)
  have a: "list_all (\<lambda>p. 2 ^ 30 \<le> unat p \<and> unat p < 2 ^ 39) [0xFC000000 :: u64]" by simp
  note T = identity_mapping [OF ok z a]
  show ?thesis using T [of "0x12345678"] T [of "0xFD000010"] T [of "0x40000000"] by simp
qed

end
