(* ===== verification/Framebuffer.thy ===== *)
theory Framebuffer
  imports Format Boot
begin

text \<open>
  The framebuffer console of \<^verbatim>\<open>src/framebuffer.rs\<close>: the font, the drawing of pixels and
  glyphs, the text cursor with scrolling, and the search for a framebuffer in the information of
  the boot loader. The framebuffer is its bytes by offset, physical memory its bytes by address.
\<close>

section \<open>The font\<close>

definition FONT :: "u8 list list" where
  "FONT =
     [[0, 0, 0, 0, 0, 0, 0, 0, 0, 0, 0, 0, 0, 0, 0, 0],
      [0, 0, 24, 60, 60, 60, 24, 24, 24, 0, 24, 24, 0, 0, 0, 0],
      [0, 102, 102, 102, 36, 0, 0, 0, 0, 0, 0, 0, 0, 0, 0, 0],
      [0, 0, 0, 108, 108, 254, 108, 108, 108, 254, 108, 108, 0, 0, 0, 0],
      [24, 24, 124, 198, 192, 124, 6, 134, 198, 124, 24, 24, 0, 0, 0, 0],
      [0, 0, 194, 198, 12, 24, 48, 96, 198, 134, 0, 0, 0, 0, 0, 0],
      [0, 0, 56, 108, 56, 118, 220, 204, 204, 118, 0, 0, 0, 0, 0, 0],
      [0, 48, 48, 48, 96, 0, 0, 0, 0, 0, 0, 0, 0, 0, 0, 0],
      [0, 0, 12, 24, 48, 48, 48, 48, 24, 12, 0, 0, 0, 0, 0, 0],
      [0, 0, 48, 24, 12, 12, 12, 12, 24, 48, 0, 0, 0, 0, 0, 0],
      [0, 0, 0, 102, 60, 255, 60, 102, 0, 0, 0, 0, 0, 0, 0, 0],
      [0, 0, 0, 24, 24, 126, 24, 24, 0, 0, 0, 0, 0, 0, 0, 0],
      [0, 0, 0, 0, 0, 0, 0, 24, 24, 48, 0, 0, 0, 0, 0, 0],
      [0, 0, 0, 0, 0, 254, 0, 0, 0, 0, 0, 0, 0, 0, 0, 0],
      [0, 0, 0, 0, 0, 0, 0, 24, 24, 0, 0, 0, 0, 0, 0, 0],
      [0, 0, 2, 6, 12, 24, 48, 96, 192, 128, 0, 0, 0, 0, 0, 0],
      [0, 0, 60, 102, 195, 219, 219, 195, 102, 60, 0, 0, 0, 0, 0, 0],
      [0, 0, 24, 56, 120, 24, 24, 24, 24, 126, 0, 0, 0, 0, 0, 0],
      [0, 0, 124, 198, 6, 12, 24, 48, 96, 254, 0, 0, 0, 0, 0, 0],
      [0, 0, 124, 198, 6, 60, 6, 6, 198, 124, 0, 0, 0, 0, 0, 0],
      [0, 0, 12, 28, 60, 108, 204, 254, 12, 30, 0, 0, 0, 0, 0, 0],
      [0, 0, 254, 192, 252, 6, 6, 6, 198, 124, 0, 0, 0, 0, 0, 0],
      [0, 0, 56, 96, 192, 252, 198, 198, 198, 124, 0, 0, 0, 0, 0, 0],
      [0, 0, 254, 198, 6, 12, 24, 48, 48, 48, 0, 0, 0, 0, 0, 0],
      [0, 0, 124, 198, 198, 124, 198, 198, 198, 124, 0, 0, 0, 0, 0, 0],
      [0, 0, 124, 198, 198, 126, 6, 6, 12, 120, 0, 0, 0, 0, 0, 0],
      [0, 0, 0, 24, 24, 0, 0, 24, 24, 0, 0, 0, 0, 0, 0, 0],
      [0, 0, 0, 24, 24, 0, 0, 24, 24, 48, 0, 0, 0, 0, 0, 0],
      [0, 6, 12, 24, 48, 96, 48, 24, 12, 6, 0, 0, 0, 0, 0, 0],
      [0, 0, 0, 0, 126, 0, 126, 0, 0, 0, 0, 0, 0, 0, 0, 0],
      [0, 96, 48, 24, 12, 6, 12, 24, 48, 96, 0, 0, 0, 0, 0, 0],
      [0, 0, 124, 198, 12, 24, 24, 0, 24, 24, 0, 0, 0, 0, 0, 0],
      [0, 0, 124, 198, 222, 222, 222, 220, 192, 124, 0, 0, 0, 0, 0, 0],
      [0, 0, 16, 56, 108, 198, 198, 254, 198, 198, 0, 0, 0, 0, 0, 0],
      [0, 0, 252, 102, 102, 124, 102, 102, 102, 252, 0, 0, 0, 0, 0, 0],
      [0, 0, 60, 102, 192, 192, 192, 192, 102, 60, 0, 0, 0, 0, 0, 0],
      [0, 0, 248, 108, 102, 102, 102, 102, 108, 248, 0, 0, 0, 0, 0, 0],
      [0, 0, 254, 98, 104, 120, 104, 96, 98, 254, 0, 0, 0, 0, 0, 0],
      [0, 0, 254, 98, 104, 120, 104, 96, 96, 240, 0, 0, 0, 0, 0, 0],
      [0, 0, 60, 102, 192, 192, 222, 198, 102, 58, 0, 0, 0, 0, 0, 0],
      [0, 0, 198, 198, 198, 254, 198, 198, 198, 198, 0, 0, 0, 0, 0, 0],
      [0, 0, 60, 24, 24, 24, 24, 24, 24, 60, 0, 0, 0, 0, 0, 0],
      [0, 0, 30, 12, 12, 12, 12, 204, 204, 120, 0, 0, 0, 0, 0, 0],
      [0, 0, 230, 102, 108, 120, 108, 102, 102, 230, 0, 0, 0, 0, 0, 0],
      [0, 0, 240, 96, 96, 96, 96, 98, 102, 254, 0, 0, 0, 0, 0, 0],
      [0, 0, 195, 231, 255, 219, 195, 195, 195, 195, 0, 0, 0, 0, 0, 0],
      [0, 0, 198, 230, 246, 222, 206, 198, 198, 198, 0, 0, 0, 0, 0, 0],
      [0, 0, 124, 198, 198, 198, 198, 198, 198, 124, 0, 0, 0, 0, 0, 0],
      [0, 0, 252, 102, 102, 124, 96, 96, 96, 240, 0, 0, 0, 0, 0, 0],
      [0, 0, 124, 198, 198, 198, 214, 222, 124, 12, 14, 0, 0, 0, 0, 0],
      [0, 0, 252, 102, 102, 124, 108, 102, 102, 230, 0, 0, 0, 0, 0, 0],
      [0, 0, 124, 198, 96, 56, 12, 6, 198, 124, 0, 0, 0, 0, 0, 0],
      [0, 0, 255, 153, 24, 24, 24, 24, 24, 60, 0, 0, 0, 0, 0, 0],
      [0, 0, 198, 198, 198, 198, 198, 198, 198, 124, 0, 0, 0, 0, 0, 0],
      [0, 0, 198, 198, 198, 198, 198, 108, 56, 16, 0, 0, 0, 0, 0, 0],
      [0, 0, 195, 195, 195, 219, 219, 255, 102, 102, 0, 0, 0, 0, 0, 0],
      [0, 0, 198, 108, 56, 56, 56, 108, 198, 198, 0, 0, 0, 0, 0, 0],
      [0, 0, 102, 102, 102, 60, 24, 24, 24, 60, 0, 0, 0, 0, 0, 0],
      [0, 0, 254, 134, 12, 24, 48, 96, 194, 254, 0, 0, 0, 0, 0, 0],
      [0, 0, 60, 48, 48, 48, 48, 48, 48, 60, 0, 0, 0, 0, 0, 0],
      [0, 0, 128, 192, 224, 112, 56, 28, 14, 6, 2, 0, 0, 0, 0, 0],
      [0, 0, 60, 12, 12, 12, 12, 12, 12, 60, 0, 0, 0, 0, 0, 0],
      [16, 56, 108, 198, 0, 0, 0, 0, 0, 0, 0, 0, 0, 0, 0, 0],
      [0, 0, 0, 0, 0, 0, 0, 0, 0, 0, 0, 255, 0, 0, 0, 0],
      [0, 0, 0, 120, 12, 124, 204, 204, 204, 118, 0, 0, 0, 0, 0, 0],
      [0, 0, 224, 96, 120, 108, 102, 102, 102, 124, 0, 0, 0, 0, 0, 0],
      [0, 0, 0, 124, 198, 192, 192, 192, 198, 124, 0, 0, 0, 0, 0, 0],
      [0, 0, 28, 12, 60, 108, 204, 204, 204, 118, 0, 0, 0, 0, 0, 0],
      [0, 0, 0, 124, 198, 254, 192, 192, 198, 124, 0, 0, 0, 0, 0, 0],
      [0, 0, 56, 108, 96, 240, 96, 96, 96, 240, 0, 0, 0, 0, 0, 0],
      [0, 0, 0, 118, 204, 204, 204, 204, 124, 12, 204, 120, 0, 0, 0, 0],
      [0, 0, 224, 96, 108, 118, 102, 102, 102, 230, 0, 0, 0, 0, 0, 0],
      [0, 0, 24, 24, 56, 24, 24, 24, 24, 60, 0, 0, 0, 0, 0, 0],
      [0, 0, 6, 6, 14, 6, 6, 6, 102, 102, 60, 0, 0, 0, 0, 0],
      [0, 0, 224, 96, 102, 108, 120, 108, 102, 230, 0, 0, 0, 0, 0, 0],
      [0, 0, 56, 24, 24, 24, 24, 24, 24, 60, 0, 0, 0, 0, 0, 0],
      [0, 0, 0, 230, 255, 219, 219, 219, 219, 219, 0, 0, 0, 0, 0, 0],
      [0, 0, 0, 220, 102, 102, 102, 102, 102, 102, 0, 0, 0, 0, 0, 0],
      [0, 0, 0, 124, 198, 198, 198, 198, 198, 124, 0, 0, 0, 0, 0, 0],
      [0, 0, 0, 220, 102, 102, 102, 102, 124, 96, 96, 240, 0, 0, 0, 0],
      [0, 0, 0, 118, 204, 204, 204, 204, 124, 12, 12, 30, 0, 0, 0, 0],
      [0, 0, 0, 220, 118, 102, 96, 96, 96, 240, 0, 0, 0, 0, 0, 0],
      [0, 0, 0, 124, 198, 96, 56, 12, 198, 124, 0, 0, 0, 0, 0, 0],
      [0, 0, 16, 48, 252, 48, 48, 48, 54, 28, 0, 0, 0, 0, 0, 0],
      [0, 0, 0, 204, 204, 204, 204, 204, 204, 118, 0, 0, 0, 0, 0, 0],
      [0, 0, 0, 198, 198, 198, 198, 108, 56, 16, 0, 0, 0, 0, 0, 0],
      [0, 0, 0, 195, 195, 219, 219, 255, 102, 102, 0, 0, 0, 0, 0, 0],
      [0, 0, 0, 198, 108, 56, 56, 108, 198, 198, 0, 0, 0, 0, 0, 0],
      [0, 0, 0, 198, 198, 198, 198, 198, 126, 6, 12, 248, 0, 0, 0, 0],
      [0, 0, 0, 254, 204, 24, 48, 96, 198, 254, 0, 0, 0, 0, 0, 0],
      [0, 14, 24, 24, 112, 24, 24, 14, 0, 0, 0, 0, 0, 0, 0, 0],
      [0, 24, 24, 24, 0, 24, 24, 24, 0, 0, 0, 0, 0, 0, 0, 0],
      [0, 112, 24, 24, 14, 24, 24, 112, 0, 0, 0, 0, 0, 0, 0, 0],
      [0, 118, 220, 0, 0, 0, 0, 0, 0, 0, 0, 0, 0, 0, 0, 0]]"

text \<open>An index beyond the table is a panic, \<open>None\<close>.\<close>

definition glyph :: "u8 \<Rightarrow> u8 list option" where
  "glyph c =
     (if 32 \<le> c \<and> c < 127
      then (if unat (c - 32) < length FONT then Some (FONT ! unat (c - 32)) else None)
      else Some (FONT ! 0))"

lemma length_FONT: "length FONT = 94" "list_all (\<lambda>g. length g = 16) FONT"
  by (simp_all add: FONT_def)

text \<open>The table should have one glyph for each of the 95 characters from 32 to 126; it has 94,
  because the one of the grave accent (96) is missing. The tilde is a panic.\<close>

lemma tilde_panics: "glyph c = None \<longleftrightarrow> c = 126"
proof -
  have "unat (c - 32) = unat c - 32" if "32 \<le> c"
    using that by (simp add: unat_sub_if' word_le_nat_alt)
  moreover have "unat c < 127" if "c < 127" using that by (simp add: word_less_nat_alt)
  moreover have "c = 126" if "unat c = 126" using that by (intro unsigned_word_eqI [where ?'a = nat]) simp
  ultimately show ?thesis by (auto simp: glyph_def length_FONT)
qed

section \<open>Pixels and glyphs\<close>

type_synonym fbmem = "nat \<Rightarrow> u8"

record FbConsole =
  fb_addr :: u64
  fb_width :: u32
  fb_height :: u32
  fb_pitch :: u32
  fb_bpp :: u8
  fb_cols :: u32
  fb_rows :: u32
  cur_x :: u32
  cur_y :: u32
  fb_fg :: u32
  fb_bg :: u32

definition poke :: "nat \<Rightarrow> u8 list \<Rightarrow> fbmem \<Rightarrow> fbmem" where
  "poke off bs m = (\<lambda>a. if off \<le> a \<and> a < off + length bs then bs ! (a - off) else m a)"

definition put_color :: "u8 \<Rightarrow> nat \<Rightarrow> u32 \<Rightarrow> fbmem \<Rightarrow> fbmem" where
  "put_color bpp off c m =
     (if bpp = 32 then poke off (le32 c) m
      else if bpp = 24 then poke off [ucast c, ucast (drop_bit 8 c), ucast (drop_bit 16 c)] m
      else m)"

definition pixel_offset :: "FbConsole \<Rightarrow> u32 \<Rightarrow> u32 \<Rightarrow> nat" where
  "pixel_offset con x y = unat y * unat (fb_pitch con) + unat x * (unat (fb_bpp con) div 8)"

definition draw_pixel :: "FbConsole \<Rightarrow> u32 \<Rightarrow> u32 \<Rightarrow> u32 \<Rightarrow> fbmem \<Rightarrow> fbmem" where
  "draw_pixel con x y color m =
     (if x \<ge> fb_width con \<or> y \<ge> fb_height con then m
      else put_color (fb_bpp con) (pixel_offset con x y) color m)"

text \<open>Both loops of \<open>draw_glyph\<close> break at the first row or column outside.\<close>

definition glyph_row :: "FbConsole \<Rightarrow> u32 \<Rightarrow> u32 \<Rightarrow> u8 \<Rightarrow> fbmem \<Rightarrow> fbmem" where
  "glyph_row con gx py bits m =
     fold (\<lambda>col. put_color (fb_bpp con) (pixel_offset con (gx + of_nat col) py)
             (if bit bits (7 - col) then fb_fg con else fb_bg con))
       (takeWhile (\<lambda>col. gx + of_nat col < fb_width con) [0..<8]) m"

definition draw_glyph :: "FbConsole \<Rightarrow> u32 \<Rightarrow> u32 \<Rightarrow> u8 list \<Rightarrow> fbmem \<Rightarrow> fbmem" where
  "draw_glyph con gx gy g m =
     fold (\<lambda>row. glyph_row con gx (gy + of_nat row) (g ! row))
       (takeWhile (\<lambda>row. gy + of_nat row < fb_height con) [0..<16]) m"

section \<open>The text cursor\<close>

type_synonym fb = "FbConsole \<times> fbmem"

definition copy_bytes :: "nat \<Rightarrow> nat \<Rightarrow> nat \<Rightarrow> fbmem \<Rightarrow> fbmem" where
  "copy_bytes src dst n m = fold (\<lambda>i m. m(dst + i := m (src + i))) [0..<n] m"

definition blank_line :: "FbConsole \<Rightarrow> u32 \<Rightarrow> fbmem \<Rightarrow> fbmem" where
  "blank_line con y m = fold (\<lambda>x. draw_glyph con (of_nat x * 8) (y * 16) (FONT ! 0)) [0..<unat (fb_cols con)] m"

definition fb_scroll :: "fb \<Rightarrow> fb" where
  "fb_scroll = (\<lambda>(con, m).
     let row_bytes = unat (fb_pitch con) * 16;
         m = fold (\<lambda>row. copy_bytes (row * row_bytes) ((row - 1) * row_bytes) row_bytes) [1..<unat (fb_rows con)] m;
         con = con\<lparr>cur_y := fb_rows con - 1, cur_x := 0\<rparr>
     in (con, blank_line con (cur_y con) m))"

definition fb_clear :: "fb \<Rightarrow> fb" where
  "fb_clear = (\<lambda>(con, m).
     (con\<lparr>cur_x := 0, cur_y := 0\<rparr>, fold (\<lambda>y. blank_line con (of_nat y)) [0..<unat (fb_rows con)] m))"

definition fb_newline :: "fb \<Rightarrow> fb" where
  "fb_newline = (\<lambda>(con, m).
     let con = con\<lparr>cur_x := 0, cur_y := cur_y con + 1\<rparr>
     in if cur_y con \<ge> fb_rows con then fb_scroll (con, m) else (con, m))"

text \<open>\<open>None\<close> is the panic of \<open>glyph\<close>.\<close>

definition fb_write_byte :: "u8 \<Rightarrow> fb \<Rightarrow> fb option" where
  "fb_write_byte byte = (\<lambda>(con, m).
     if byte = 10 then Some (fb_newline (con, m))
     else if byte = 13 then Some (con\<lparr>cur_x := 0\<rparr>, m)
     else if byte = 9 then
       (let con = con\<lparr>cur_x := (cur_x con + 8) AND NOT 7\<rparr>
        in Some (if cur_x con \<ge> fb_cols con then fb_newline (con, m) else (con, m)))
     else
       (case (if cur_x con \<ge> fb_cols con then fb_newline (con, m) else (con, m)) of
          (con, m) \<Rightarrow>
            (case glyph byte of None \<Rightarrow> None
             | Some g \<Rightarrow> Some (con\<lparr>cur_x := cur_x con + 1\<rparr>, draw_glyph con (cur_x con * 8) (cur_y con * 16) g m))))"

fun fb_write_str :: "u8 list \<Rightarrow> fb \<Rightarrow> fb option" where
  "fb_write_str [] f = Some f"
| "fb_write_str (b # bs) f = Option.bind (fb_write_byte b f) (fb_write_str bs)"

section \<open>Finding a framebuffer\<close>

definition peek32 :: "fbmem \<Rightarrow> nat \<Rightarrow> u32" where
  "peek32 mem a = of_le32 (mem a) (mem (a + 1)) (mem (a + 2)) (mem (a + 3))"

definition peek64 :: "fbmem \<Rightarrow> nat \<Rightarrow> u64" where
  "peek64 mem a = ucast (peek32 mem a) OR push_bit 32 (ucast (peek32 mem (a + 4)))"

text \<open>The console and how many bytes of the framebuffer are zeroed; text is grey on black.\<close>

definition setup_fb :: "u64 \<Rightarrow> u32 \<Rightarrow> u32 \<Rightarrow> u32 \<Rightarrow> u8 \<Rightarrow> (FbConsole \<times> nat) option" where
  "setup_fb addr pitch w h bpp =
     (if addr = 0 \<or> w = 0 \<or> h = 0 then None
      else Some (\<lparr>fb_addr = addr, fb_width = w, fb_height = h, fb_pitch = pitch, fb_bpp = bpp,
                  fb_cols = w div 8, fb_rows = h div 16, cur_x = 0, cur_y = 0,
                  fb_fg = 0x00AAAAAA, fb_bg = 0\<rparr>,
                 unat pitch * unat h div 8 * 8))"

definition init_mb1 :: "fbmem \<Rightarrow> nat \<Rightarrow> (FbConsole \<times> nat) option" where
  "init_mb1 mem info =
     (if peek32 mem info AND 0x1000 = 0 then None
      else setup_fb (peek64 mem (info + 88)) (peek32 mem (info + 96)) (peek32 mem (info + 100))
             (peek32 mem (info + 104)) (mem (info + 108)))"

text \<open>The tags of the Multiboot2 information, each at a multiple of eight.\<close>

function find_fb_tag :: "fbmem \<Rightarrow> nat \<Rightarrow> nat \<Rightarrow> nat \<Rightarrow> (FbConsole \<times> nat) option" where
  "find_fb_tag mem info all off =
     (if \<not> off + 8 \<le> all then None
      else
        let tag_type = peek32 mem (info + off); tag_size = peek32 mem (info + off + 4) in
        if tag_type = 0 \<or> tag_size = 0 then None
        else if tag_type = 8 then
          setup_fb (peek64 mem (info + off + 8)) (peek32 mem (info + off + 16)) (peek32 mem (info + off + 20))
            (peek32 mem (info + off + 24)) (mem (info + off + 28))
        else find_fb_tag mem info all ((off + unat tag_size + 7) div 8 * 8))"
  by auto

termination
proof (relation "measure (\<lambda>(mem, info, all, off). all - off)")
  fix mem info all off tag_type tag_size
  assume a: "\<not> \<not> off + 8 \<le> all" "tag_size = peek32 mem (info + off + 4)" "\<not> (tag_type = 0 \<or> tag_size = 0)"
  then have "0 < unat tag_size" by (simp add: unat_gt_0)
  then have "off < (off + unat tag_size + 7) div 8 * 8" by presburger
  then show "((mem, info, all, (off + unat tag_size + 7) div 8 * 8), mem, info, all, off) \<in> measure (\<lambda>(mem, info, all, off). all - off)"
    using a(1) by simp
qed simp

declare find_fb_tag.simps [simp del]

definition init_mb2 :: "fbmem \<Rightarrow> nat \<Rightarrow> (FbConsole \<times> nat) option" where
  "init_mb2 mem info = find_fb_tag mem info (unat (peek32 mem info)) 8"

text \<open>Without a boot loader's answer two addresses are tried; \<open>answers a\<close> says whether a pattern
  written to \<open>a\<close> is read back.\<close>

definition probe_fallback :: "(u64 \<Rightarrow> bool) \<Rightarrow> (FbConsole \<times> nat) option" where
  "probe_fallback answers =
     (if answers 0xFD000000 then setup_fb 0xFD000000 4096 1024 768 32
      else if answers 0xE0000000 then setup_fb 0xE0000000 4096 1024 768 32
      else None)"

definition fb_init :: "u32 \<Rightarrow> u32 \<Rightarrow> fbmem \<Rightarrow> (u64 \<Rightarrow> bool) \<Rightarrow> (FbConsole \<times> nat) option" where
  "fb_init magic info mem answers =
     (if magic = 0x2BADB002 \<and> info \<noteq> 0 then init_mb1 mem (unat info)
      else if magic = 0x36D76289 \<and> info \<noteq> 0 then init_mb2 mem (unat info)
      else probe_fallback answers)"

definition enable_vbe :: "u16 \<Rightarrow> u16 \<Rightarrow> u16 \<Rightarrow> u16 \<Rightarrow> (u16 \<times> u16) list" where
  "enable_vbe vbe_id xres yres bpp =
     (if vbe_id < 0xB0C0 \<or> vbe_id > 0xB0C5 then [(0x1CE, 0)]
      else [(0x1CE, 0), (0x1CE, 4), (0x1CF, 0), (0x1CE, 1), (0x1CF, xres), (0x1CE, 2), (0x1CF, yres),
            (0x1CE, 3), (0x1CF, bpp), (0x1CE, 4), (0x1CF, 0x41)])"

section \<open>Nothing outside the framebuffer is written\<close>

text \<open>A console whose rows are as long as its pixels need and whose text lines fit.\<close>

definition fb_ok :: "FbConsole \<Rightarrow> bool" where
  "fb_ok con \<longleftrightarrow> unat (fb_width con) * (unat (fb_bpp con) div 8) \<le> unat (fb_pitch con)
     \<and> unat (fb_rows con) * 16 \<le> unat (fb_height con)"

definition fb_size :: "FbConsole \<Rightarrow> nat" where
  "fb_size con = unat (fb_height con) * unat (fb_pitch con)"

definition agree_from :: "nat \<Rightarrow> fbmem \<Rightarrow> fbmem \<Rightarrow> bool" where
  "agree_from n m m' \<longleftrightarrow> (\<forall>a \<ge> n. m' a = m a)"

lemma agree_refl [simp]: "agree_from n m m"
  by (simp add: agree_from_def)

lemma agree_trans: "agree_from n m m' \<Longrightarrow> agree_from n m' m'' \<Longrightarrow> agree_from n m m''"
  by (simp add: agree_from_def)

lemma agree_fold: "\<forall>x \<in> set xs. \<forall>m. agree_from n m (f x m) \<Longrightarrow> agree_from n m (fold f xs m)"
proof (induction xs arbitrary: m)
  case (Cons x xs)
  then have "agree_from n m (f x m)" "agree_from n (f x m) (fold f xs (f x m))" by auto
  then show ?case by (auto intro: agree_trans)
qed simp

lemma agree_poke: "off + length bs \<le> n \<Longrightarrow> agree_from n m (poke off bs m)"
  by (simp add: agree_from_def poke_def)

lemma pixel_inside:
  assumes "fb_ok con" "x < fb_width con" "y < fb_height con"
  shows "pixel_offset con x y + unat (fb_bpp con) div 8 \<le> fb_size con"
proof -
  let ?b = "unat (fb_bpp con) div 8" and ?p = "unat (fb_pitch con)"
  have "unat x + 1 \<le> unat (fb_width con)" "unat y + 1 \<le> unat (fb_height con)"
    using assms(2,3) by (simp_all add: word_less_nat_alt)
  then have "(unat x + 1) * ?b \<le> unat (fb_width con) * ?b" "(unat y + 1) * ?p \<le> unat (fb_height con) * ?p"
    by (meson mult_le_mono1)+
  then show ?thesis
    using assms(1) unfolding fb_ok_def pixel_offset_def fb_size_def by (simp add: algebra_simps)
qed

lemma agree_put_color:
  assumes "off + unat bpp div 8 \<le> n"
  shows "agree_from n m (put_color bpp off c m)"
  using assms by (auto simp: put_color_def intro!: agree_poke)

lemma agree_draw_pixel: "fb_ok con \<Longrightarrow> agree_from (fb_size con) m (draw_pixel con x y c m)"
  unfolding draw_pixel_def by (auto intro!: agree_put_color pixel_inside simp: not_le)

lemma agree_draw_glyph: "fb_ok con \<Longrightarrow> agree_from (fb_size con) m (draw_glyph con gx gy g m)"
  unfolding draw_glyph_def glyph_row_def
  by (intro agree_fold ballI allI agree_put_color pixel_inside) (auto dest: set_takeWhileD)

lemma agree_blank_line: "fb_ok con \<Longrightarrow> agree_from (fb_size con) m (blank_line con y m)"
  unfolding blank_line_def by (intro agree_fold) (simp add: agree_draw_glyph)

lemma agree_copy_bytes: "dst + n \<le> k \<Longrightarrow> agree_from k m (copy_bytes src dst n m)"
  unfolding copy_bytes_def by (intro agree_fold) (simp add: agree_from_def)

lemma fb_scroll_inside:
  assumes "fb_ok con" "fb_scroll (con, m) = (con', m')"
  shows "fb_ok con' \<and> fb_size con' = fb_size con \<and> agree_from (fb_size con) m m'"
proof -
  let ?rb = "unat (fb_pitch con) * 16"
  let ?m = "fold (\<lambda>row. copy_bytes (row * ?rb) ((row - 1) * ?rb) ?rb) [1..<unat (fb_rows con)] m"
  have in_rows: "(row - 1) * ?rb + ?rb \<le> fb_size con" if "row \<in> set [1..<unat (fb_rows con)]" for row
  proof -
    have "0 < row" using that by simp
    then obtain k where "row = Suc k" using gr0_implies_Suc by blast
    then have "(row - 1) * ?rb + ?rb = row * 16 * unat (fb_pitch con)" by (simp add: algebra_simps)
    also have "\<dots> \<le> unat (fb_height con) * unat (fb_pitch con)"
      using that assms(1) by (intro mult_le_mono1) (auto simp: fb_ok_def)
    finally show ?thesis by (simp add: fb_size_def)
  qed
  have m: "agree_from (fb_size con) m ?m"
    using in_rows by (intro agree_fold) (auto intro!: agree_copy_bytes)
  have con': "con' = con\<lparr>cur_y := fb_rows con - 1, cur_x := 0\<rparr>" "m' = blank_line con' (cur_y con') ?m"
    using assms(2) by (auto simp: fb_scroll_def Let_def)
  have ok: "fb_ok con'" "fb_size con' = fb_size con" using assms(1) con'(1) by (simp_all add: fb_ok_def fb_size_def)
  show ?thesis using ok m agree_blank_line [OF ok(1), of ?m] con'(2) by (auto intro: agree_trans)
qed

lemma fb_newline_inside:
  assumes "fb_ok con" "fb_newline (con, m) = (con', m')"
  shows "fb_ok con' \<and> fb_size con' = fb_size con \<and> agree_from (fb_size con) m m'"
proof -
  let ?c = "con\<lparr>cur_x := 0, cur_y := cur_y con + 1\<rparr>"
  have "fb_ok ?c" "fb_size ?c = fb_size con" using assms(1) by (simp_all add: fb_ok_def fb_size_def)
  then show ?thesis
    using assms(2) fb_scroll_inside [of ?c m con' m'] by (auto simp: fb_newline_def Let_def split: if_splits)
qed

lemma fb_write_byte_inside:
  assumes "fb_ok con" "fb_write_byte b (con, m) = Some (con', m')"
  shows "fb_ok con' \<and> fb_size con' = fb_size con \<and> agree_from (fb_size con) m m'"
proof -
  have cur: "fb_ok (con\<lparr>cur_x := x\<rparr>) = fb_ok con" "fb_size (con\<lparr>cur_x := x\<rparr>) = fb_size con" for con x
    by (simp_all add: fb_ok_def fb_size_def)
  consider "b = 10" | "b = 13" | "b = 9" | "b \<noteq> 10 \<and> b \<noteq> 13 \<and> b \<noteq> 9" by blast
  then show ?thesis
  proof cases
    case 1
    then show ?thesis using assms fb_newline_inside [OF assms(1), of m con' m'] by (simp add: fb_write_byte_def)
  next
    case 2
    then show ?thesis using assms by (auto simp: fb_write_byte_def cur)
  next
    case 3
    let ?c = "con\<lparr>cur_x := (cur_x con + 8) AND NOT 7\<rparr>"
    show ?thesis
      using 3 assms fb_newline_inside [of ?c m con' m'] by (auto simp: fb_write_byte_def cur Let_def split: if_splits)
  next
    case 4
    obtain c1 m1 where w: "(if cur_x con \<ge> fb_cols con then fb_newline (con, m) else (con, m)) = (c1, m1)"
      by (rule prod.exhaust)
    have ok: "fb_ok c1" "fb_size c1 = fb_size con" "agree_from (fb_size con) m m1"
      using w assms(1) fb_newline_inside [OF assms(1), of m c1 m1] by (auto split: if_splits)
    obtain g where g: "glyph b = Some g" "con' = c1\<lparr>cur_x := cur_x c1 + 1\<rparr>"
        "m' = draw_glyph c1 (cur_x c1 * 8) (cur_y c1 * 16) g m1"
      using 4 assms(2) by (auto simp: fb_write_byte_def w split: option.splits)
    show ?thesis
      using ok g agree_draw_glyph [OF ok(1), of m1] by (auto simp: cur intro: agree_trans)
  qed
qed

lemma fb_write_byte_None: "fb_write_byte b f = None \<longleftrightarrow> b = 126"
proof (cases f)
  case (Pair con m)
  then show ?thesis
    using tilde_panics [of b]
    by (cases "b = 10 \<or> b = 13 \<or> b = 9") (auto simp: fb_write_byte_def Let_def split: prod.splits option.splits)
qed

text \<open>The consoles that \<open>setup_fb\<close> makes from what the boot loader reports are of this kind when the
  reported rows are long enough.\<close>

lemma setup_fb_ok:
  assumes "setup_fb addr pitch w h bpp = Some (con, zeroed)" "unat w * (unat bpp div 8) \<le> unat pitch"
  shows "fb_ok con" "zeroed \<le> fb_size con"
proof -
  have con: "con = \<lparr>fb_addr = addr, fb_width = w, fb_height = h, fb_pitch = pitch, fb_bpp = bpp,
      fb_cols = w div 8, fb_rows = h div 16, cur_x = 0, cur_y = 0, fb_fg = 0x00AAAAAA, fb_bg = 0\<rparr>"
    "zeroed = unat pitch * unat h div 8 * 8"
    using assms(1) by (auto simp: setup_fb_def split: if_splits)
  have "unat (h div 16) * 16 \<le> unat h" by (simp add: unat_div_distrib)
  then show "fb_ok con" using assms(2) by (simp add: con fb_ok_def)
  show "zeroed \<le> fb_size con" unfolding con fb_size_def by (simp add: mult.commute)
qed

text \<open>C40. Printing a text on a framebuffer whose rows hold its pixels: a text without a tilde is
  printed and no byte beyond the last row of the framebuffer is written, wherever the cursor is and
  however often the screen scrolls; a text with a tilde is a panic, because the font has one glyph
  too few.\<close>

theorem framebuffer_prints_inside:
  assumes "fb_ok con"
  shows "case fb_write_str bs (con, m) of
      None \<Rightarrow> 126 \<in> set bs
    | Some (con', m') \<Rightarrow> 126 \<notin> set bs \<and> fb_ok con' \<and> fb_size con' = fb_size con \<and> agree_from (fb_size con) m m'"
  using assms
proof (induction bs arbitrary: con m)
  case (Cons b bs)
  show ?case
  proof (cases "fb_write_byte b (con, m)")
    case None
    then show ?thesis using fb_write_byte_None [of b "(con, m)"] by simp
  next
    case (Some f)
    obtain c1 m1 where f: "f = (c1, m1)" by (rule prod.exhaust)
    note s = fb_write_byte_inside [OF Cons.prems, of b m c1 m1]
    have "b \<noteq> 126" using Some fb_write_byte_None [of b "(con, m)"] by simp
    with Some s Cons.IH [of c1 m1] show ?thesis by (auto simp: f split: option.splits intro: agree_trans)
  qed
qed simp

text \<open>The console of a 640 by 480 screen of 24-bit pixels, and two texts on it.\<close>

definition sample_console :: FbConsole where
  "sample_console = \<lparr>fb_addr = 0xFD000000, fb_width = 640, fb_height = 480, fb_pitch = 1920, fb_bpp = 24,
     fb_cols = 80, fb_rows = 30, cur_x = 79, cur_y = 29, fb_fg = 0x00AAAAAA, fb_bg = 0\<rparr>"

theorem framebuffer_prints_inside_witness:
  "(\<exists>con m. fb_write_str [104, 105, 10] (sample_console, \<lambda>_. 0) = Some (con, m) \<and> agree_from 921600 (\<lambda>_. 0) m)
   \<and> fb_write_str [126, 47] (sample_console, \<lambda>_. 0) = None"
proof -
  have ok: "fb_ok sample_console" "fb_size sample_console = 921600"
    by (simp_all add: fb_ok_def fb_size_def sample_console_def)
  show ?thesis
    using framebuffer_prints_inside [OF ok(1), of "[104, 105, 10]" "\<lambda>_. 0"]
      framebuffer_prints_inside [OF ok(1), of "[126, 47]" "\<lambda>_. 0"]
    by (auto simp: ok(2) simp del: fb_write_str.simps split: option.splits)
qed

end
