(* ===== verification/VgaSheet.thy ===== *)
theory VgaSheet
  imports Vga
begin

text \<open>
  What printing on the text console means: an endless sheet of rows that is only written at its
  end, of which the screen shows the last 24 rows. \<open>shows_sheet\<close> relates the console to the
  sheet; the scrollback ring gets one of the rows that left the screen in one call, the last one.
\<close>

section \<open>Rows of the video memory\<close>

abbreviation row_len :: nat where "row_len \<equiv> WIDTH * 2"

lemma row_len [simp]: "row_len = 160"
  by (simp add: WIDTH_def)

definition rows_ok :: "u8 list list \<Rightarrow> bool" where
  "rows_ok rs \<longleftrightarrow> list_all (\<lambda>r. length r = 160) rs"

lemma rows_ok_simps [simp]:
  "rows_ok []" "rows_ok (r # rs) \<longleftrightarrow> length r = 160 \<and> rows_ok rs"
  "rows_ok (rs @ ts) \<longleftrightarrow> rows_ok rs \<and> rows_ok ts"
  by (simp_all add: rows_ok_def)

lemma rows_ok_drop [simp]: "rows_ok rs \<Longrightarrow> rows_ok (drop n rs)"
  by (metis append_take_drop_id rows_ok_simps(3))

lemma rows_ok_nth: "rows_ok rs \<Longrightarrow> k < length rs \<Longrightarrow> length (rs ! k) = 160"
  by (simp add: rows_ok_def list_all_length)

lemma rows_ok_update [simp]: "rows_ok rs \<Longrightarrow> length r = 160 \<Longrightarrow> rows_ok (rs[k := r])"
  using set_update_subset_insert [of rs k r] by (auto simp: rows_ok_def list_all_iff)

lemma length_rows: "rows_ok rs \<Longrightarrow> length (concat rs) = 160 * length rs"
  by (induction rs) auto

lemma patch_rows:
  "rows_ok rs \<Longrightarrow> k < length rs \<Longrightarrow> a + length ys \<le> 160 \<Longrightarrow>
   patch (concat rs @ st) (k * 160 + a) ys = concat (rs[k := patch (rs ! k) a ys]) @ st"
proof (induction rs arbitrary: k)
  case (Cons r rs)
  show ?case
  proof (cases k)
    case 0
    then show ?thesis using Cons.prems by (simp add: patch_def)
  next
    case (Suc j)
    have "patch (concat rs @ st) (j * 160 + a) ys = concat (rs[j := patch (rs ! j) a ys]) @ st"
      using Cons.prems Suc by (intro Cons.IH) simp_all
    then show ?thesis
      using Cons.prems Suc by (simp add: patch_def add.assoc)
  qed
qed simp

text \<open>Filling the first \<open>n\<close> cells of a row.\<close>

definition cells :: "nat \<Rightarrow> u8 \<Rightarrow> u8 list" where
  "cells n c = concat (replicate n [0x20, c])"

lemma length_cells [simp]: "length (cells n c) = 2 * n"
  by (induction n) (simp_all add: cells_def)

lemma cells_Suc: "cells (Suc n) c = cells n c @ [0x20, c]"
  by (induction n) (simp_all add: cells_def)

lemma vram_write_at: "vram (write_at r c b col v) = patch (vram v) (r * 160 + 2 * c) [b, col]"
  by (simp add: write_at_def WIDTH_def algebra_simps)

lemma write_at_rest [simp]:
  "wr (write_at r c b col v) = wr v" "deferred (write_at r c b col v) = deferred v"
  "scrollback (write_at r c b col v) = scrollback v" "crtc (write_at r c b col v) = crtc v"
  by (simp_all add: write_at_def)

lemma cursor_rest [simp]:
  "wr (update_hardware_cursor r c v) = wr v" "deferred (update_hardware_cursor r c v) = deferred v"
  "scrollback (update_hardware_cursor r c v) = scrollback v" "vram (update_hardware_cursor r c v) = vram v"
  by (simp_all add: update_hardware_cursor_def write_crtc_def Let_def)

lemma fill_row:
  assumes "rows_ok rs" "k < length rs" "n \<le> 80" "vram v = concat rs @ st"
  shows "vram (fold (\<lambda>c. write_at k c 0x20 col) [0..<n] v)
      = concat (rs[k := cells n col @ drop (2 * n) (rs ! k)]) @ st
    \<and> wr (fold (\<lambda>c. write_at k c 0x20 col) [0..<n] v) = wr v
    \<and> deferred (fold (\<lambda>c. write_at k c 0x20 col) [0..<n] v) = deferred v
    \<and> scrollback (fold (\<lambda>c. write_at k c 0x20 col) [0..<n] v) = scrollback v"
  using assms(3)
proof (induction n)
  case 0
  then show ?case using assms by (simp add: cells_def)
next
  case (Suc n)
  let ?r = "cells n col @ drop (2 * n) (rs ! k)"
  have len: "length (rs ! k) = 160" using assms rows_ok_nth by blast
  have "patch ?r (2 * n) [0x20, col] = cells (Suc n) col @ drop (2 * Suc n) (rs ! k)"
    using Suc.prems len by (simp add: patch_def cells_Suc)
  moreover have "patch (concat (rs[k := ?r]) @ st) (k * 160 + 2 * n) [0x20, col]
      = concat (rs[k := ?r, k := patch (rs[k := ?r] ! k) (2 * n) [0x20, col]]) @ st"
    using assms Suc.prems len by (intro patch_rows) simp_all
  ultimately show ?case
    using Suc assms(2) by (simp add: vram_write_at)
qed

lemma blank_row:
  assumes "rows_ok rs" "k < length rs" "vram v = concat rs @ st"
  shows "vram (blank_cells k col v) = concat (rs[k := cells 80 col]) @ st"
    "wr (blank_cells k col v) = wr v" "deferred (blank_cells k col v) = deferred v"
    "scrollback (blank_cells k col v) = scrollback v"
  using fill_row [OF assms(1,2) _ assms(3), of 80 col] rows_ok_nth [OF assms(1,2)]
  by (simp_all add: blank_cells_def WIDTH_def)

lemma blank_cells_wr: "wr (blank_cells k col v) = wr v"
proof -
  have "wr (fold (\<lambda>c. write_at k c 0x20 col) cs v) = wr v" for cs
    by (induction cs arbitrary: v) simp_all
  then show ?thesis by (simp add: blank_cells_def)
qed

lemma clear_scrollback:
  "scrollback (fold (\<lambda>r v. blank_cells r (w_color (wr v)) v) rs v) = scrollback v"
proof -
  have "scrollback (fold (\<lambda>c. write_at k c 0x20 col) cs v) = scrollback v" for k col cs v
    by (induction cs arbitrary: v) simp_all
  then show ?thesis by (induction rs arbitrary: v) (simp_all add: blank_cells_def)
qed

section \<open>The sheet\<close>

record sheet =
  s_rows :: "u8 list list"
  s_row :: nat
  s_col :: nat

definition sheet_newline :: "sheet \<Rightarrow> sheet" where
  "sheet_newline T =
     \<lparr>s_rows = (if s_row T + 1 = length (s_rows T) then s_rows T @ [cells 80 (color_code LightGray Black)] else s_rows T),
      s_row = s_row T + 1, s_col = 0\<rparr>"

definition sheet_put :: "u8 \<Rightarrow> u8 \<Rightarrow> sheet \<Rightarrow> sheet" where
  "sheet_put color b T =
     T\<lparr>s_rows := (s_rows T)[s_row T := patch (s_rows T ! s_row T) (2 * s_col T) [b, color]],
       s_col := s_col T + 1\<rparr>"

definition sheet_byte :: "u8 \<Rightarrow> u8 \<Rightarrow> sheet \<Rightarrow> sheet" where
  "sheet_byte color b T =
     (if b = 10 then sheet_newline T
      else if b = 13 then T\<lparr>s_col := 0\<rparr>
      else if b = 9 then
        (if s_col T + 8 \<ge> 80 then sheet_newline T else T\<lparr>s_col := (s_col T + 8) div 8 * 8\<rparr>)
      else sheet_put color (printable b) (if s_col T \<ge> 80 then sheet_newline T else T))"

definition sheet_print :: "u8 \<Rightarrow> u8 list \<Rightarrow> sheet \<Rightarrow> sheet" where
  "sheet_print color = fold (sheet_byte color)"

text \<open>The screen shows the last 24 rows; the row below them is the status line.\<close>

definition first_shown :: "sheet \<Rightarrow> nat" where
  "first_shown T = length (s_rows T) - 24"

definition shows_sheet :: "vga \<Rightarrow> sheet \<Rightarrow> u8 list \<Rightarrow> bool" where
  "shows_sheet v T status \<longleftrightarrow>
     24 \<le> length (s_rows T) \<and> rows_ok (s_rows T)
     \<and> vram v = concat (drop (first_shown T) (s_rows T)) @ status \<and> length status = 160
     \<and> s_row T = first_shown T + w_row (wr v) \<and> w_row (wr v) < 24
     \<and> s_col T = w_col (wr v) \<and> w_col (wr v) \<le> 80"

lemma shows_sheetD:
  assumes "shows_sheet v T status"
  shows "24 \<le> length (s_rows T)" "rows_ok (s_rows T)"
    "vram v = concat (drop (first_shown T) (s_rows T)) @ status" "length status = 160"
    "s_row T = first_shown T + w_row (wr v)" "w_row (wr v) < 24" "s_col T = w_col (wr v)" "w_col (wr v) \<le> 80"
    "length (drop (first_shown T) (s_rows T)) = 24"
  using assms by (auto simp: shows_sheet_def first_shown_def)

text \<open>Besides the picture, one step of printing keeps the colour and the scrollback, and notes the
  row that leaves the screen, if one does.\<close>

definition prints :: "vga \<Rightarrow> sheet \<Rightarrow> vga \<Rightarrow> sheet \<Rightarrow> bool" where
  "prints v T v' T' \<longleftrightarrow>
     w_color (wr v') = w_color (wr v) \<and> scrollback v' = scrollback v
     \<and> length (s_rows T) \<le> length (s_rows T')
     \<and> take (first_shown T) (s_rows T') = take (first_shown T) (s_rows T)
     \<and> deferred v' = (if length (s_rows T') = length (s_rows T) then deferred v
                      else Some (s_rows T' ! (first_shown T' - 1)))"

lemma prints_refl: "prints v T v T"
  by (simp add: prints_def)

lemma prints_trans:
  assumes "prints v T v' T'" "prints v' T' v'' T''"
    and "24 \<le> length (s_rows T)"
  shows "prints v T v'' T''"
proof -
  note p = assms(1) [unfolded prints_def] and q = assms(2) [unfolded prints_def]
  have le: "first_shown T \<le> first_shown T'" using p by (simp add: first_shown_def diff_le_mono)
  have t: "take (first_shown T) (s_rows T'') = take (first_shown T) (s_rows T')"
    using q le by (metis take_take min.absorb1)
  have same: "s_rows T'' ! (first_shown T'' - 1) = s_rows T' ! (first_shown T' - 1)"
    if "length (s_rows T'') = length (s_rows T')" "length (s_rows T') \<noteq> length (s_rows T)"
  proof -
    have "length (s_rows T) < length (s_rows T')" using that(2) p by simp
    then have "first_shown T' - 1 < first_shown T'" using assms(3) unfolding first_shown_def by linarith
    moreover have "first_shown T'' = first_shown T'" using that by (simp add: first_shown_def)
    ultimately show ?thesis using q by (metis nth_take)
  qed
  have d: "deferred v'' = (if length (s_rows T'') = length (s_rows T) then deferred v
      else Some (s_rows T'' ! (first_shown T'' - 1)))"
  proof (cases "length (s_rows T'') = length (s_rows T')")
    case True
    then show ?thesis using p q same by simp
  next
    case False
    then show ?thesis using p q by simp
  qed
  show ?thesis unfolding prints_def using p q t d by simp
qed

section \<open>Each step of printing\<close>

lemma scroll_shows:
  assumes "shows_sheet v T status" "w_row (wr v) = 23"
  shows "\<exists>v'. scroll (v\<lparr>wr := (wr v)\<lparr>w_col := 0\<rparr>\<rparr>) = v' \<and> shows_sheet v' (sheet_newline T) status
    \<and> prints v T v' (sheet_newline T)"
proof -
  let ?T = "sheet_newline T" and ?b = "cells 80 (color_code LightGray Black)"
  let ?vis = "drop (first_shown T) (s_rows T)"
  note S = shows_sheetD [OF assms(1)]
  have last: "s_row T + 1 = length (s_rows T)" using S(1,5) assms(2) by (simp add: first_shown_def)
  have rows: "s_rows ?T = s_rows T @ [?b]" "s_row ?T = s_row T + 1" "s_col ?T = 0"
    using last by (simp_all add: sheet_newline_def)
  obtain top rest where vis: "?vis = top # rest" using S(9) by (cases ?vis) auto
  have ok: "rows_ok ?vis" using S(2) by simp
  have len: "length top = 160" "length rest = 23" "rows_ok rest" using ok vis S(9) by simp_all
  have crest: "length (concat rest) = 3680" using length_rows [OF len(3)] len(2) by simp
  obtain lst front where fr: "rest = front @ [lst]" using len(2) by (cases rest rule: rev_cases) auto
  have lst: "length lst = 160" "length (concat front) = 3520" "length front = 22" using len crest fr by simp_all
  let ?v = "v\<lparr>wr := (wr v)\<lparr>w_col := 0\<rparr>, vram := concat (rest @ [lst]) @ status, deferred := Some top\<rparr>"
  have line: "slc 0 row_len (vram v) = top" using S(3) vis len by (simp add: slc_def)
  have moved: "patch (vram v) 0 (slc row_len (row_len + (CONTENT_ROWS - 1) * WIDTH * 2) (vram v))
      = concat (rest @ [lst]) @ status"
  proof -
    have "slc row_len (row_len + (CONTENT_ROWS - 1) * WIDTH * 2) (vram v) = concat rest"
      using S(3) vis len crest by (simp add: slc_def vga_sizes)
    moreover have "drop 3680 (vram v) = lst @ status"
      using S(3) vis len fr lst by simp
    ultimately show ?thesis using crest by (simp add: patch_def)
  qed
  have sc: "scroll (v\<lparr>wr := (wr v)\<lparr>w_col := 0\<rparr>\<rparr>) = blank_cells 23 (color_code LightGray Black) ?v"
    using line moved by (simp add: scroll_def Let_def vga_sizes)
  have ok2: "rows_ok (rest @ [lst])" "23 < length (rest @ [lst])" using len lst by simp_all
  note B = blank_row [OF ok2, of ?v status "color_code LightGray Black", simplified]
  have upd: "(rest @ [lst])[23 := ?b] = rest @ [?b]" using len(2) by (simp add: list_update_append)
  have fs: "first_shown ?T = first_shown T + 1" using rows S(1) by (simp add: first_shown_def)
  have at: "first_shown T < length (s_rows T)" using S(1) by (simp add: first_shown_def)
  have drop1: "drop (first_shown ?T) (s_rows ?T) = rest @ [?b]"
  proof -
    have "drop (Suc (first_shown T)) (s_rows T) = rest" using vis by (metis drop_Suc list.sel(3) tl_drop)
    then show ?thesis using rows fs at by simp
  qed
  have top: "s_rows T ! first_shown T = top" using vis at by (metis hd_drop_conv_nth list.sel(1))
  have "shows_sheet (blank_cells 23 (color_code LightGray Black) ?v) ?T status"
    using B upd drop1 rows fs S assms(2) by (simp add: shows_sheet_def)
  moreover have "prints v T (blank_cells 23 (color_code LightGray Black) ?v) ?T"
    using B rows fs top at by (simp add: prints_def nth_append)
  ultimately show ?thesis using sc by blast
qed

lemma shows_cursor [simp]: "shows_sheet (update_hardware_cursor r c v) T status = shows_sheet v T status"
  by (simp add: shows_sheet_def)

lemma prints_cursor [simp]: "prints v T (update_hardware_cursor r c v') T' = prints v T v' T'"
  by (simp add: prints_def)

lemma newline_shows:
  assumes "shows_sheet v T status"
  shows "shows_sheet (newline v) (sheet_newline T) status \<and> prints v T (newline v) (sheet_newline T)"
proof (cases "w_row (wr v) = 23")
  case True
  obtain v' where "scroll (v\<lparr>wr := (wr v)\<lparr>w_col := 0\<rparr>\<rparr>) = v'" "shows_sheet v' (sheet_newline T) status"
    "prints v T v' (sheet_newline T)" using scroll_shows [OF assms True] by blast
  then show ?thesis using True by (simp add: newline_def Let_def vga_sizes)
next
  case False
  note S = shows_sheetD [OF assms]
  let ?v = "v\<lparr>wr := (wr v)\<lparr>w_col := 0, w_row := w_row (wr v) + 1\<rparr>\<rparr>"
  have "newline v = update_hardware_cursor (w_row (wr ?v)) 0 ?v"
    using False S(6) by (simp add: newline_def Let_def vga_sizes)
  moreover have "sheet_newline T = T\<lparr>s_row := s_row T + 1, s_col := 0\<rparr>"
    using False S(1,5,6) by (simp add: sheet_newline_def first_shown_def)
  moreover have "shows_sheet ?v (T\<lparr>s_row := s_row T + 1, s_col := 0\<rparr>) status"
    using S False by (simp add: shows_sheet_def first_shown_def)
  moreover have "prints v T ?v (T\<lparr>s_row := s_row T + 1, s_col := 0\<rparr>)" by (simp add: prints_def first_shown_def)
  ultimately show ?thesis by simp
qed

lemma put_shows:
  assumes "shows_sheet v T status" "w_col (wr v) < 80"
    and "v' = write_at (w_row (wr v)) (w_col (wr v)) b (w_color (wr v)) v"
  shows "shows_sheet (v'\<lparr>wr := (wr v')\<lparr>w_col := w_col (wr v') + 1\<rparr>\<rparr>) (sheet_put (w_color (wr v)) b T) status
    \<and> prints v T (v'\<lparr>wr := (wr v')\<lparr>w_col := w_col (wr v') + 1\<rparr>\<rparr>) (sheet_put (w_color (wr v)) b T)"
proof -
  note S = shows_sheetD [OF assms(1)]
  let ?k = "first_shown T" and ?r = "w_row (wr v)" and ?c = "w_col (wr v)"
  let ?p = "patch (s_rows T ! s_row T) (2 * ?c) [b, w_color (wr v)]"
  have at: "?r < length (drop ?k (s_rows T))" using S(6,9) by simp
  have row: "drop ?k (s_rows T) ! ?r = s_rows T ! s_row T" using S(1,5) at by (simp add: first_shown_def)
  have len: "length ?p = 160"
    using rows_ok_nth [OF S(2), of "s_row T"] S(1,5,6) assms(2) by (simp add: first_shown_def)
  have "vram v' = concat ((drop ?k (s_rows T))[?r := patch (drop ?k (s_rows T) ! ?r) (2 * ?c) [b, w_color (wr v)]]) @ status"
    unfolding assms(3) vram_write_at S(3) using S(2) at assms(2) by (intro patch_rows) simp_all
  also have "(drop ?k (s_rows T))[?r := patch (drop ?k (s_rows T) ! ?r) (2 * ?c) [b, w_color (wr v)]]
      = drop ?k ((s_rows T)[s_row T := ?p])"
    using S(5) row by (simp add: drop_update_swap)
  finally have m: "vram v' = concat (drop ?k ((s_rows T)[s_row T := ?p])) @ status" .
  have sheet: "s_rows (sheet_put (w_color (wr v)) b T) = (s_rows T)[s_row T := ?p]"
    "s_row (sheet_put (w_color (wr v)) b T) = s_row T" "s_col (sheet_put (w_color (wr v)) b T) = ?c + 1"
    "first_shown (sheet_put (w_color (wr v)) b T) = ?k"
    using S(7) by (simp_all add: sheet_put_def first_shown_def)
  show ?thesis
    unfolding shows_sheet_def prints_def sheet
    using S m len assms(2) by (simp add: assms(3))
qed

lemma write_byte_shows:
  assumes "shows_sheet v T status"
  shows "shows_sheet (write_byte b v) (sheet_byte (w_color (wr v)) b T) status
    \<and> prints v T (write_byte b v) (sheet_byte (w_color (wr v)) b T)"
proof -
  note S = shows_sheetD [OF assms]
  have col: "shows_sheet (v\<lparr>wr := (wr v)\<lparr>w_col := c\<rparr>\<rparr>) (T\<lparr>s_col := c\<rparr>) status
      \<and> prints v T (v\<lparr>wr := (wr v)\<lparr>w_col := c\<rparr>\<rparr>) (T\<lparr>s_col := c\<rparr>)" if "c \<le> 80" for c
    using S that by (simp add: shows_sheet_def prints_def first_shown_def)
  consider "b = 10" | "b = 13" | "b = 9" | "b \<noteq> 10 \<and> b \<noteq> 13 \<and> b \<noteq> 9" by blast
  then show ?thesis
  proof cases
    case 1
    then show ?thesis using newline_shows [OF assms] by (simp add: write_byte_def sheet_byte_def)
  next
    case 2
    then show ?thesis using col [of 0] by (simp add: write_byte_def sheet_byte_def)
  next
    case 3
    let ?c = "(w_col (wr v) + 8) div 8 * 8"
    have full: "(?c \<ge> 80) = (w_col (wr v) + 8 \<ge> 80)" by auto
    show ?thesis
    proof (cases "?c \<ge> 80")
      case True
      then have "?c = 80 \<or> ?c = 88" using S(8) by auto
      then have "newline (v\<lparr>wr := (wr v)\<lparr>w_col := ?c\<rparr>\<rparr>) = newline v" by (simp add: newline_def Let_def)
      then show ?thesis using 3 True full S(7) newline_shows [OF assms]
        by (simp add: write_byte_def sheet_byte_def Let_def WIDTH_def)
    next
      case False
      then show ?thesis using 3 full S(7) col [of ?c] by (simp add: write_byte_def sheet_byte_def Let_def WIDTH_def)
    qed
  next
    case 4
    define w where "w = (if w_col (wr v) \<ge> 80 then newline v else v)"
    define U where "U = (if s_col T \<ge> 80 then sheet_newline T else T)"
    have w: "shows_sheet w U status" "prints v T w U"
      using newline_shows [OF assms] assms S(7) by (auto simp: w_def U_def prints_refl)
    have "w_col (wr (newline v)) = 0"
      by (simp add: newline_def Let_def scroll_def blank_cells_wr)
    then have lt: "w_col (wr w) < 80" by (simp add: w_def)
    have same: "w_color (wr w) = w_color (wr v)" using w(2) by (simp add: prints_def)
    note P = put_shows [OF w(1) lt refl, of "printable b"]
    let ?x = "write_at (w_row (wr w)) (w_col (wr w)) (printable b) (w_color (wr w)) w"
    have "write_byte b v = ?x\<lparr>wr := (wr ?x)\<lparr>w_col := w_col (wr ?x) + 1\<rparr>\<rparr>"
      using 4 by (simp add: write_byte_def Let_def w_def WIDTH_def)
    moreover have "sheet_byte (w_color (wr v)) b T = sheet_put (w_color (wr w)) (printable b) U"
      using 4 by (simp add: sheet_byte_def U_def same)
    ultimately show ?thesis
      using P w(2) prints_trans [OF w(2) _ S(1)] by metis
  qed
qed

section \<open>Printing\<close>

lemma write_bytes_shows:
  "shows_sheet v T status \<Longrightarrow>
   shows_sheet (fold write_byte s v) (sheet_print (w_color (wr v)) s T) status
   \<and> prints v T (fold write_byte s v) (sheet_print (w_color (wr v)) s T)"
proof (induction s arbitrary: v T)
  case Nil
  then show ?case by (simp add: sheet_print_def prints_refl)
next
  case (Cons b s)
  note B = write_byte_shows [OF Cons.prems, of b]
  have c: "w_color (wr (write_byte b v)) = w_color (wr v)" using B by (simp add: prints_def)
  from Cons.IH [of "write_byte b v"] B c show ?case
    using prints_trans [OF _ _ shows_sheetD(1) [OF Cons.prems]] by (simp add: sheet_print_def) blast
qed

lemma write_strs_shows:
  "shows_sheet v T status \<Longrightarrow>
   shows_sheet (fold write_str ps v) (sheet_print (w_color (wr v)) (concat ps) T) status
   \<and> prints v T (fold write_str ps v) (sheet_print (w_color (wr v)) (concat ps) T)"
proof (induction ps arbitrary: v T)
  case Nil
  then show ?case by (simp add: sheet_print_def prints_refl)
next
  case (Cons s ps)
  let ?T = "sheet_print (w_color (wr v)) s T"
  have S: "shows_sheet (write_str s v) ?T status" "prints v T (write_str s v) ?T"
    using write_bytes_shows [OF Cons.prems, of s] by (simp_all add: write_str_def Let_def)
  have c: "w_color (wr (write_str s v)) = w_color (wr v)" using S(2) by (simp add: prints_def)
  have split: "sheet_print (w_color (wr v)) (concat (s # ps)) T = sheet_print (w_color (wr v)) (concat ps) ?T"
    by (simp add: sheet_print_def)
  show ?case
    using Cons.IH [OF S(1)] prints_trans [OF S(2) _ shows_sheetD(1) [OF Cons.prems]]
    unfolding c split by simp
qed

text \<open>C38. Printing is appending to the sheet. When the screen shows the last 24 rows of a sheet,
  printing any text leaves it showing the last 24 rows of the sheet with the text put behind the
  cursor (line feeds, returns, tabs, wrapping at column 80, unprintable bytes as question marks),
  the rows above the screen are not touched, nor is the status line; and of the rows that left
  the screen in the call, exactly one reaches the scrollback ring: the last.\<close>

theorem printing_appends_to_sheet:
  assumes "shows_sheet v T status" "deferred v = None"
  shows "let v' = vga_write_fmt ps v; T' = sheet_print (w_color (wr v)) (concat ps) T in
    shows_sheet v' T' status \<and> deferred v' = None \<and> w_color (wr v') = w_color (wr v)
    \<and> take (first_shown T) (s_rows T') = take (first_shown T) (s_rows T)
    \<and> scrollback v' = (if length (s_rows T') = length (s_rows T) then scrollback v
                       else add_line (s_rows T' ! (first_shown T' - 1)) (scrollback v))"
proof -
  have "shows_sheet (commit_scrollback w) U status = shows_sheet w U status" for w U
    by (simp add: commit_scrollback_def shows_sheet_def split: option.split)
  then show ?thesis
    using write_strs_shows [OF assms(1), of ps] assms(2)
    by (simp add: vga_write_fmt_def Let_def prints_def) (simp add: commit_scrollback_def)
qed

text \<open>A cleared screen shows an empty sheet.\<close>

definition empty_sheet :: "u8 \<Rightarrow> sheet" where
  "empty_sheet color = \<lparr>s_rows = replicate 24 (cells 80 color), s_row = 0, s_col = 0\<rparr>"

lemma clear_rows:
  assumes "rows_ok rs" "n \<le> length rs" "vram v = concat rs @ st"
  shows "vram (fold (\<lambda>r v. blank_cells r (w_color (wr v)) v) [0..<n] v)
      = concat (replicate n (cells 80 (w_color (wr v))) @ drop n rs) @ st
    \<and> wr (fold (\<lambda>r v. blank_cells r (w_color (wr v)) v) [0..<n] v) = wr v
    \<and> deferred (fold (\<lambda>r v. blank_cells r (w_color (wr v)) v) [0..<n] v) = deferred v"
  using assms(2)
proof (induction n)
  case 0
  then show ?case using assms(3) by simp
next
  case (Suc n)
  let ?c = "cells 80 (w_color (wr v))"
  let ?rs = "replicate n ?c @ drop n rs"
  have "rows_ok (replicate n ?c)" by (induct n) simp_all
  then have ok: "rows_ok ?rs" using assms(1) by simp
  have at: "n < length ?rs" using Suc.prems by simp
  have "(replicate n ?c @ drop n rs)[n := ?c] = replicate (Suc n) ?c @ drop (Suc n) rs"
    using Suc.prems by (simp add: list_update_append Cons_nth_drop_Suc [symmetric] replicate_append_same)
  then show ?case
    using Suc blank_row [OF ok at, of _ st "w_color (wr v)"] by simp
qed

lemma cleared_screen_shows:
  assumes "vram v = concat rs @ st" "rows_ok rs" "length rs = 24" "length st = 160"
  shows "shows_sheet (writer_clear v) (empty_sheet (w_color (wr v))) st"
    "deferred (writer_clear v) = deferred v" "w_color (wr (writer_clear v)) = w_color (wr v)"
  using clear_rows [OF assms(2) _ assms(1), of 24] assms(3,4)
  by (simp_all add: writer_clear_def Let_def vga_sizes shows_sheet_def empty_sheet_def first_shown_def rows_ok_def list_all_iff)

text \<open>Two rows leave the screen in one call, and only the second is kept.\<close>

lemma sheet_newlines:
  "s_row T < length (s_rows T) \<Longrightarrow>
   s_row (sheet_print c (replicate n 10) T) = s_row T + n
   \<and> length (s_rows (sheet_print c (replicate n 10) T)) = max (length (s_rows T)) (s_row T + n + 1)"
proof (induction n arbitrary: T)
  case (Suc n)
  have "s_row (sheet_newline T) < length (s_rows (sheet_newline T))"
    using Suc.prems by (simp add: sheet_newline_def)
  from Suc.IH [OF this] Suc.prems show ?case
    by (auto simp: sheet_print_def sheet_byte_def sheet_newline_def)
qed (simp add: sheet_print_def)

definition sample_vga :: vga where
  "sample_vga = writer_clear \<lparr>vram = replicate 4000 0, wr = writer_new, deferred = None,
     scrollback = scrollback_new, crtc = (\<lambda>_. 0)\<rparr>"

theorem printing_appends_to_sheet_witness:
  "\<exists>T'. length (s_rows T') = 26
    \<and> shows_sheet (vga_write_fmt [replicate 25 10] sample_vga) T' (replicate 160 0)
    \<and> scrollback (vga_write_fmt [replicate 25 10] sample_vga) = add_line (s_rows T' ! 1) scrollback_new"
proof -
  let ?T = "empty_sheet (w_color writer_new)" and ?z = "replicate 160 (0 :: u8)"
  let ?v = "\<lparr>vram = replicate 4000 0, wr = writer_new, deferred = None,
     scrollback = scrollback_new, crtc = (\<lambda>_. 0 :: u8)\<rparr>"
  have "concat (replicate n ?z) = replicate (160 * n) 0" for n
    by (induction n) (simp_all add: replicate_add [symmetric])
  from this [of 24] have z: "vram ?v = concat (replicate 24 ?z) @ ?z"
    by (simp add: replicate_add [symmetric])
  have "rows_ok (replicate 24 ?z)" by (simp add: rows_ok_def list_all_iff)
  note C = cleared_screen_shows [OF z this, simplified]
  have sc: "scrollback sample_vga = scrollback_new"
    by (simp add: sample_vga_def writer_clear_def Let_def clear_scrollback)
  have S: "shows_sheet sample_vga ?T ?z" "deferred sample_vga = None" "w_color (wr sample_vga) = w_color writer_new"
    using C by (simp_all add: sample_vga_def)
  let ?T' = "sheet_print (w_color writer_new) (replicate 25 10) ?T"
  have "length (s_rows ?T') = 26" using sheet_newlines [of ?T "w_color writer_new" 25] by (simp add: empty_sheet_def)
  then show ?thesis
    using printing_appends_to_sheet [OF S(1,2), of "[replicate 25 10]"] S(3) sc
    by (intro exI [of _ ?T']) (simp add: Let_def first_shown_def empty_sheet_def)
qed

end
