(* ===== verification/Clock.thy ===== *)
theory Clock
  imports Format
begin

text \<open>
  The real-time clock of \<^verbatim>\<open>src/rtc.rs\<close> and the log lines of \<^verbatim>\<open>src/log.rs\<close>
  and \<open>uptime\<close> that are made from it and from the tick counter. The values that the clock chip
  answers, one per register read, are the argument of \<open>rtc_read\<close>.
\<close>

section \<open>The clock\<close>

record RtcTime =
  hours :: u8
  minutes :: u8
  seconds :: u8

definition bcd_to_bin :: "u8 \<Rightarrow> u8" where
  "bcd_to_bin bcd = (bcd div 16) * 10 + bcd mod 16"

text \<open>A program that reads registers: it asks for one and goes on with the answer.\<close>

datatype 'a reads = Return 'a | Read_reg u8 "u8 \<Rightarrow> 'a reads"

primrec then_read :: "'a reads \<Rightarrow> ('a \<Rightarrow> 'b reads) \<Rightarrow> 'b reads" where
  "then_read (Return x) f = f x"
| "then_read (Read_reg r k) f = Read_reg r (\<lambda>x. then_read (k x) f)"

definition read_reg :: "u8 \<Rightarrow> u8 reads" where
  "read_reg r = Read_reg r Return"

text \<open>The wait for the end of an update, at most \<open>n\<close> polls.\<close>

primrec wait_update :: "nat \<Rightarrow> unit reads" where
  "wait_update 0 = Return ()"
| "wait_update (Suc n) =
     then_read (read_reg 0x0A) (\<lambda>a. if a AND 0x80 = 0 then Return () else wait_update n)"

definition POLLS :: nat where "POLLS = 100000"

definition to_24h :: "u8 \<Rightarrow> u8" where
  "to_24h hour =
     (let pm = (hour AND 0x80 \<noteq> 0); h = hour AND 0x7F in
      if pm then (if h + 12 = 24 then 12 else h + 12)
      else if h = 12 then 0 else h)"

definition decode_time :: "bool \<Rightarrow> bool \<Rightarrow> u8 \<Rightarrow> u8 \<Rightarrow> u8 \<Rightarrow> RtcTime" where
  "decode_time is_binary is_24h hour minute sec =
     (let conv = (if is_binary then id else bcd_to_bin);
          hour = conv hour;
          hour = (if is_24h then hour else to_24h hour)
      in \<lparr>hours = hour, minutes = conv minute, seconds = conv sec\<rparr>)"

definition rtc_read :: "RtcTime reads" where
  "rtc_read =
     then_read (read_reg 0x0B) (\<lambda>reg_b.
     let is_binary = (reg_b AND 0x04 \<noteq> 0); is_24h = (reg_b AND 0x02 \<noteq> 0) in
     then_read (wait_update POLLS) (\<lambda>_.
     then_read (read_reg 0x00) (\<lambda>sec1.
     then_read (read_reg 0x02) (\<lambda>minute.
     then_read (read_reg 0x04) (\<lambda>hour.
     then_read (read_reg 0x00) (\<lambda>sec2.
       if sec2 \<noteq> sec1 then
         then_read (wait_update POLLS) (\<lambda>_.
         then_read (read_reg 0x00) (\<lambda>sec.
         then_read (read_reg 0x02) (\<lambda>minute.
         then_read (read_reg 0x04) (\<lambda>hour.
           Return (decode_time is_binary is_24h hour minute sec)))))
       else Return (decode_time is_binary is_24h hour minute sec1)))))))"

text \<open>Running it against a chip: a state that answers a read and moves on.\<close>

primrec run_reads :: "('s \<Rightarrow> u8 \<Rightarrow> u8 \<times> 's) \<Rightarrow> 'a reads \<Rightarrow> 's \<Rightarrow> 'a \<times> 's" where
  "run_reads chip (Return x) s = (x, s)"
| "run_reads chip (Read_reg r k) s = (case chip s r of (x, s') \<Rightarrow> run_reads chip (k x) s')"

section \<open>Log lines\<close>

datatype LogLevel = Info | Warn | Error | Debug

fun level_prefix :: "LogLevel \<Rightarrow> string" where
  "level_prefix Info = ''I''"
| "level_prefix Warn = ''W''"
| "level_prefix Error = ''E''"
| "level_prefix Debug = ''D''"

text \<open>What \<open>log\<close> sends to the screen and to the serial line.\<close>

definition log_vga :: "LogLevel \<Rightarrow> string \<Rightarrow> string" where
  "log_vga level args = ''['' @ level_prefix level @ ''] '' @ args @ [CHR 0x0A]"

definition log_serial :: "RtcTime \<Rightarrow> nat \<times> nat \<Rightarrow> LogLevel \<Rightarrow> string \<Rightarrow> string" where
  "log_serial t up level args =
     ''['' @ zeros 2 (decimal (unat (hours t))) @ '':'' @ zeros 2 (decimal (unat (minutes t))) @ '':''
       @ zeros 2 (decimal (unat (seconds t))) @ ''] ['' @ decimal (fst up) @ ''.'' @ zeros 3 (decimal (snd up))
       @ ''] ['' @ level_prefix level @ ''] '' @ args @ [CHR 0x0A]"

definition uptime_text :: "nat \<times> nat \<Rightarrow> string" where
  "uptime_text up =
     (let h = fst up div 3600; m = (fst up mod 3600) div 60; s = fst up mod 60 in
      ''uptime: '' @ zeros 2 (decimal h) @ '':'' @ zeros 2 (decimal m) @ '':'' @ zeros 2 (decimal s)
        @ ''.'' @ zeros 3 (decimal (snd up)))"

section \<open>Reading the time\<close>

lemma run_then: "run_reads chip (then_read m f) s = (case run_reads chip m s of (x, s') \<Rightarrow> run_reads chip (f x) s')"
  by (induction m arbitrary: s) (simp_all split: prod.split)

lemma run_read_reg [simp]: "run_reads chip (read_reg r) s = chip s r"
  by (simp add: read_reg_def split: prod.split)

text \<open>A chip whose registers stand still while it is read answers what they hold.\<close>

definition still :: "(u8 \<Rightarrow> u8) \<Rightarrow> u8 \<Rightarrow> u8 \<times> (u8 \<Rightarrow> u8)" where
  "still regs r = (regs r, regs)"

lemma wait_still: "run_reads still (wait_update n) regs = ((), regs)"
  by (induction n) (simp_all add: run_then still_def)

lemma rtc_read_still:
  "run_reads still rtc_read regs =
   (decode_time (regs 0x0B AND 0x04 \<noteq> 0) (regs 0x0B AND 0x02 \<noteq> 0) (regs 0x04) (regs 0x02) (regs 0x00), regs)"
  by (simp add: rtc_read_def run_then wait_still Let_def) (simp add: still_def)

text \<open>The time of day as such a chip holds it, in each of its four formats.\<close>

definition bcd :: "nat \<Rightarrow> u8" where
  "bcd n = of_nat (n div 10 * 16 + n mod 10)"

definition held :: "bool \<Rightarrow> bool \<Rightarrow> nat \<Rightarrow> u8" where
  "held is_binary is_24h h =
     (let enc = (if is_binary then of_nat else bcd) in
      if is_24h then enc h
      else enc (if h mod 12 = 0 then 12 else h mod 12) OR (if h \<ge> 12 then 0x80 else 0))"

lemma hours_24: "list_all (\<lambda>h. decode_time b True (held b True h) 0 0 = \<lparr>hours = of_nat h, minutes = 0, seconds = 0\<rparr>) [0..<24]"
  by (cases b) (simp_all add: upt_rec decode_time_def held_def bcd_def bcd_to_bin_def)

lemma hours_12_binary: "list_all (\<lambda>h. decode_time True False (held True False h) 0 0 = \<lparr>hours = of_nat h, minutes = 0, seconds = 0\<rparr>) [0..<24]"
  by (simp add: upt_rec decode_time_def held_def to_24h_def)

text \<open>In the 12-hour format with BCD digits the flag for the afternoon is lost in the conversion,
  which runs first: every afternoon hour is reported as eighty plus the hour on the dial.\<close>

lemma hours_12_bcd:
  "list_all (\<lambda>h. decode_time False False (held False False h) 0 0
    = \<lparr>hours = (if h < 12 then of_nat h else 80 + of_nat (if h = 12 then 12 else h - 12)), minutes = 0, seconds = 0\<rparr>) [0..<24]"
  by (simp add: upt_rec decode_time_def held_def to_24h_def bcd_def bcd_to_bin_def)

definition held_min :: "bool \<Rightarrow> nat \<Rightarrow> u8" where
  "held_min is_binary n = (if is_binary then of_nat n else bcd n)"

lemma bcd_to_bin_bcd: "n < 100 \<Longrightarrow> bcd_to_bin (bcd n) = of_nat n"
proof -
  assume n: "n < 100"
  have t: "n div 10 < 10" "n mod 10 < 10" using n by auto
  have u: "unat (bcd n) = n div 10 * 16 + n mod 10"
  proof -
    have "n div 10 * 16 + n mod 10 < 256" using t by linarith
    then show ?thesis by (simp only: bcd_def unsigned_of_nat) (simp add: take_bit_nat_eq_self)
  qed
  have "unat (bcd n div 16) = n div 10" "unat (bcd n mod 16) = n mod 10"
    using t by (simp_all add: unat_div_distrib unat_mod_distrib u)
  then have "unat (bcd_to_bin (bcd n)) = n div 10 * 10 + n mod 10"
    using t by (simp add: bcd_to_bin_def unat_word_ariths)
  then have "unat (bcd_to_bin (bcd n)) = n" by simp
  then have "unat (bcd_to_bin (bcd n)) = unat (of_nat n :: u8)"
    using n by (simp add: unsigned_of_nat take_bit_nat_eq_self)
  then show ?thesis by (rule unsigned_word_eqI [where ?'a = nat])
qed

lemma decode_hours:
  assumes "h < 24"
  shows "hours (decode_time b t (held b t h) x y) =
    (if \<not> b \<and> \<not> t \<and> 12 \<le> h then 80 + of_nat (if h = 12 then 12 else h - 12) else of_nat h)"
proof -
  have any: "hours (decode_time b t z x y) = hours (decode_time b t z 0 0)" for z
    by (simp add: decode_time_def Let_def)
  show ?thesis
    using assms hours_24 [of b] hours_12_binary hours_12_bcd
    unfolding any [of "held b t h"] by (cases b; cases t) (auto simp: list_all_iff)
qed



end
