(* ===== verification/NetCommands.thy ===== *)
theory NetCommands
  imports Shell NetDispatch Dhcp Clock Ext3
begin

text \<open>
  The shell commands of \<^verbatim>\<open>src/shell/mod.rs\<close> that use the network, the disk and the
  memory: what they send, what they wait for, what they do to the TCP table or the mounted file
  system, and the lines they print. A command that waits gets the turns of its loop: the clock,
  the packet \<open>poll_rx\<close> gave, the clock when it is read again, and the key that was pressed. Text is
  its UTF-8 bytes, one \<open>char\<close> each.
\<close>

section \<open>Printing addresses\<close>

definition dec8 :: "u8 \<Rightarrow> string" where "dec8 b = decimal (unat b)"

definition hex_u8 :: "u8 \<Rightarrow> string" where "hex_u8 b = zeros 2 (hexadecimal (unat b))"

fun joined :: "string \<Rightarrow> string list \<Rightarrow> string" where
  "joined sep [] = []"
| "joined sep [s] = s"
| "joined sep (s # ss) = s @ sep @ joined sep ss"

definition ip_text :: "u8 list \<Rightarrow> string" where "ip_text ip = joined ''.'' (map dec8 ip)"

definition mac_text :: "u8 list \<Rightarrow> string" where "mac_text mac = joined '':'' (map hex_u8 mac)"

definition text_of :: "u8 list \<Rightarrow> string" where "text_of b = map (\<lambda>x. char_of (unat x)) b"

definition parse_ipv4 :: "string \<Rightarrow> u8 list option" where
  "parse_ipv4 s = map_option (map of_nat) (parse_ip s)"

fun nic_debug :: "NicKind \<Rightarrow> string" where
  "nic_debug NicNone = ''None''"
| "nic_debug E1000 = ''E1000''"
| "nic_debug Rtl8139 = ''Rtl8139''"

section \<open>Waiting\<close>

record turn =
  t_now :: u64
  t_rx :: "u8 list option"
  t_then :: u64
  t_key :: "KeyEvent option"

datatype 'a waited = Got 'a | Timed_out | Aborted | Not_yet

fun wait_for :: "u64 \<Rightarrow> (turn \<Rightarrow> u8 list \<Rightarrow> 'a option) \<Rightarrow> (KeyEvent \<Rightarrow> bool) \<Rightarrow> turn list \<Rightarrow> 'a waited" where
  "wait_for deadline f stop [] = Not_yet"
| "wait_for deadline f stop (t # ts) =
     (if \<not> t_now t < deadline then Timed_out
      else (case Option.bind (t_rx t) (f t) of
              Some x \<Rightarrow> Got x
            | None \<Rightarrow>
                (case t_key t of
                   Some k \<Rightarrow> if stop k then Aborted else wait_for deadline f stop ts
                 | None \<Rightarrow> wait_for deadline f stop ts)))"

text \<open>What the outside does in one wait: whether the NIC took the frame, the clock from which the
  deadline counts, and the turns.\<close>

record wait_net =
  w_sent :: bool
  w_from :: u64
  w_turns :: "turn list"

section \<open>Address resolution\<close>

definition arp_frame :: "u8 list \<Rightarrow> u8 list \<Rightarrow> u8 list \<Rightarrow> nat \<Rightarrow> u8 list option" where
  "arp_frame our_mac our_ip dst_ip room =
     (case arp_build_request our_mac our_ip dst_ip (replicate 28 0) of
        None \<Rightarrow> None
      | Some (arp_len, arp_buf) \<Rightarrow>
          (case eth_build (replicate 6 0xFF) our_mac 0x0806 (take arp_len arp_buf) (replicate room 0) of
             None \<Rightarrow> None
           | Some (eth_len, eth_buf) \<Rightarrow> Some (take eth_len eth_buf)))"

definition arp_in_packet :: "u8 list \<Rightarrow> ArpPacket option" where
  "arp_in_packet pkt =
     (case eth_parse pkt of None \<Rightarrow> None | Some eth \<Rightarrow>
        if ethertype eth = 0x0806 then arp_parse (eth_payload eth) else None)"

definition arp_answer :: "u8 list \<Rightarrow> u8 list \<Rightarrow> u8 list option" where
  "arp_answer dst_ip pkt =
     (case arp_in_packet pkt of None \<Rightarrow> None | Some a \<Rightarrow>
        if arp_opcode a = 2 \<and> sender_ip a = dst_ip then Some (sender_mac a) else None)"

text \<open>No key ends this wait; when it times out an address is made up.\<close>

definition resolve_mac ::
    "u8 list \<Rightarrow> NetConfig \<Rightarrow> u8 list \<Rightarrow> wait_net \<Rightarrow> u8 list outcome \<times> u8 list list" where
  "resolve_mac dst_ip cfg our_mac w =
     (if dst_ip = [10, 0, 2, 2] then (Answer [0x52, 0x55, 0x0A, 0x00, 0x02, 0x02], [])
      else
        (case arp_frame our_mac (cfg_ip cfg) dst_ip 42 of
           None \<Rightarrow> (Failure, [])
         | Some frame \<Rightarrow>
             if \<not> w_sent w then (Failure, [frame])
             else
               (case wait_for (w_from w + 2000) (\<lambda>_. arp_answer dst_ip) (\<lambda>_. False) (w_turns w) of
                  Got mac \<Rightarrow> (Answer mac, [frame])
                | Timed_out \<Rightarrow> (Answer [0x52, 0x55, 0x0A, dst_ip ! 0, dst_ip ! 1, dst_ip ! 2], [frame])
                | Aborted \<Rightarrow> (Failure, [frame])
                | Not_yet \<Rightarrow> (Waiting, [frame]))))"

definition cmd_arpwhois :: "NetStatus \<Rightarrow> NetConfig option \<Rightarrow> wait_net \<Rightarrow> string list \<times> u8 list list" where
  "cmd_arpwhois st cfg w =
     (if nic_kind st = NicNone then ([''No NIC available''], [])
      else
        let our_mac = nic_mac st;
            our_ip = (case cfg of Some c \<Rightarrow> cfg_ip c | None \<Rightarrow> [10, 0, 2, 15]);
            dst_ip = (case cfg of Some c \<Rightarrow> cfg_gateway c | None \<Rightarrow> [10, 0, 2, 2]) in
        (case arp_frame our_mac our_ip dst_ip (14 + 28 + 4) of
           None \<Rightarrow> ([''panic''], [])
         | Some frame \<Rightarrow>
             let said = ''Sending ARP who-has '' @ ip_text dst_ip @ '' ...'' in
             if \<not> w_sent w then ([said, ''TX failed''], [frame])
             else
               let answer = (\<lambda>t pkt. case arp_in_packet pkt of None \<Rightarrow> None | Some a \<Rightarrow>
                     if arp_opcode a = 2 \<and> sender_ip a = dst_ip \<and> target_ip a = our_ip then Some a else None);
                   result = (case wait_for (w_from w + 10000) answer (\<lambda>k. k = Ctrl 99 \<or> k = Ctrl 67) (w_turns w) of
                     Got a \<Rightarrow> [''Reply from '' @ ip_text (sender_ip a) @ '' is '' @ mac_text (sender_mac a)]
                   | Timed_out \<Rightarrow> [''No ARP reply (NIC: '' @ nic_debug (nic_kind st) @ '', MAC: '' @ mac_text our_mac @ '')'']
                   | Aborted \<Rightarrow> [''Aborted by user'']
                   | Not_yet \<Rightarrow> [])
               in ([said, ''TX OK''] @ result, [frame])))"

section \<open>ping\<close>

definition icmp_echo :: "u8 list" where
  "icmp_echo =
     (let msg = [8, 0, 0, 0, 0, 1, 0, 1] @ text_bytes ''RustKernel''
      in patch msg 2 (be16 (NOT (ucast (ck_fold (ck_sum msg 0))))))"

definition ping_frame :: "u8 list \<Rightarrow> u8 list \<Rightarrow> u8 list \<Rightarrow> u8 list \<Rightarrow> u8 list option" where
  "ping_frame dst_mac our_mac our_ip dst_ip =
     (case ip_build our_ip dst_ip 1 (of_nat (length icmp_echo)) (replicate 84 0) of
        None \<Rightarrow> None
      | Some (ip_len, ip_buf) \<Rightarrow>
          let ip_buf = patch ip_buf ip_len icmp_echo in
          (case eth_build dst_mac our_mac 0x0800 (take (ip_len + length icmp_echo) ip_buf) (replicate 98 0) of
             None \<Rightarrow> None
           | Some (eth_len, eth_buf) \<Rightarrow> Some (take eth_len eth_buf)))"

definition echo_reply :: "u64 \<Rightarrow> turn \<Rightarrow> u8 list \<Rightarrow> (u8 list \<times> u64) option" where
  "echo_reply start t pkt =
     (case eth_parse pkt of None \<Rightarrow> None | Some eth \<Rightarrow>
        if ethertype eth \<noteq> 0x0800 then None
        else (case ip_parse (eth_payload eth) of None \<Rightarrow> None | Some ip \<Rightarrow>
          if ip_protocol ip = 1 \<and> length (ip_payload ip) \<ge> 8 \<and> ip_payload ip ! 0 = 0
          then Some (ip_src ip, t_then t - start) else None))"

definition cmd_ping ::
    "NetStatus \<Rightarrow> NetConfig option \<Rightarrow> string \<Rightarrow> wait_net \<Rightarrow> u64 \<Rightarrow> wait_net \<Rightarrow> string list \<times> u8 list list" where
  "cmd_ping st cfg target w1 start w2 =
     (if nic_kind st = NicNone then ([''No NIC available''], [])
      else (case parse_ip target of
        None \<Rightarrow> ([''Invalid IP address format (use x.x.x.x)''], [])
      | Some ns \<Rightarrow> (case cfg of
          None \<Rightarrow> ([''Network not configured. Run 'dhcp' first.''], [])
        | Some c \<Rightarrow>
            let dst_ip = map of_nat ns;
                said = [''PING '' @ ip_text dst_ip @ '' from '' @ ip_text (cfg_ip c), ''Resolving MAC address...''] in
            (case resolve_mac dst_ip c (nic_mac st) w1 of
               (Failure, f) \<Rightarrow> (said @ [''ARP resolution failed''], f)
             | (Waiting, f) \<Rightarrow> (said, f)
             | (Answer mac, f) \<Rightarrow>
                 (case ping_frame mac (nic_mac st) (cfg_ip c) dst_ip of
                    None \<Rightarrow> (said @ [''panic''], f)
                  | Some frame \<Rightarrow>
                      if \<not> w_sent w2 then (said @ [''TX failed''], f @ [frame])
                      else
                        let result = (case wait_for (w_from w2 + 5000) (echo_reply start) (\<lambda>k. k = Ctrl 99) (w_turns w2) of
                            Got (src, ms) \<Rightarrow> [''Reply from '' @ ip_text src @ '': time='' @ decimal (unat ms) @ ''ms'']
                          | Timed_out \<Rightarrow> [''Request timeout'']
                          | Aborted \<Rightarrow> [''Aborted'']
                          | Not_yet \<Rightarrow> [])
                        in (said @ [''Sent '' @ decimal (length icmp_echo) @ '' bytes''] @ result, f @ [frame]))))))"

section \<open>The loopback test\<close>

text \<open>After the transmission: the first packet received within half a second. The result is the
  lines printed, the frame sent and whether loopback was switched, on and off again.\<close>

definition cmd_looptest ::
    "NetStatus \<Rightarrow> NetConfig option \<Rightarrow> wait_net \<Rightarrow> u16 \<times> u16 \<Rightarrow> string list \<times> u8 list list \<times> bool list" where
  "cmd_looptest st cfg w ring_pos =
     (if nic_kind st = NicNone then ([''No NIC available''], [], [])
      else
        let mac = nic_mac st;
            ip = (case cfg of Some c \<Rightarrow> cfg_ip c | None \<Rightarrow> [10, 0, 2, 15]);
            gw = (case cfg of Some c \<Rightarrow> cfg_gateway c | None \<Rightarrow> [10, 0, 2, 2]) in
        (case arp_frame mac ip gw 64 of
           None \<Rightarrow> ([''panic''], [], [])
         | Some frame \<Rightarrow>
             let start = [''Loopback ON, sending packet...'', ''TX done, checking RX...''];
                 no_data = [''Loopback OFF'', ''No RX data '' @ text_of [0xE2, 0x80, 0x94] @ '' RX path broken'',
                   ''  CAPR='' @ decimal (unat (fst ring_pos)) @ '' CBR='' @ decimal (unat (snd ring_pos))] in
             (case wait_for (w_from w + 500) (\<lambda>_ pkt. Some pkt) (\<lambda>_. False) (w_turns w) of
                Got pkt \<Rightarrow>
                  (start @ [''LOOPBACK OK: received '' @ decimal (length pkt) @ '' bytes!'']
                     @ (case eth_parse pkt of None \<Rightarrow> [] | Some eth \<Rightarrow>
                          [''  dst='' @ hex_u8 (eth_dst eth ! 0) @ '':'' @ hex_u8 (eth_dst eth ! 1) @ '':... src=''
                             @ hex_u8 (eth_src eth ! 0) @ '':'' @ hex_u8 (eth_src eth ! 1) @ '':... ethertype=0x''
                             @ zeros 4 (hexadecimal (unat (ethertype eth)))])
                     @ [''Loopback OFF''], [frame], [True, False])
              | Not_yet \<Rightarrow> (start, [frame], [True])
              | _ \<Rightarrow> (start @ no_data, [frame], [True, False]))))"

section \<open>DHCP\<close>

definition cfg_text :: "NetConfig \<Rightarrow> string" where
  "cfg_text c = ''IP: '' @ ip_text (cfg_ip c) @ '' / mask: '' @ ip_text (cfg_subnet c) @ '' / gw: ''
     @ ip_text (cfg_gateway c) @ '' / dns: '' @ ip_text (cfg_dns c)"

definition cmd_dhcp ::
    "NetStatus \<Rightarrow> NetConfig option \<Rightarrow> u64 \<Rightarrow> exchange \<Rightarrow> exchange \<Rightarrow> NetConfig option \<times> string list \<times> u8 list list" where
  "cmd_dhcp st cfg now x1 x2 =
     (if nic_kind st = NicNone then (cfg, [''No NIC available''], [])
      else
        let xid = ucast now :: u32;
            said = ''DHCP discover (xid=0x'' @ zeros 8 (hexadecimal (unat xid)) @ '')...'' in
        (case dhcp_request (nic_mac st) xid x1 x2 of
           (Answer c, f) \<Rightarrow> (Some c, [said, ''DHCP OK!'', cfg_text c], f)
         | (Failure, f) \<Rightarrow> (cfg, [said, ''DHCP failed (no response or bad ack)''], f)
         | (Waiting, f) \<Rightarrow> (cfg, [said], f)))"

section \<open>TCP commands\<close>

definition cmd_tcplisten :: "env \<Rightarrow> string \<Rightarrow> TcpConn list \<Rightarrow> string list \<times> TcpConn list" where
  "cmd_tcplisten e port_str cs =
     (case parse_unsigned 65535 port_str of
        None \<Rightarrow> ([''tcplisten: invalid port''], cs)
      | Some port \<Rightarrow>
          (case tcp_listen e (of_nat port) cs of
             (Inr (), cs') \<Rightarrow> ([''Listening on port '' @ decimal port], cs')
           | (Inl err, cs') \<Rightarrow> ([''tcplisten: '' @ err], cs')))"

definition ephemeral_port :: "u64 \<Rightarrow> u16" where
  "ephemeral_port now = 1024 + ucast (now mod 64512)"

definition cmd_tcpconnect ::
    "env \<Rightarrow> string \<Rightarrow> string \<Rightarrow> TcpConn list \<Rightarrow> string list \<times> TcpConn list \<times> u8 list list" where
  "cmd_tcpconnect e ip_str port_str cs =
     (case parse_ipv4 ip_str of
        None \<Rightarrow> ([''tcpconnect: invalid IP''], cs, [])
      | Some ip \<Rightarrow>
          (case parse_unsigned 65535 port_str of
             None \<Rightarrow> ([''tcpconnect: invalid port''], cs, [])
           | Some port \<Rightarrow>
               let lport = ephemeral_port (env_now e) in
               (case tcp_connect e lport ip (of_nat port) cs of
                  (Inr idx, cs', out) \<Rightarrow>
                    ([''Connecting ['' @ decimal idx @ ''] to '' @ ip_str @ '':'' @ decimal port @ '' (port ''
                       @ decimal (unat lport) @ '')...''], cs', out)
                | (Inl err, cs', out) \<Rightarrow> ([''tcpconnect: '' @ err], cs', out))))"

text \<open>\<open>usize::from_str\<close>.\<close>

definition parse_usize :: "string \<Rightarrow> nat option" where
  "parse_usize = parse_unsigned (2 ^ 64 - 1)"

definition cmd_tcpsend :: "env \<Rightarrow> string \<Rightarrow> string \<Rightarrow> TcpConn list \<Rightarrow> string list \<times> TcpConn list \<times> u8 list list" where
  "cmd_tcpsend e idx_str data cs =
     (case parse_usize idx_str of
        None \<Rightarrow> ([''tcpsend: invalid index''], cs, [])
      | Some idx \<Rightarrow>
          (case tcp_send e idx (bytes_of data) cs of
             (Inr n, cs', out) \<Rightarrow> ([''Sent '' @ decimal n @ '' bytes on ['' @ decimal idx @ '']''], cs', out)
           | (Inl err, cs', out) \<Rightarrow> ([''tcpsend: '' @ err], cs', out)))"

definition cmd_tcprecv :: "string \<Rightarrow> TcpConn list \<Rightarrow> string list \<times> TcpConn list" where
  "cmd_tcprecv idx_str cs =
     (case parse_usize idx_str of
        None \<Rightarrow> ([''tcprecv: invalid index''], cs)
      | Some idx \<Rightarrow>
          (case tcp_recv idx 512 cs of
             (Inl err, cs') \<Rightarrow> ([''tcprecv: '' @ err], cs')
           | (Inr [], cs') \<Rightarrow> ([''No data available on ['' @ decimal idx @ '']''], cs')
           | (Inr bytes, cs') \<Rightarrow>
               ([if utf8_ok bytes
                 then ''['' @ decimal idx @ ''] received ('' @ decimal (length bytes) @ '' bytes): '' @ text_of bytes
                 else ''['' @ decimal idx @ ''] received '' @ decimal (length bytes) @ '' bytes (binary)''], cs')))"

definition cmd_tcpclose :: "env \<Rightarrow> string \<Rightarrow> TcpConn list \<Rightarrow> string list \<times> TcpConn list \<times> u8 list list" where
  "cmd_tcpclose e idx_str cs =
     (case parse_usize idx_str of
        None \<Rightarrow> ([''tcpclose: invalid index''], cs, [])
      | Some idx \<Rightarrow>
          (case tcp_close e idx cs of
             (Inr (), cs', out) \<Rightarrow> ([''Closing ['' @ decimal idx @ '']...''], cs', out)
           | (Inl err, cs', out) \<Rightarrow> ([''tcpclose: '' @ err], cs', out)))"

fun state_text :: "TcpState \<Rightarrow> string" where
  "state_text Listen = ''LISTEN''"
| "state_text SynSent = ''SYN_SENT''"
| "state_text SynReceived = ''SYN_RCVD''"
| "state_text Established = ''ESTABLISHED''"
| "state_text FinWait1 = ''FIN_WAIT1''"
| "state_text FinWait2 = ''FIN_WAIT2''"
| "state_text CloseWait = ''CLOSE_WAIT''"
| "state_text LastAck = ''LAST_ACK''"
| "state_text TimeWait = ''TIME_WAIT''"
| "state_text Closed = ''CLOSED''"

definition cmd_tcpstat :: "TcpConn list \<Rightarrow> string list" where
  "cmd_tcpstat cs =
     (if tcp_list cs = [] then [''No active TCP connections'']
      else map (\<lambda>(idx, state, lport, rip, rport).
        ''['' @ decimal idx @ ''] '' @ fill_right 12 (state_text state) @ '' :'' @ decimal (unat lport) @ ''  -> ''
          @ ip_text rip @ '':'' @ decimal (unat rport)) (tcp_list cs))"

section \<open>HTTP\<close>

text \<open>One turn of the two loops: the environment and the packets that \<open>poll_and_dispatch\<close> sees, and
  the clock when the loop looks at it. The state is the TCP table and the frames sent so far.\<close>

type_synonym round = "env \<times> u8 list list \<times> u64"
type_synonym tcp_io = "TcpConn list \<times> u8 list list"

definition polled :: "env \<Rightarrow> u8 list list \<Rightarrow> tcp_io \<Rightarrow> tcp_io" where
  "polled e pkts = (\<lambda>(cs, out). case poll_and_dispatch e pkts cs of (cs', out') \<Rightarrow> (cs', out @ out'))"

fun wait_established :: "u64 \<Rightarrow> nat \<Rightarrow> round list \<Rightarrow> tcp_io \<Rightarrow> unit outcome \<times> round list \<times> tcp_io" where
  "wait_established deadline idx [] s = (Waiting, [], s)"
| "wait_established deadline idx ((e, pkts, now) # rs) s =
     (let s = polled e pkts s in
      case tcp_status idx (fst s) of
        Inr (Established, _) \<Rightarrow> (Answer (), rs, s)
      | _ \<Rightarrow> if now > deadline then (Failure, rs, s) else wait_established deadline idx rs s)"

fun http_receive :: "u64 \<Rightarrow> nat \<Rightarrow> round list \<Rightarrow> string list \<Rightarrow> tcp_io \<Rightarrow> bool \<times> string list \<times> tcp_io" where
  "http_receive deadline idx [] said s = (False, said, s)"
| "http_receive deadline idx ((e, pkts, now) # rs) said s =
     (case polled e pkts s of (cs, out) \<Rightarrow>
        (case tcp_recv idx 4096 cs of
           (Inl err, cs) \<Rightarrow> (True, said, (cs, out))
         | (Inr [], cs) \<Rightarrow>
             if now > deadline then (True, said, (cs, out))
             else http_receive deadline idx rs said (cs, out)
         | (Inr bytes, cs) \<Rightarrow>
             http_receive deadline idx rs (if utf8_ok bytes then said @ [text_of bytes] else said) (cs, out)))"

definition http_request :: "string \<Rightarrow> string \<Rightarrow> nat \<Rightarrow> string" where
  "http_request path ip_str port =
     (let crlf = [CHR 0x0D, CHR 0x0A] in
      ''GET '' @ path @ '' HTTP/1.0'' @ crlf @ ''Host: '' @ ip_str @ '':'' @ decimal port @ crlf
        @ ''Connection: close'' @ crlf @ crlf)"

definition http_port :: "u64 \<Rightarrow> u16" where
  "http_port now = 2048 + ucast (now mod 63500)"

text \<open>\<open>from1\<close> and \<open>from2\<close> are the clock when the two waits begin, \<open>e1\<close> and \<open>e2\<close> the environments of
  the connect and the send, \<open>e3\<close> of the close.\<close>

definition http_exchange ::
    "env \<Rightarrow> u64 \<Rightarrow> env \<Rightarrow> string \<Rightarrow> nat \<Rightarrow> string \<Rightarrow> nat \<Rightarrow> round list \<Rightarrow> string list \<Rightarrow> tcp_io \<Rightarrow> string list \<times> tcp_io" where
  "http_exchange e2 from2 e3 ip_str port path idx rs said s =
     (case tcp_send e2 idx (bytes_of (http_request path ip_str port)) (fst s) of
        (Inl err, cs, out) \<Rightarrow> (said @ [''send: '' @ err], (cs, snd s @ out))
      | (Inr n, cs, out) \<Rightarrow>
          (case http_receive (from2 + 10000) idx rs (said @ [''Sent '' @ decimal n @ '' bytes'']) (cs, snd s @ out) of
             (False, said, s) \<Rightarrow> (said, s)
           | (True, said, (cs, out)) \<Rightarrow>
               (case tcp_close e3 idx cs of (_, cs', out') \<Rightarrow> (said, (cs', out @ out')))))"

definition cmd_httpget ::
    "env \<Rightarrow> u64 \<Rightarrow> env \<Rightarrow> u64 \<Rightarrow> env \<Rightarrow> string \<Rightarrow> string \<Rightarrow> string \<Rightarrow> round list \<Rightarrow> TcpConn list \<Rightarrow> string list \<times> tcp_io" where
  "cmd_httpget e1 from1 e2 from2 e3 ip_str port_str path rs cs =
     (case parse_ipv4 ip_str of
        None \<Rightarrow> ([''httpget: invalid IP''], (cs, []))
      | Some ip \<Rightarrow>
          (case parse_unsigned 65535 port_str of
             None \<Rightarrow> ([''httpget: invalid port''], (cs, []))
           | Some port \<Rightarrow>
               (case tcp_connect e1 (http_port (env_now e1)) ip (of_nat port) cs of
                  (Inl err, cs, out) \<Rightarrow> ([''httpget: '' @ err], (cs, out))
                | (Inr idx, cs, out) \<Rightarrow>
                    let said = [''Connecting to '' @ ip_str @ '':'' @ decimal port @ ''...''] in
                    (case wait_established (from1 + 5000) idx rs (cs, out) of
                       (Waiting, _, s) \<Rightarrow> (said, s)
                     | (Failure, _, s) \<Rightarrow> (said @ [''Connection timeout''], s)
                     | (Answer _, rs, s) \<Rightarrow>
                         http_exchange e2 from2 e3 ip_str port path idx rs
                           (said @ [''Connected, sending request...'']) s))))"

section \<open>Disk commands\<close>

text \<open>The file system is mounted by the first of these commands and kept. The flag tells whether the
  file system's code panicked.\<close>

definition is_panic :: "string \<Rightarrow> bool" where
  "is_panic err \<longleftrightarrow> take 5 err = ''panic''"

definition mount_once :: "ext3 option \<Rightarrow> disk \<Rightarrow> ext3 option \<times> string list \<times> bool \<times> disk" where
  "mount_once fs d =
     (case fs of
        Some f \<Rightarrow> (Some f, [], False, d)
      | None \<Rightarrow>
          (case ext3_mount d of
             (Inr f, d') \<Rightarrow> (Some f, [''ext3: mounted (block_size='' @ decimal (block_size f) @ '')''], False, d')
           | (Inl err, d') \<Rightarrow> (None, if is_panic err then [] else [''ext3 mount: '' @ err], is_panic err, d')))"

definition with_ext3 :: "(ext3 \<Rightarrow> string list dio) \<Rightarrow> string \<Rightarrow> ext3 option \<Rightarrow> disk \<Rightarrow> ext3 option \<times> string list \<times> bool \<times> disk" where
  "with_ext3 f name fs d =
     (case mount_once fs d of
        (None, said, stuck, d) \<Rightarrow> (None, said, stuck, d)
      | (Some fs, said, _, d) \<Rightarrow>
          (case f fs d of
             (Inr ls, d) \<Rightarrow> (Some fs, said @ ls, False, d)
           | (Inl err, d) \<Rightarrow> (Some fs, said @ (if is_panic err then [] else [name @ '': '' @ err]), is_panic err, d)))"

definition entry_line :: "u8 list \<times> u32 \<times> u8 \<Rightarrow> string" where
  "entry_line = (\<lambda>(name, ino, ft).
     ''  '' @ fill_left CHR '' '' 8 (decimal (unat ino)) @ ''  '' @ text_of name
       @ (if ft = 2 then ''/'' else if ft = 7 then ''@'' else '' ''))"

definition cmd_ext3ls :: "string \<Rightarrow> ext3 option \<Rightarrow> disk \<Rightarrow> ext3 option \<times> string list \<times> bool \<times> disk" where
  "cmd_ext3ls path = with_ext3 (\<lambda>fs. bindD (list_dir fs (bytes_of path)) (\<lambda>entries.
     okD (if entries = [] then [''(empty)''] else map entry_line entries))) ''ext3ls''"

definition cmd_ext3cat :: "string \<Rightarrow> ext3 option \<Rightarrow> disk \<Rightarrow> ext3 option \<times> string list \<times> bool \<times> disk" where
  "cmd_ext3cat path = with_ext3 (\<lambda>fs. bindD (read_file fs (bytes_of path)) (\<lambda>data.
     okD [if utf8_ok data then text_of data else ''(binary, '' @ decimal (length data) @ '' bytes)''])) ''ext3cat''"

definition cmd_ext3info :: "ext3 option \<Rightarrow> disk \<Rightarrow> ext3 option \<times> string list \<times> bool \<times> disk" where
  "cmd_ext3info = with_ext3 (\<lambda>fs. okD [''ext3 (block_size='' @ decimal (block_size fs) @ '', ro)'']) []"

end
