(* ===== verification/SystemInfo.thy ===== *)
theory SystemInfo
  imports NetCommands
begin

text \<open>
  The commands that report: \<open>hexdump\<close>, \<open>mem\<close>, \<open>free\<close>, \<open>ifconfig\<close>, \<open>netinfo\<close>, \<open>lspci\<close>, \<open>cpuinfo\<close>
  and \<open>help\<close> of \<^verbatim>\<open>src/shell/mod.rs\<close>, and the CPU identification of
  \<^verbatim>\<open>src/cpu.rs\<close>. What they report on (memory, statistics, the answers of CPUID, the PCI
  configuration space) is an argument, the lines they print are the result.
\<close>

section \<open>hexdump\<close>

definition ascii_shown :: "u8 \<Rightarrow> char" where
  "ascii_shown b = (if 0x20 \<le> b \<and> b \<le> 0x7E then char_of (unat b) else CHR ''.'')"

definition hex_cell :: "u8 list \<Rightarrow> nat \<Rightarrow> string" where
  "hex_cell line i =
     (if i < length line then hex_u8 (line ! i) @ '' '' else ''   '') @ (if i = 7 then '' '' else [])"

text \<open>One line of up to sixteen bytes.\<close>

definition hex_line :: "u32 \<Rightarrow> u8 list \<Rightarrow> string" where
  "hex_line addr line =
     zeros 8 (hexadecimal (unat addr)) @ ''  '' @ concat (map (hex_cell line) [0..<16])
       @ '' |'' @ map ascii_shown line @ ''|''"

definition hexdump :: "(nat \<Rightarrow> u8) \<Rightarrow> u32 \<Rightarrow> nat \<Rightarrow> string list" where
  "hexdump mem addr len =
     map (\<lambda>k. let off = 16 * k; line_len = min (len - off) 16 in
            hex_line (addr + of_nat off) (map (\<lambda>i. mem (unat addr + off + i)) [0..<line_len]))
       [0..<(len + 15) div 16]"

definition cmd_hexdump :: "(nat \<Rightarrow> u8) \<Rightarrow> string option \<Rightarrow> string option \<Rightarrow> string list" where
  "cmd_hexdump mem addr_str len_str =
     (let addr = (case Option.bind addr_str parse_hex of Some a \<Rightarrow> of_nat a | None \<Rightarrow> 0);
          len = (case Option.bind len_str parse_usize of Some n \<Rightarrow> n | None \<Rightarrow> 128) in
      if len = 0 \<or> len > 4096 then [''invalid length (max 4096)''] else hexdump mem addr len)"

section \<open>Memory\<close>

definition heap_lines :: "nat \<times> nat \<Rightarrow> nat \<Rightarrow> string list" where
  "heap_lines stats heap_total =
     [''heap used: '' @ decimal (fst stats) @ '' bytes'', ''heap free: '' @ decimal (snd stats) @ '' bytes'',
      ''heap total: '' @ decimal heap_total @ '' bytes'']"

definition percent_line :: "string \<Rightarrow> nat \<Rightarrow> nat \<Rightarrow> nat \<Rightarrow> nat \<Rightarrow> string" where
  "percent_line label all used free percent =
     label @ fill_left CHR '' '' 10 (decimal all) @ '' '' @ fill_left CHR '' '' 10 (decimal used) @ '' ''
       @ fill_left CHR '' '' 10 (decimal free) @ ''      '' @ fill_left CHR '' '' 3 (decimal percent) @ ''%''"

definition free_lines :: "nat \<times> nat \<Rightarrow> nat \<Rightarrow> nat \<times> nat \<times> nat \<Rightarrow> string list" where
  "free_lines heap heap_total pages =
     (case (heap, pages) of ((used, free), (page_total, page_free, page_used)) \<Rightarrow>
        [''              total        used        free     percent'',
         percent_line ''Heap:    '' heap_total used free (used * 100 div heap_total),
         percent_line ''Pages:   '' (page_total * 4096) (page_used * 4096) (page_free * 4096)
           (page_used * 100 div page_total)])"

section \<open>The network\<close>

definition cmd_ifconfig :: "NetStatus \<Rightarrow> NetConfig option \<Rightarrow> string list" where
  "cmd_ifconfig st cfg =
     [''eth0: '' @ (case nic_kind st of NicNone \<Rightarrow> ''none'' | E1000 \<Rightarrow> ''e1000'' | Rtl8139 \<Rightarrow> ''rtl8139'')
        @ '' ('' @ (if link_up st then ''UP'' else ''DOWN'') @ '')'',
      ''      mac: '' @ mac_text (nic_mac st)]
     @ (case cfg of
          Some c \<Rightarrow> [''      inet: '' @ ip_text (cfg_ip c), ''      mask: '' @ ip_text (cfg_subnet c),
                     ''      gateway: '' @ ip_text (cfg_gateway c)]
        | None \<Rightarrow> [''      inet: not configured''])"

definition cmd_netinfo :: "NetStatus \<Rightarrow> NetConfig option \<Rightarrow> u16 \<times> u16 \<Rightarrow> string list" where
  "cmd_netinfo st cfg ring_pos =
     [''interface: '' @ (case nic_kind st of NicNone \<Rightarrow> ''none (stub)'' | E1000 \<Rightarrow> ''Intel e1000 (skeleton)''
                         | Rtl8139 \<Rightarrow> ''Realtek RTL8139''),
      ''mac: '' @ mac_text (nic_mac st), ''link: '' @ (if link_up st then ''up'' else ''down'')]
     @ (case cfg of
          Some c \<Rightarrow> [''ip: '' @ ip_text (cfg_ip c), ''gateway: '' @ ip_text (cfg_gateway c), ''dns: '' @ ip_text (cfg_dns c)]
        | None \<Rightarrow> [''ip: not configured (run 'dhcp')''])
     @ (if nic_kind st = Rtl8139
        then [''rx ring: CAPR='' @ decimal (unat (fst ring_pos)) @ '' CBR='' @ decimal (unat (snd ring_pos))] else [])
     @ (case nic_pci st of None \<Rightarrow> []
        | Some p \<Rightarrow> [''pci '' @ hex_u8 (pci_bus p) @ '':'' @ hex_u8 (pci_slot p) @ ''.0 - vendor ''
             @ zeros 4 (hexadecimal (unat (vendor_id p))) @ '' device '' @ zeros 4 (hexadecimal (unat (device_id p)))])"

definition pci_line :: "u8 \<Rightarrow> PciDevice \<Rightarrow> string" where
  "pci_line func dev =
     hex_u8 (pci_bus dev) @ ''  '' @ hex_u8 (pci_slot dev) @ ''  '' @ decimal (unat func) @ ''  ''
       @ zeros 4 (hexadecimal (unat (vendor_id dev))) @ ''   '' @ zeros 4 (hexadecimal (unat (device_id dev)))
       @ ''   '' @ hex_u8 (pci_class dev) @ '':'' @ hex_u8 (pci_subclass dev)"

definition pci_lines :: "(u32 \<Rightarrow> u32) \<Rightarrow> nat list \<Rightarrow> string list" where
  "pci_lines pci busses =
     concat (map (\<lambda>bus. concat (map (\<lambda>slot. concat (map (\<lambda>func.
       case probe_device pci (of_nat bus) (of_nat slot) (of_nat func) of
         None \<Rightarrow> [] | Some dev \<Rightarrow> [pci_line (of_nat func) dev]) [0..<8])) [0..<32])) busses)"

definition cmd_lspci :: "(u32 \<Rightarrow> u32) \<Rightarrow> string list" where
  "cmd_lspci pci =
     (let ls = pci_lines pci [0..<256]
      in ''Bus Dev Fn Vendor Device Class'' # (if ls = [] then [''No PCI devices found''] else ls))"

section \<open>The CPU\<close>

record CpuidResult =
  eax :: u32
  ebx :: u32
  ecx :: u32
  edx :: u32

text \<open>The vendor: twelve bytes of three registers, up to the first zero byte. A text that is not
  UTF-8 is a panic.\<close>

definition vendor_id_text :: "(u32 \<Rightarrow> CpuidResult) \<Rightarrow> string option" where
  "vendor_id_text cpuid =
     (let r = cpuid 0;
          b = takeWhile (\<lambda>x. x \<noteq> 0) (le32 (ebx r) @ le32 (edx r) @ le32 (ecx r))
      in if utf8_ok b then Some (text_of b) else None)"

text \<open>The brand: the nonzero bytes of twelve registers, each the character of its number, as UTF-8.\<close>

definition char_utf8 :: "u8 \<Rightarrow> u8 list" where
  "char_utf8 b = (if b < 0x80 then [b] else [0xC0 OR drop_bit 6 b, 0x80 OR (b AND 0x3F)])"

definition format_registers :: "u32 \<Rightarrow> u32 \<Rightarrow> u32 \<Rightarrow> u32 \<Rightarrow> u8 list" where
  "format_registers a b c d =
     concat (map char_utf8 (filter (\<lambda>x. x \<noteq> 0) (le32 a @ le32 b @ le32 c @ le32 d)))"

definition brand_bytes :: "(u32 \<Rightarrow> CpuidResult) \<Rightarrow> u8 list" where
  "brand_bytes cpuid =
     concat (map (\<lambda>leaf. let r = cpuid leaf in format_registers (eax r) (ebx r) (ecx r) (edx r))
       [0x80000002, 0x80000003, 0x80000004])"

section \<open>help\<close>

definition help_lines :: "string list" where
  "help_lines =
     [''help              - list commands'',
      ''ls                - list RamFS files'',
      ''touch <file>      - create empty file'',
      ''write <f> '' @ [CHR 0x22] @ ''txt'' @ [CHR 0x22] @ ''   - write file'',
      ''cat <file>        - print file'',
      ''rm <file>         - delete file'',
      ''cp <src> <dst>    - copy file'',
      ''mv <src> <dst>    - move/rename file'',
      ''mem               - heap usage'',
      ''free              - memory statistics'',
      ''lspci             - list PCI devices'',
      ''cpuinfo           - CPU vendor'',
      ''netinfo           - NIC status'',
      ''ifconfig          - network configuration'',
      ''calc <expr>       - integer math'',
      ''clear             - clear screen'',
      ''edit <file>       - TUI editor (Esc=exit, Ctrl+S=save)'',
      ''spawn <name>      - spawn test task'',
      ''ps                - list tasks'',
      ''shutdown          - power off VM'',
      ''uptime            - system uptime'',
      ''env               - system info'',
      ''dhcp              - request IP via DHCP'',
      ''tcplisten <port>  - listen for TCP connections'',
      ''tcpconnect <ip> <p> - connect to TCP server'',
      ''tcpsend <idx> <d> - send data on connection'',
      ''tcprecv <idx>     - receive data from connection'',
      ''tcpclose <idx>    - close TCP connection'',
      ''tcpstat           - list TCP connections'',
      ''ext3ls  [path]    - list ext3 directory'',
      ''ext3cat <path>    - read ext3 file'',
      ''ext3info          - ext3 filesystem info'',
      ''fb                - framebuffer info'',
      ''httpget <ip> <p>  - HTTP GET request'',
      ''ping <ip>         - send ICMP echo (e.g. ping 10.0.2.2)'']"

text \<open>Every command that \<open>help\<close> lists is one that \<open>dispatch\<close> knows.\<close>

lemma help_is_known:
  "list_all (\<lambda>l. case split_whitespace l of
     cmd # _ \<Rightarrow> (case dispatch_word cmd cmd [] of Unknown _ \<Rightarrow> False | _ \<Rightarrow> True) | [] \<Rightarrow> False) help_lines"
  by code_simp

end
