(* ===== verification/Descriptors.thy ===== *)
theory Descriptors
  imports Nic
begin

text \<open>
  What the kernel programs into the processor and the board at start-up: the descriptor tables of
  \<^verbatim>\<open>src/gdt.rs\<close> and \<^verbatim>\<open>src/idt.rs\<close> as the bytes of their structures, the
  interrupt controllers (\<^verbatim>\<open>src/interrupts.rs\<close>), the timer
  (\<^verbatim>\<open>src/timer.rs\<close>) and the serial line (\<^verbatim>\<open>src/serial.rs\<close>) as port
  writes. Addresses of the linker are arguments. The lemmas read the structures back the way
  the hardware does.
\<close>

section \<open>Words in parts\<close>

lemma word_parts:
  "ucast (ucast w :: u16) OR push_bit 16 (ucast (ucast (drop_bit 16 w) :: u16))
     OR push_bit 32 (ucast (ucast (drop_bit 32 w) :: u32)) = (w :: u64)"
  "ucast (ucast w :: u16) OR push_bit 16 (ucast (ucast (drop_bit 16 w) :: u8)) OR push_bit 24 (ucast (ucast (drop_bit 24 w) :: u8))
     OR push_bit 32 (ucast (ucast (drop_bit 32 w) :: u32)) = (w :: u64)"
proof -
  show "ucast (ucast w :: u16) OR push_bit 16 (ucast (ucast (drop_bit 16 w) :: u16))
     OR push_bit 32 (ucast (ucast (drop_bit 32 w) :: u32)) = w"
  proof (rule bit_word_eqI)
    fix n assume "n < LENGTH(64)"
    then consider "n < 16" | "16 \<le> n" "n < 32" | "32 \<le> n" "n < 64" by force
    then show "bit ((ucast (ucast w :: u16) :: u64) OR push_bit 16 (ucast (ucast (drop_bit 16 w) :: u16))
     OR push_bit 32 (ucast (ucast (drop_bit 32 w) :: u32))) n = bit w n"
      by cases (auto simp: bit_simps)
  qed
  show "ucast (ucast w :: u16) OR push_bit 16 (ucast (ucast (drop_bit 16 w) :: u8)) OR push_bit 24 (ucast (ucast (drop_bit 24 w) :: u8))
     OR push_bit 32 (ucast (ucast (drop_bit 32 w) :: u32)) = w"
  proof (rule bit_word_eqI)
    fix n assume "n < LENGTH(64)"
    then consider "n < 16" | "16 \<le> n" "n < 24" | "24 \<le> n" "n < 32" | "32 \<le> n" "n < 64" by force
    then show "bit ((ucast (ucast w :: u16) :: u64) OR push_bit 16 (ucast (ucast (drop_bit 16 w) :: u8)) OR push_bit 24 (ucast (ucast (drop_bit 24 w) :: u8))
     OR push_bit 32 (ucast (ucast (drop_bit 32 w) :: u32))) n = bit w n"
      by cases (auto simp: bit_simps)
  qed
qed

section \<open>Segment descriptors\<close>

definition le64 :: "u64 \<Rightarrow> u8 list" where
  "le64 w = le32 (ucast w) @ le32 (ucast (drop_bit 32 w))"

lemma length_le64 [simp]: "length (le64 w) = 8"
  by (simp add: le64_def)

definition gdt_entry :: "u32 \<Rightarrow> u32 \<Rightarrow> u8 \<Rightarrow> u8 \<Rightarrow> u8 list" where
  "gdt_entry base limit access granularity =
     le16 (ucast limit) @ le16 (ucast base) @ [ucast (drop_bit 16 base), access, granularity, ucast (drop_bit 24 base)]"

definition gdt_null :: "u8 list" where "gdt_null = replicate 8 0"

definition TSS_SIZE :: nat where "TSS_SIZE = 104"

definition tss_descriptor :: "u64 \<Rightarrow> u8 list" where
  "tss_descriptor base =
     le16 (of_nat (TSS_SIZE - 1)) @ le16 (ucast base) @ [ucast (drop_bit 16 base), 0x89, 0x00, ucast (drop_bit 24 base)]
       @ le32 (ucast (drop_bit 32 base)) @ le32 0"

text \<open>The task state segment: \<open>rsp0\<close> and the first interrupt stack are the double-fault stack.\<close>

definition tss_bytes :: "u64 \<Rightarrow> u8 list" where
  "tss_bytes df_stack_top =
     le32 0 @ le64 df_stack_top @ le64 0 @ le64 0 @ le64 0 @ le64 df_stack_top
       @ le64 0 @ le64 0 @ le64 0 @ le64 0 @ le64 0 @ le64 0 @ le64 0 @ le16 0 @ le16 (of_nat TSS_SIZE)"

definition gdt_bytes :: "u64 \<Rightarrow> u8 list" where
  "gdt_bytes tss =
     gdt_null @ gdt_entry 0 0 0x9A 0xAF @ gdt_entry 0 0 0x92 0xCF @ gdt_entry 0 0 0xFA 0xAF @ gdt_entry 0 0 0xF2 0xCF
       @ tss_descriptor tss"

definition gdt_pointer :: "u64 \<Rightarrow> u64 \<Rightarrow> u8 list" where
  "gdt_pointer gdt tss = le16 (of_nat (length (gdt_bytes tss) - 1)) @ le64 gdt"

text \<open>The table has 56 bytes, the code selector 8 is a 64-bit code segment, the selector 0x28 the
  descriptor of the task state segment, whose parts are its address.\<close>

lemma length_gdt: "length (gdt_bytes tss) = 56" "length (tss_bytes sp) = TSS_SIZE"
  by (simp_all add: gdt_bytes_def gdt_null_def gdt_entry_def tss_descriptor_def tss_bytes_def TSS_SIZE_def)

lemma kernel_code_selector: "slc 0x08 0x10 (gdt_bytes tss) = [0, 0, 0, 0, 0, 0x9A, 0xAF, 0]"
  by (simp add: gdt_bytes_def gdt_null_def gdt_entry_def slc_def le16_def)

definition descriptor_base :: "u8 list \<Rightarrow> u64" where
  "descriptor_base b =
     ucast (of_le16 (b ! 2) (b ! 3)) OR push_bit 16 (ucast (b ! 4)) OR push_bit 24 (ucast (b ! 7))
       OR push_bit 32 (ucast (of_le32 (b ! 8) (b ! 9) (b ! 10) (b ! 11)))"

lemma tss_selector: "descriptor_base (slc 0x28 0x38 (gdt_bytes tss)) = tss"
proof -
  have "slc 0x28 0x38 (gdt_bytes tss) = tss_descriptor tss"
    by (simp add: gdt_bytes_def gdt_null_def gdt_entry_def slc_def tss_descriptor_def)
  moreover have "descriptor_base (tss_descriptor tss) = ucast (of_le16 (le16 (ucast tss) ! 0) (le16 (ucast tss) ! Suc 0))
      OR push_bit 16 (ucast (ucast (drop_bit 16 tss) :: u8)) OR push_bit 24 (ucast (ucast (drop_bit 24 tss) :: u8))
      OR push_bit 32 (ucast (of_le32 (le32 (ucast (drop_bit 32 tss)) ! 0) (le32 (ucast (drop_bit 32 tss)) ! Suc 0)
        (le32 (ucast (drop_bit 32 tss)) ! 2) (le32 (ucast (drop_bit 32 tss)) ! 3)))"
    by (simp add: descriptor_base_def tss_descriptor_def nth_append)
  ultimately show ?thesis by (simp only: of_le16_nth of_le32_nth word_parts(2))
qed

section \<open>Interrupt gates\<close>

definition idt_entry :: "u64 \<Rightarrow> u8 list" where
  "idt_entry addr =
     le16 (ucast addr) @ le16 0x08 @ [0, 0x8E] @ le16 (ucast (drop_bit 16 addr)) @ le32 (ucast (drop_bit 32 addr)) @ le32 0"

definition idt_init :: "(nat \<Rightarrow> u64) \<Rightarrow> u8 list list" where
  "idt_init handler =
     (replicate 256 (replicate 16 0))
       [0 := idt_entry (handler 0), 6 := idt_entry (handler 6), 8 := idt_entry (handler 8),
        13 := idt_entry (handler 13), 14 := idt_entry (handler 14), 32 := idt_entry (handler 32),
        33 := idt_entry (handler 33), 44 := idt_entry (handler 44)]"

text \<open>A gate as the processor reads it: whether it is present, its segment, the number of its
  interrupt stack (0 for none) and the address of its handler.\<close>

definition gate_of :: "u8 list \<Rightarrow> bool \<times> u16 \<times> u8 \<times> u64" where
  "gate_of b = (bit (b ! 5) 7, of_le16 (b ! 2) (b ! 3), b ! 4 AND 7,
     ucast (of_le16 (b ! 0) (b ! 1)) OR push_bit 16 (ucast (of_le16 (b ! 6) (b ! 7)))
       OR push_bit 32 (ucast (of_le32 (b ! 8) (b ! 9) (b ! 10) (b ! 11))))"

lemma gate_of_entry: "gate_of (idt_entry addr) = (True, 0x08, 0, addr)"
proof -
  let ?h = "le32 (ucast (drop_bit 32 addr))"
  have "gate_of (idt_entry addr) = (bit (0x8E :: u8) 7, of_le16 (le16 0x08 ! 0) (le16 0x08 ! Suc 0), 0 AND 7,
      ucast (of_le16 (le16 (ucast addr) ! 0) (le16 (ucast addr) ! Suc 0))
      OR push_bit 16 (ucast (of_le16 (le16 (ucast (drop_bit 16 addr)) ! 0) (le16 (ucast (drop_bit 16 addr)) ! Suc 0)))
      OR push_bit 32 (ucast (of_le32 (?h ! 0) (?h ! Suc 0) (?h ! 2) (?h ! 3))))"
    by (simp add: gate_of_def idt_entry_def nth_append)
  then show ?thesis by (simp only: of_le16_nth of_le32_nth word_parts(1)) (simp add: bit_numeral_rec)
qed

text \<open>Every gate that is installed leads to its handler through the kernel code segment, and none
  of them, the double fault included, has a stack of its own; all others are absent.\<close>

lemma idt_gates:
  assumes "i < 256"
  shows "gate_of (idt_init handler ! i) =
    (if i \<in> {0, 6, 8, 13, 14, 32, 33, 44} then (True, 0x08, 0, handler i) else (False, 0, 0, 0))"
proof -
  have "gate_of (replicate 16 0) = (False, 0, 0, 0)"
    by (simp add: gate_of_def of_le16_def of_be16_def of_le32_def of_be32_def)
  then show ?thesis using assms by (auto simp: idt_init_def nth_list_update gate_of_entry)
qed

section \<open>Interrupt controllers\<close>

definition pic_init :: "io_write list" where
  "pic_init =
     [OutB 0x20 0x11, OutB 0x21 0x20, OutB 0x21 0x04, OutB 0x21 0x01,
      OutB 0xA0 0x11, OutB 0xA1 0x28, OutB 0xA1 0x02, OutB 0xA1 0x01,
      OutB 0x21 0xFC, OutB 0xA1 0xEF]"

definition eoi :: "u8 \<Rightarrow> io_write list" where
  "eoi irq = (if irq \<ge> 8 then [OutB 0xA0 0x20] else []) @ [OutB 0x20 0x20]"

text \<open>One controller: after the first initialisation word it takes three more through its data port
  (the vector base, the cascade, the mode); from then on the data port is the mask.\<close>

record pic =
  pic_words :: nat
  pic_base :: u8
  pic_mask :: u8

fun pic_data :: "u8 \<Rightarrow> pic \<Rightarrow> pic" where
  "pic_data x p =
     (if pic_words p = 3 then p\<lparr>pic_words := 2, pic_base := x\<rparr>
      else if pic_words p > 0 then p\<lparr>pic_words := pic_words p - 1\<rparr>
      else p\<lparr>pic_mask := x\<rparr>)"

fun pic_write :: "u16 \<Rightarrow> io_write \<Rightarrow> pic \<Rightarrow> pic" where
  "pic_write port (OutB q x) p =
     (if q = port \<and> bit x 4 then p\<lparr>pic_words := 3, pic_mask := 0\<rparr>
      else if q = port + 1 then pic_data x p else p)"
| "pic_write port _ p = p"

definition pics :: "io_write list \<Rightarrow> pic \<times> pic \<Rightarrow> pic \<times> pic" where
  "pics ws = (\<lambda>(a, b). (fold (pic_write 0x20) ws a, fold (pic_write 0xA0) ws b))"

text \<open>The vector at which the processor takes a request: the lines 8 to 15 come from the second
  controller through line 2 of the first, so both masks must let them through.\<close>

definition delivered :: "pic \<times> pic \<Rightarrow> nat \<Rightarrow> u8 option" where
  "delivered = (\<lambda>(a, b) irq.
     if irq < 8 then (if bit (pic_mask a) irq then None else Some (pic_base a + of_nat irq))
     else if bit (pic_mask b) (irq - 8) \<or> bit (pic_mask a) 2 then None
     else Some (pic_base b + of_nat (irq - 8)))"

text \<open>After the initialisation the timer and the keyboard are delivered at the vectors of their
  gates. The mouse is not: its line is open on the second controller, but line 2 of the first,
  on which the second hangs, stays masked.\<close>

lemma interrupts_delivered:
  "list_all (\<lambda>irq. delivered (pics pic_init s) irq = (if irq = 0 then Some 32 else if irq = 1 then Some 33 else None)) [0..<16]"
  by (cases s) (simp add: pics_def pic_init_def delivered_def upt_rec bit_numeral_rec)

section \<open>Timer and serial line\<close>

definition PIT_DIVISOR :: u16 where "PIT_DIVISOR = 1193"

definition timer_init :: "io_write list" where
  "timer_init = [OutB 0x43 0x36, OutB 0x40 (ucast (PIT_DIVISOR AND 0xFF)), OutB 0x40 (ucast (drop_bit 8 PIT_DIVISOR))]"

lemma timer_divisor: "timer_init = [OutB 0x43 0x36, OutB 0x40 a, OutB 0x40 b] \<Longrightarrow> of_le16 a b = 1193"
  by (auto simp: timer_init_def PIT_DIVISOR_def of_le16_def of_be16_def)

definition COM1 :: u16 where "COM1 = 0x3F8"

definition serial_init :: "io_write list" where
  "serial_init =
     [OutB (COM1 + 1) 0x00, OutB (COM1 + 3) 0x80, OutB (COM1 + 0) 0x01, OutB (COM1 + 1) 0x00, OutB (COM1 + 3) 0x03,
      OutB (COM1 + 2) 0xC7, OutB (COM1 + 4) 0x0B]"

text \<open>Sending waits for the transmitter: \<open>status\<close> are the values of the line status register, and
  the result is \<open>None\<close> while it is not ready.\<close>

definition putb :: "u8 \<Rightarrow> u8 list \<Rightarrow> (io_write \<times> u8 list) option" where
  "putb byte status =
     (case dropWhile (\<lambda>s. s AND 0x20 = 0) status of [] \<Rightarrow> None | _ # rest \<Rightarrow> Some (OutB COM1 byte, rest))"

fun putbs :: "u8 list \<Rightarrow> u8 list \<Rightarrow> io_write list option" where
  "putbs [] status = Some []"
| "putbs (b # bs) status =
     (case putb b status of None \<Rightarrow> None
      | Some (w, rest) \<Rightarrow> (case putbs bs rest of None \<Rightarrow> None | Some ws \<Rightarrow> Some (w # ws)))"

definition serial_write :: "bool \<Rightarrow> u8 list \<Rightarrow> u8 list \<Rightarrow> io_write list option" where
  "serial_write initialized s status = (if \<not> initialized then Some [] else putbs s status)"

definition poll_char :: "bool \<Rightarrow> u8 \<Rightarrow> u8 \<Rightarrow> u8 option" where
  "poll_char initialized status received =
     (if \<not> initialized then None else if status AND 0x01 \<noteq> 0 then Some received else None)"

text \<open>A line that becomes ready often enough takes the whole text, in order.\<close>

lemma putbs_all:
  "length (filter (\<lambda>s. s AND 0x20 \<noteq> 0) status) \<ge> length bs \<Longrightarrow> putbs bs status = Some (map (OutB COM1) bs)"
proof (induction bs arbitrary: status)
  case (Cons b bs)
  have "filter (\<lambda>s. s AND 0x20 \<noteq> 0) status = filter (\<lambda>s. s AND 0x20 \<noteq> 0) (dropWhile (\<lambda>s. s AND 0x20 = 0) status)"
    by (induction status) auto
  moreover obtain x rest where d: "dropWhile (\<lambda>s. s AND 0x20 = 0) status = x # rest"
    using Cons.prems calculation by (cases "dropWhile (\<lambda>s. s AND 0x20 = 0) status") auto
  ultimately have "length bs \<le> length (filter (\<lambda>s. s AND 0x20 \<noteq> 0) rest)"
    using Cons.prems by (auto split: if_splits)
  then show ?case using Cons.IH [of rest] d by (simp add: putb_def)
qed simp

end
