(* ===== verification/BootEntry.thy ===== *)
theory BootEntry
  imports Boot
begin

text \<open>
  The entry code of \<^verbatim>\<open>src/asm.rs\<close>, from the boot loader's jump to \<open>bootstrap\<close> in 32-bit
  protected mode to the call of \<open>kernel_main\<close> in 64-bit mode, as instruction lists on the part of
  the processor they use: general and control registers, flags, the extended feature register,
  segment selectors and memory cells. What the processor offers (its answers to CPUID and the
  flags that POPFD can change) and where the linker puts things are arguments.
\<close>

section \<open>The Multiboot2 header and the Xen note\<close>

definition HEADER_LEN :: u32 where "HEADER_LEN = 24"

definition multiboot2_header :: "u32 list" where
  "multiboot2_header = [0xE85250D6, 0, HEADER_LEN, - (0xE85250D6 + 0 + HEADER_LEN), 0, 8]"

text \<open>What a boot loader checks: the magic number, the length and the sum of the first four words.
  The first tag has type and flags 0 and size 8, which ends the list.\<close>

lemma multiboot2_header_ok:
  "hd multiboot2_header = 0xE85250D6" "4 * length multiboot2_header = unat HEADER_LEN"
  "sum_list (take 4 multiboot2_header) = 0" "drop 4 multiboot2_header = [0, 8]"
  by (simp_all add: multiboot2_header_def HEADER_LEN_def)

section \<open>The processor\<close>

datatype reg32 = EAX | EBX | ECX | EDX | ESP
datatype creg = CR0 | CR3 | CR4
datatype seg = DS | ES | FS | GS | SS
datatype src = Imm u32 | Reg reg32

datatype instr32 =
    Cli | Mov32 reg32 src | Store32 u32 reg32 | Pushfd | Popfd | Push32 src | Pop32 reg32
  | Xor32 reg32 src | Or32 reg32 u32 | Cmp32 reg32 u32 | Test32 reg32 u32 | Cpuid
  | Mov_to_cr creg reg32 | Mov_from_cr reg32 creg | Rdmsr | Wrmsr | Lgdt u32 | Retf

datatype instr64 =
    Mov_ax u16 | Mov_seg seg | Mov_rax_cr creg | Mov_cr_rax creg | And_rax u64 | Or_rax u64
  | Lea_rsp u64 | Call64 u64

text \<open>\<open>cpuid_of\<close> maps a leaf to EAX, EBX, ECX and EDX; \<open>popfd_mask\<close> has the flags that POPFD
  writes, among them, on a processor with CPUID, bit 21.\<close>

record processor =
  cpuid_of :: "u32 \<Rightarrow> u32 \<times> u32 \<times> u32 \<times> u32"
  popfd_mask :: u32

record boot_cpu =
  r32 :: "reg32 \<Rightarrow> u32"
  eflags :: u32
  bcells :: cells
  cr :: "creg \<Rightarrow> u64"
  efer :: u64
  gdtr :: u32
  cs :: u16
  eip :: u32
  dsegs :: "seg \<Rightarrow> u16"
  rax :: u64
  rsp :: u64

text \<open>The arithmetic flags: carry 0, parity 2, adjust 4, zero 6, sign 7 and overflow 11.\<close>

definition ARITH :: u32 where "ARITH = 0x8D5"

definition flag_if :: "bool \<Rightarrow> u32 \<Rightarrow> u32" where "flag_if c b = (if c then b else 0)"

definition even_parity :: "u32 \<Rightarrow> bool" where
  "even_parity r = even (length (filter (bit r) [0..<8]))"

definition result_flags :: "u32 \<Rightarrow> u32" where
  "result_flags r = flag_if (even_parity r) 0x4 OR flag_if (r = 0) 0x40 OR flag_if (bit r 31) 0x80"

definition logic_flags :: "u32 \<Rightarrow> u32 \<Rightarrow> u32" where
  "logic_flags r f = (f AND NOT ARITH) OR result_flags r"

definition sub_flags :: "u32 \<Rightarrow> u32 \<Rightarrow> u32 \<Rightarrow> u32" where
  "sub_flags a b f = (f AND NOT ARITH) OR result_flags (a - b) OR flag_if (a < b) 0x1
     OR flag_if (a AND 0xF < b AND 0xF) 0x10 OR flag_if (bit ((a XOR b) AND (a XOR (a - b))) 31) 0x800"

definition zf :: "boot_cpu \<Rightarrow> bool" where "zf s = bit (eflags s) 6"
definition cf :: "boot_cpu \<Rightarrow> bool" where "cf s = bit (eflags s) 0"

definition val :: "src \<Rightarrow> boot_cpu \<Rightarrow> u32" where
  "val x s = (case x of Imm w \<Rightarrow> w | Reg r \<Rightarrow> r32 s r)"

definition set32 :: "reg32 \<Rightarrow> u32 \<Rightarrow> boot_cpu \<Rightarrow> boot_cpu" where
  "set32 r w s = s\<lparr>r32 := (r32 s)(r := w)\<rparr>"

definition push32 :: "u32 \<Rightarrow> boot_cpu \<Rightarrow> boot_cpu" where
  "push32 w s =
     (let sp = r32 s ESP - 4 in s\<lparr>r32 := (r32 s)(ESP := sp), bcells := (bcells s)(unat sp := w)\<rparr>)"

definition popped :: "boot_cpu \<Rightarrow> u32" where
  "popped s = bcells s (unat (r32 s ESP))"

definition drop32 :: "boot_cpu \<Rightarrow> boot_cpu" where
  "drop32 s = s\<lparr>r32 := (r32 s)(ESP := r32 s ESP + 4)\<rparr>"

text \<open>The number of the extended feature enable register, its bit 8 that asks for long mode and its
  bit 10 by which the processor says that long mode is on: it is when paging is switched on with
  physical address extension.\<close>

definition IA32_EFER :: u32 where "IA32_EFER = 0xC0000080"

definition activate :: "boot_cpu \<Rightarrow> boot_cpu" where
  "activate s =
     (if bit (cr s CR0) 31 \<and> bit (cr s CR4) 5 \<and> bit (efer s) 8 then s\<lparr>efer := efer s OR 0x400\<rparr> else s)"

fun exec32 :: "processor \<Rightarrow> instr32 \<Rightarrow> boot_cpu \<Rightarrow> boot_cpu" where
  "exec32 p Cli s = s\<lparr>eflags := eflags s AND NOT 0x200\<rparr>"
| "exec32 p (Mov32 r x) s = set32 r (val x s) s"
| "exec32 p (Store32 a r) s = s\<lparr>bcells := (bcells s)(unat a := r32 s r)\<rparr>"
| "exec32 p Pushfd s = push32 (eflags s) s"
| "exec32 p Popfd s =
     drop32 (s\<lparr>eflags := (eflags s AND NOT (popfd_mask p)) OR (popped s AND popfd_mask p)\<rparr>)"
| "exec32 p (Push32 x) s = push32 (val x s) s"
| "exec32 p (Pop32 r) s = set32 r (popped s) (drop32 s)"
| "exec32 p (Xor32 r x) s =
     (let w = r32 s r XOR val x s in set32 r w (s\<lparr>eflags := logic_flags w (eflags s)\<rparr>))"
| "exec32 p (Or32 r b) s =
     (let w = r32 s r OR b in set32 r w (s\<lparr>eflags := logic_flags w (eflags s)\<rparr>))"
| "exec32 p (Cmp32 r b) s = s\<lparr>eflags := sub_flags (r32 s r) b (eflags s)\<rparr>"
| "exec32 p (Test32 r b) s = s\<lparr>eflags := logic_flags (r32 s r AND b) (eflags s)\<rparr>"
| "exec32 p Cpuid s =
     (case cpuid_of p (r32 s EAX) of (a, b, c, d) \<Rightarrow>
        s\<lparr>r32 := (r32 s)(EAX := a, EBX := b, ECX := c, EDX := d)\<rparr>)"
| "exec32 p (Mov_to_cr c r) s = activate (s\<lparr>cr := (cr s)(c := ucast (r32 s r))\<rparr>)"
| "exec32 p (Mov_from_cr r c) s = set32 r (ucast (cr s c)) s"
| "exec32 p Rdmsr s =
     (if r32 s ECX = IA32_EFER
      then s\<lparr>r32 := (r32 s)(EAX := ucast (efer s), EDX := ucast (drop_bit 32 (efer s)))\<rparr> else s)"
| "exec32 p Wrmsr s =
     (if r32 s ECX = IA32_EFER
      then s\<lparr>efer := ucast (r32 s EAX) OR push_bit 32 (ucast (r32 s EDX))\<rparr> else s)"
| "exec32 p (Lgdt a) s = s\<lparr>gdtr := a\<rparr>"
| "exec32 p Retf s = drop32 (drop32 (s\<lparr>eip := popped s, cs := ucast (popped (drop32 s))\<rparr>))"

fun exec64 :: "instr64 \<Rightarrow> boot_cpu \<Rightarrow> boot_cpu" where
  "exec64 (Mov_ax w) s = s\<lparr>rax := (rax s AND NOT 0xFFFF) OR ucast w\<rparr>"
| "exec64 (Mov_seg sg) s = s\<lparr>dsegs := (dsegs s)(sg := ucast (rax s))\<rparr>"
| "exec64 (Mov_rax_cr c) s = s\<lparr>rax := cr s c\<rparr>"
| "exec64 (Mov_cr_rax c) s = s\<lparr>cr := (cr s)(c := rax s)\<rparr>"
| "exec64 (And_rax w) s = s\<lparr>rax := rax s AND w\<rparr>"
| "exec64 (Or_rax w) s = s\<lparr>rax := rax s OR w\<rparr>"
| "exec64 (Lea_rsp w) s = s\<lparr>rsp := w\<rparr>"
| "exec64 (Call64 ret) s = s\<lparr>rsp := rsp s - 8, bcells := store64 (unat (rsp s - 8)) ret (bcells s)\<rparr>"

section \<open>The code\<close>

text \<open>What the linker decides: the page tables, the two variables for the boot loader's answer, the
  stacks, the descriptor table and the code addresses that are pushed.\<close>

record layout =
  l_tables :: tables
  mb2_magic :: u32
  mb2_info :: u32
  boot_stack_top :: u32
  stack_top :: u64
  gdt64_pointer :: u32
  long_mode_start :: u32
  hang :: u64

definition start_code :: "layout \<Rightarrow> instr32 list" where
  "start_code l = [Cli, Mov32 ESP (Imm (boot_stack_top l)), Store32 (mb2_magic l) EAX, Store32 (mb2_info l) EBX]"

definition cpuid_check :: "instr32 list" where
  "cpuid_check = [Pushfd, Pop32 EAX, Mov32 ECX (Reg EAX), Xor32 EAX (Imm 0x200000), Push32 (Reg EAX), Popfd,
     Pushfd, Pop32 EAX, Push32 (Reg ECX), Popfd, Xor32 EAX (Reg ECX)]"

definition extended_check :: "instr32 list" where
  "extended_check = [Mov32 EAX (Imm 0x80000000), Cpuid, Cmp32 EAX 0x80000001]"

definition long_mode_check :: "instr32 list" where
  "long_mode_check = [Mov32 EAX (Imm 0x80000001), Cpuid, Test32 EDX (push_bit 29 1)]"

text \<open>The loop over the page directory ends with 512 in ECX.\<close>

definition build_tables :: "layout \<Rightarrow> boot_cpu \<Rightarrow> boot_cpu" where
  "build_tables l s = s\<lparr>bcells := boot_tables (l_tables l) (bcells s),
     r32 := (r32 s)(EAX := 0x83 + 512 * 0x200000, ECX := 512),
     eflags := sub_flags 512 512 (eflags s)\<rparr>"

definition enter_code :: "layout \<Rightarrow> instr32 list" where
  "enter_code l = [Mov32 EAX (Imm (t_pml4 (l_tables l))), Mov_to_cr CR3 EAX,
     Mov_from_cr EAX CR4, Or32 EAX (push_bit 5 1), Mov_to_cr CR4 EAX,
     Mov32 ECX (Imm 0xC0000080), Rdmsr, Or32 EAX (push_bit 8 1), Wrmsr,
     Mov_from_cr EAX CR0, Or32 EAX (push_bit 31 1 OR push_bit 0 1), Mov_to_cr CR0 EAX,
     Lgdt (gdt64_pointer l), Push32 (Imm 0x08), Mov32 EAX (Imm (long_mode_start l)), Push32 (Reg EAX), Retf]"

definition gdt64 :: "u64 list" where
  "gdt64 = [0, 0x00AF9A000000FFFF, 0x00CF92000000FFFF]"

definition long_mode_code :: "layout \<Rightarrow> instr64 list" where
  "long_mode_code l = [Mov_ax 0x10, Mov_seg DS, Mov_seg ES, Mov_seg FS, Mov_seg GS, Mov_seg SS,
     Mov_rax_cr CR0, And_rax 0xFFFFFFFFFFFFFFFB, Or_rax 0x0002, Mov_cr_rax CR0,
     Mov_rax_cr CR4, Or_rax 0x0600, Mov_cr_rax CR4,
     Lea_rsp (stack_top l), Call64 (hang l)]"

text \<open>The far return executes 64-bit code when long mode is on and bit 53 of the descriptor it
  loads, from the table in the register, says so; otherwise the 64-bit instructions would be read
  as 32-bit ones.\<close>

definition sixty_four :: "layout \<Rightarrow> boot_cpu \<Rightarrow> bool" where
  "sixty_four l s \<longleftrightarrow> bit (efer s) 10 \<and> gdtr s = gdt64_pointer l \<and> unat (cs s) div 8 < length gdt64
     \<and> bit (gdt64 ! (unat (cs s) div 8)) 53 \<and> eip s = long_mode_start l"

datatype boot_end = Halted boot_cpu | Wrong_mode boot_cpu | Kernel_main boot_cpu

definition bootstrap :: "processor \<Rightarrow> layout \<Rightarrow> boot_cpu \<Rightarrow> boot_end" where
  "bootstrap p l s =
     (let s = fold (exec32 p) (start_code l @ cpuid_check) s in
      if zf s then Halted s
      else
        let s = fold (exec32 p) extended_check s in
        if cf s then Halted s
        else
          let s = fold (exec32 p) long_mode_check s in
          if zf s then Halted s
          else
            let s = fold (exec32 p) (enter_code l) (build_tables l s) in
            if sixty_four l s then Kernel_main (fold exec64 (long_mode_code l) s) else Wrong_mode s)"

section \<open>The flags\<close>

lemma zf_logic: "bit (logic_flags r f) 6 \<longleftrightarrow> r = 0"
  by (simp add: logic_flags_def result_flags_def flag_if_def ARITH_def bit_simps)

lemma result_flags_arith: "bit (result_flags r) n \<Longrightarrow> bit ARITH n"
proof -
  have "result_flags r AND NOT ARITH = 0" by (simp add: result_flags_def flag_if_def ARITH_def)
  moreover assume "bit (result_flags r) n"
  ultimately show ?thesis by (metis bit_0_eq bit_and_iff bit_not_iff bit_imp_possible_bit bot_apply bot_bool_def)
qed

lemma logic_flags_other: "\<not> bit ARITH n \<Longrightarrow> bit (logic_flags r f) n = bit f n"
  using result_flags_arith [of r n] by (auto simp: logic_flags_def bit_simps dest: bit_imp_le_length)

lemma interrupt_flag_logic: "bit (logic_flags r f) 9 = bit f 9"
  by (rule logic_flags_other) (simp add: ARITH_def)

lemma interrupt_flag_sub: "bit (sub_flags a b f) 9 = bit f 9"
  by (simp add: sub_flags_def result_flags_def flag_if_def ARITH_def bit_simps)

lemma cf_sub: "bit (sub_flags a b f) 0 \<longleftrightarrow> a < b"
  by (simp add: sub_flags_def result_flags_def flag_if_def ARITH_def bit_simps)

text \<open>What POPFD makes of a flags word \<open>w\<close> when the flags are \<open>e\<close>.\<close>

abbreviation popfd :: "processor \<Rightarrow> u32 \<Rightarrow> u32 \<Rightarrow> u32" where
  "popfd p e w \<equiv> (e AND NOT (popfd_mask p)) OR (w AND popfd_mask p)"

lemma xor_zero: "a XOR b = 0 \<longleftrightarrow> a = b" for a b :: u32
  by (metis xor.assoc xor.left_neutral xor.right_neutral xor_self_eq)

lemma toggle_id:
  assumes "ARITH AND NOT (popfd_mask p) = 0"
  shows "popfd p (logic_flags r f) (f XOR 0x200000) = f \<longleftrightarrow> \<not> bit (popfd_mask p) 21"
proof -
  have a: "bit ARITH n \<Longrightarrow> bit (popfd_mask p) n" for n
    using assms by (metis bit_0_eq bit_and_iff bit_not_iff bit_imp_possible_bit bot_apply bot_bool_def)
  have id: "bit (0x200000 :: u32) n \<longleftrightarrow> n = 21" for n
  proof -
    have e: "(0x200000 :: u32) = push_bit 21 1" by simp
    show ?thesis unfolding e by (simp only: bit_push_bit_iff bit_1_iff) auto
  qed
  have b: "bit (popfd p (logic_flags r f) (f XOR 0x200000)) n = (bit f n \<noteq> (n = 21 \<and> bit (popfd_mask p) 21))"
    if "n < 32" for n
    using that a [of n] logic_flags_other [of n r f]
    unfolding bit_or_iff bit_and_iff bit_xor_iff bit_not_iff id by auto
  show ?thesis
  proof
    assume "popfd p (logic_flags r f) (f XOR 0x200000) = f"
    then show "\<not> bit (popfd_mask p) 21" using b [of 21] by (cases "bit f 21") simp_all
  next
    assume "\<not> bit (popfd_mask p) 21"
    then show "popfd p (logic_flags r f) (f XOR 0x200000) = f" using b by (intro bit_word_eqI) simp
  qed
qed

section \<open>The checks\<close>

lemma check_cpuid:
  assumes "ARITH AND NOT (popfd_mask p) = 0" "s' = fold (exec32 p) (start_code l @ cpuid_check) s"
  shows "zf s' \<longleftrightarrow> \<not> bit (popfd_mask p) 21" "\<not> bit (eflags s') 9" "cr s' = cr s" "efer s' = efer s"
    "r32 s' ESP = boot_stack_top l"
    "bcells s' = (bcells s)(unat (mb2_magic l) := r32 s EAX, unat (mb2_info l) := r32 s EBX,
       unat (boot_stack_top l - 4) := eflags s AND NOT 0x200)"
proof -
  let ?f = "eflags s AND NOT 0x200"
  let ?e1 = "logic_flags (?f XOR 0x200000) ?f"
  let ?e2 = "popfd p ?e1 (?f XOR 0x200000)"
  let ?e4 = "logic_flags (?e2 XOR ?f) (popfd p ?e2 ?f)"
  have s': "eflags s' = ?e4" "cr s' = cr s" "efer s' = efer s" "r32 s' ESP = boot_stack_top l"
    "bcells s' = (bcells s)(unat (mb2_magic l) := r32 s EAX, unat (mb2_info l) := r32 s EBX, unat (boot_stack_top l - 4) := ?f)"
    unfolding assms(2) by (simp_all add: start_code_def cpuid_check_def set32_def push32_def popped_def drop32_def val_def Let_def)
  show "zf s' \<longleftrightarrow> \<not> bit (popfd_mask p) 21" unfolding zf_def s'(1) zf_logic xor_zero by (rule toggle_id [OF assms(1)])
  show "\<not> bit (eflags s') 9" unfolding s'(1) by (simp add: interrupt_flag_logic bit_simps)
  show "cr s' = cr s" "efer s' = efer s" "r32 s' ESP = boot_stack_top l"
    "bcells s' = (bcells s)(unat (mb2_magic l) := r32 s EAX, unat (mb2_info l) := r32 s EBX, unat (boot_stack_top l - 4) := ?f)"
    by (fact s')+
qed

lemma check_extended:
  assumes "s' = fold (exec32 p) extended_check s"
  shows "cf s' \<longleftrightarrow> fst (cpuid_of p 0x80000000) < 0x80000001" "cr s' = cr s" "efer s' = efer s"
    "r32 s' ESP = r32 s ESP" "bcells s' = bcells s" "bit (eflags s') 9 = bit (eflags s) 9"
proof -
  obtain a b c d where q: "cpuid_of p 0x80000000 = (a, b, c, d)" by (metis prod.exhaust)
  have s': "eflags s' = sub_flags a 0x80000001 (eflags s)" "cr s' = cr s" "efer s' = efer s" "r32 s' ESP = r32 s ESP"
    "bcells s' = bcells s"
    unfolding assms by (simp_all add: extended_check_def set32_def val_def q)
  show "cf s' \<longleftrightarrow> fst (cpuid_of p 0x80000000) < 0x80000001" unfolding cf_def s'(1) cf_sub by (simp add: q)
  show "bit (eflags s') 9 = bit (eflags s) 9" unfolding s'(1) by (simp add: interrupt_flag_sub)
  show "cr s' = cr s" "efer s' = efer s" "r32 s' ESP = r32 s ESP" "bcells s' = bcells s" by (fact s')+
qed

lemma and_bit: "w AND push_bit n 1 = 0 \<longleftrightarrow> \<not> bit w n" if "n < 32" for w :: u32
  using that by (simp add: and_exp_eq_0_iff_not_bit push_bit_of_1)

lemma check_long_mode:
  assumes "s' = fold (exec32 p) long_mode_check s"
  shows "zf s' \<longleftrightarrow> \<not> bit (snd (snd (snd (cpuid_of p 0x80000001)))) 29" "cr s' = cr s" "efer s' = efer s"
    "r32 s' ESP = r32 s ESP" "bcells s' = bcells s" "bit (eflags s') 9 = bit (eflags s) 9"
proof -
  obtain a b c d where q: "cpuid_of p 0x80000001 = (a, b, c, d)" by (metis prod.exhaust)
  have s': "eflags s' = logic_flags (d AND push_bit 29 1) (eflags s)" "cr s' = cr s" "efer s' = efer s" "r32 s' ESP = r32 s ESP"
    "bcells s' = bcells s"
    unfolding assms by (simp_all add: long_mode_check_def set32_def val_def q)
  show "zf s' \<longleftrightarrow> \<not> bit (snd (snd (snd (cpuid_of p 0x80000001)))) 29"
    unfolding zf_def s'(1) zf_logic by (simp only: q snd_conv and_bit) 
  show "bit (eflags s') 9 = bit (eflags s) 9" unfolding s'(1) by (simp add: interrupt_flag_logic)
  show "cr s' = cr s" "efer s' = efer s" "r32 s' ESP = r32 s ESP" "bcells s' = bcells s" by (fact s')+
qed

section \<open>Entering long mode\<close>

lemma efer_rebuilt:
  "ucast ((ucast e :: u32) OR 0x100) OR push_bit 32 (ucast (ucast (drop_bit 32 e) :: u32)) = e OR 0x100" for e :: u64
proof (rule bit_word_eqI)
  fix n assume "n < LENGTH(64)"
  have h: "bit (0x100 :: u64) n \<longleftrightarrow> n = 8" "bit (0x100 :: u32) n \<longleftrightarrow> n = 8"
  proof -
    have e: "(0x100 :: u64) = push_bit 8 1" "(0x100 :: u32) = push_bit 8 1" by simp_all
    show "bit (0x100 :: u64) n \<longleftrightarrow> n = 8" "bit (0x100 :: u32) n \<longleftrightarrow> n = 8"
      unfolding e by (simp_all only: bit_push_bit_iff bit_1_iff) auto
  qed
  have n: "n < 64" using \<open>n < LENGTH(64)\<close> by simp
  consider "n < 32" | "32 \<le> n" by linarith
  then show "bit ((ucast ((ucast e :: u32) OR 0x100) :: u64) OR push_bit 32 (ucast (ucast (drop_bit 32 e) :: u32))) n = bit (e OR 0x100) n"
  proof cases
    case 1
    then show ?thesis unfolding bit_or_iff bit_push_bit_iff bit_unsigned_iff h by simp
  next
    case 2
    then have "32 + (n - 32) = n" by simp
    then show ?thesis
      unfolding bit_or_iff bit_push_bit_iff bit_unsigned_iff bit_drop_bit_eq o_def h using n 2 by auto
  qed
qed

definition enter_1 :: "layout \<Rightarrow> instr32 list" where
  "enter_1 l = take 11 (enter_code l)"

definition enter_2 :: "layout \<Rightarrow> instr32 list" where
  "enter_2 l = drop 12 (enter_code l)"

lemma enter_split: "enter_code l = enter_1 l @ Mov_to_cr CR0 EAX # enter_2 l"
  by (simp add: enter_1_def enter_2_def enter_code_def)

lemma activate_off: "\<not> bit (cr s CR0) 31 \<Longrightarrow> activate s = s"
  by (simp add: activate_def)

abbreviation cr4_pae :: "boot_cpu \<Rightarrow> u64" where
  "cr4_pae s \<equiv> ucast ((ucast (cr s CR4) :: u32) OR push_bit 5 1)"

abbreviation cr0_pg :: "boot_cpu \<Rightarrow> u64" where
  "cr0_pg s \<equiv> ucast ((ucast (cr s CR0) :: u32) OR (push_bit 31 1 OR push_bit 0 1))"

lemma enter_1:
  assumes "\<not> bit (cr s CR0) 31" "s' = fold (exec32 p) (enter_1 l) s"
  shows "r32 s' EAX = (ucast (cr s CR0) :: u32) OR (push_bit 31 1 OR push_bit 0 1)" "r32 s' ESP = r32 s ESP"
    "cr s' = (cr s)(CR3 := ucast (t_pml4 (l_tables l)), CR4 := cr4_pae s)" "efer s' = efer s OR 0x100"
    "bcells s' = bcells s" "bit (eflags s') 9 = bit (eflags s) 9"
  using assms(1) efer_rebuilt [of "efer s"] unfolding assms(2) enter_1_def enter_code_def
  by (simp_all add: set32_def val_def activate_off IA32_EFER_def Let_def interrupt_flag_logic push_bit_eq_mult)

lemma enter_2:
  assumes "r32 s ESP = boot_stack_top l" "s' = fold (exec32 p) (enter_2 l) s"
  shows "cs s' = 8" "eip s' = long_mode_start l" "gdtr s' = gdt64_pointer l" "cr s' = cr s" "efer s' = efer s"
    "eflags s' = eflags s"
    "bcells s' = (bcells s)(unat (boot_stack_top l - 4) := 8, unat (boot_stack_top l - 8) := long_mode_start l)"
proof -
  have ne: "unat (boot_stack_top l - 4) \<noteq> unat (boot_stack_top l - 8)"
    using unsigned_word_eqI [where ?'a = nat, of "boot_stack_top l - 4" "boot_stack_top l - 8"] by auto
  show "cs s' = 8" "eip s' = long_mode_start l" "gdtr s' = gdt64_pointer l" "cr s' = cr s" "efer s' = efer s"
    "eflags s' = eflags s"
    "bcells s' = (bcells s)(unat (boot_stack_top l - 4) := 8, unat (boot_stack_top l - 8) := long_mode_start l)"
    using assms(1) ne unfolding assms(2) enter_2_def enter_code_def
    by (simp_all add: set32_def val_def push32_def popped_def drop32_def Let_def)
qed

lemma enter_long_mode:
  assumes "\<not> bit (cr s CR0) 31" "r32 s ESP = boot_stack_top l" "s' = fold (exec32 p) (enter_code l) s"
  shows "sixty_four l s'" "cs s' = 8"
    "cr s' = (cr s)(CR3 := ucast (t_pml4 (l_tables l)), CR4 := cr4_pae s, CR0 := cr0_pg s)"
    "bit (efer s') 10" "bit (eflags s') 9 = bit (eflags s) 9"
    "bcells s' = (bcells s)(unat (boot_stack_top l - 4) := 8, unat (boot_stack_top l - 8) := long_mode_start l)"
proof -
  define s1 where "s1 = fold (exec32 p) (enter_1 l) s"
  define s2 where "s2 = exec32 p (Mov_to_cr CR0 EAX) s1"
  note A = enter_1 [OF assms(1) s1_def]
  have crs: "((cr s)(CR3 := ucast (t_pml4 (l_tables l)), CR4 := cr4_pae s, CR0 := cr0_pg s)) CR0 = cr0_pg s"
    "((cr s)(CR3 := ucast (t_pml4 (l_tables l)), CR4 := cr4_pae s, CR0 := cr0_pg s)) CR4 = cr4_pae s" by simp_all
  have on: "bit (cr0_pg s) 31" "bit (cr4_pae s) 5" "bit (efer s OR 0x100) 8" by (simp_all add: bit_simps)
  have B: "s2 = s1\<lparr>cr := (cr s)(CR3 := ucast (t_pml4 (l_tables l)), CR4 := cr4_pae s, CR0 := cr0_pg s),
      efer := (efer s OR 0x100) OR 0x400\<rparr>"
    unfolding s2_def exec32.simps activate_def A(1,3,4) using on by (simp add: A crs)
  have s': "s' = fold (exec32 p) (enter_2 l) s2"
    unfolding assms(3) enter_split s2_def s1_def by simp
  have "r32 s2 ESP = boot_stack_top l" using A(2) assms(2) by (simp add: B)
  note C = enter_2 [OF this s']
  show "cs s' = 8" by (rule C(1))
  show "cr s' = (cr s)(CR3 := ucast (t_pml4 (l_tables l)), CR4 := cr4_pae s, CR0 := cr0_pg s)" by (simp add: C B)
  show e: "bit (efer s') 10" by (simp add: C B bit_simps)
  show "sixty_four l s'" unfolding sixty_four_def using e by (simp add: C gdt64_def)
  show "bit (eflags s') 9 = bit (eflags s) 9" using A(6) by (simp add: C B)
  show "bcells s' = (bcells s)(unat (boot_stack_top l - 4) := 8, unat (boot_stack_top l - 8) := long_mode_start l)"
    using A(5) by (simp add: C B)
qed

lemma run_long_mode:
  assumes "s' = fold exec64 (long_mode_code l) s"
  shows "dsegs s' = (\<lambda>_. 0x10)" "cs s' = cs s" "efer s' = efer s" "eflags s' = eflags s" "rsp s' = stack_top l - 8"
    "cr s' = (cr s)(CR0 := (cr s CR0 AND 0xFFFFFFFFFFFFFFFB) OR 2, CR4 := cr s CR4 OR 0x600)"
    "bcells s' = store64 (unat (stack_top l - 8)) (hang l) (bcells s)"
proof -
  have ax: "(ucast ((r AND NOT 0xFFFF) OR ucast (0x10 :: u16)) :: u16) = 0x10" for r :: u64
  proof -
    have m: "(0xFFFF :: u64) = mask 16" by (simp add: mask_eq_exp_minus_1)
    have z: "(ucast ((r AND NOT (mask 16)) OR w) :: u16) = ucast w" for w :: u64
      by (rule bit_word_eqI) (auto simp: bit_simps)
    show ?thesis unfolding m z by simp
  qed
  show "dsegs s' = (\<lambda>_. 0x10)" unfolding assms long_mode_code_def
    by (rule ext, rename_tac sg, case_tac sg) (simp_all add: ax [simplified])
  show "cs s' = cs s" "efer s' = efer s" "eflags s' = eflags s" "rsp s' = stack_top l - 8"
    "cr s' = (cr s)(CR0 := (cr s CR0 AND 0xFFFFFFFFFFFFFFFB) OR 2, CR4 := cr s CR4 OR 0x600)"
    "bcells s' = store64 (unat (stack_top l - 8)) (hang l) (bcells s)"
    unfolding assms long_mode_code_def by (simp_all add: fun_upd_twist)
qed

section \<open>The way to \<open>kernel_main\<close>\<close>

text \<open>The cells that the code writes besides the tables are apart from these, and the boot loader's
  answer is apart from the stacks.\<close>

definition written :: "layout \<Rightarrow> nat list" where
  "written l = [unat (mb2_magic l), unat (mb2_info l), unat (boot_stack_top l - 4), unat (boot_stack_top l - 8),
     unat (stack_top l - 8), unat (stack_top l - 8) + 4]"

definition layout_ok :: "layout \<Rightarrow> bool" where
  "layout_ok l \<longleftrightarrow> tables_ok (l_tables l) \<and> distinct (written l)
     \<and> list_all (\<lambda>a. list_all (\<lambda>p. a < unat p \<or> unat p + 4096 \<le> a)
          [t_pml4 (l_tables l), t_pdpt (l_tables l), t_pd (l_tables l)]) (written l)"

definition long_mode_cpu :: "processor \<Rightarrow> bool" where
  "long_mode_cpu p \<longleftrightarrow> bit (popfd_mask p) 21 \<and> 0x80000001 \<le> fst (cpuid_of p 0x80000000)
     \<and> bit (snd (snd (snd (cpuid_of p 0x80000001)))) 29"

lemma entries_agree:
  assumes "\<forall>x < 4096. m' (p + x) = m (p + x)" "i < 512"
  shows "entry m' p i = entry m p i"
  using assms(1) [rule_format, of "i * 8"] assms(1) [rule_format, of "i * 8 + 4"] assms(2)
  by (intro entry_cong) (simp_all add: add.assoc)

abbreviation table_pages :: "layout \<Rightarrow> u32 set" where
  "table_pages l \<equiv> {t_pml4 (l_tables l), t_pdpt (l_tables l), t_pd (l_tables l)}"

lemma written_out:
  assumes "layout_ok l" "a \<in> set (written l)" "p \<in> table_pages l"
  shows "a < unat p \<or> unat p + 4096 \<le> a"
proof -
  have "list_all (\<lambda>p. a < unat p \<or> unat p + 4096 \<le> a) [t_pml4 (l_tables l), t_pdpt (l_tables l), t_pd (l_tables l)]"
    using assms(1,2) by (simp add: layout_ok_def list_all_iff)
  then show ?thesis using assms(3) by auto
qed

lemma outside_tables:
  assumes "layout_ok l" "\<forall>a. a \<notin> set (written l) \<longrightarrow> m' a = m a" "p \<in> table_pages l" "x < 4096"
  shows "m' (unat p + x) = m (unat p + x)"
proof -
  have "unat p + x \<notin> set (written l)" using written_out [OF assms(1) _ assms(3), of "unat p + x"] assms(4) by auto
  then show ?thesis using assms(2) by blast
qed

lemma maps_outside:
  assumes "layout_ok l" "\<forall>a. a \<notin> set (written l) \<longrightarrow> m' a = m a" "maps_gigabytes (l_tables l) {} m"
  shows "maps_gigabytes (l_tables l) {} m'"
proof -
  have "entry m' (unat p) i = entry m (unat p) i" if "p \<in> table_pages l" "i < 512" for p i
    using that by (intro entries_agree allI impI outside_tables [OF assms(1,2)])
  then show ?thesis using assms(3) by (simp add: maps_gigabytes_def)
qed

lemma zero_outside:
  assumes "layout_ok l" "\<forall>a. a \<notin> set (written l) \<longrightarrow> m' a = m a" "tables_zero (l_tables l) m"
  shows "tables_zero (l_tables l) m'"
proof -
  have "entry m' (unat p) i = entry m (unat p) i" if "p \<in> table_pages l" "i < 512" for p i
    using that by (intro entries_agree allI impI outside_tables [OF assms(1,2)])
  then show ?thesis using assms(3) by (simp add: tables_zero_def)
qed

lemma written_kept:
  assumes "layout_ok l" "a \<in> set (written l)"
  shows "boot_tables (l_tables l) m a = m a"
proof -
  note out = written_out [OF assms]
  have "\<forall>i < 1024. a \<noteq> unat (t_pd (l_tables l)) + i * 4" using out [of "t_pd (l_tables l)"] by auto
  from boot_other [OF this] show ?thesis
    using out [of "t_pml4 (l_tables l)"] out [of "t_pdpt (l_tables l)"] by auto
qed

lemma unat_up: "unat (ucast w :: u64) = unat w" for w :: u32
  using u32_less [of w] by (simp add: unsigned_ucast_eq take_bit_nat_eq_self)

text \<open>The checks, and what they leave when all succeed.\<close>

lemma bootstrap_halts:
  assumes "ARITH AND NOT (popfd_mask p) = 0" "\<not> long_mode_cpu p"
  shows "\<exists>s'. bootstrap p l s = Halted s' \<and> cr s' = cr s \<and> efer s' = efer s"
proof -
  define s1 where "s1 = fold (exec32 p) (start_code l @ cpuid_check) s"
  define s2 where "s2 = fold (exec32 p) extended_check s1"
  define s3 where "s3 = fold (exec32 p) long_mode_check s2"
  note A = check_cpuid [OF assms(1) s1_def] and B = check_extended [OF s2_def] and C = check_long_mode [OF s3_def]
  have "bootstrap p l s = (if zf s1 then Halted s1 else if cf s2 then Halted s2 else if zf s3 then Halted s3
      else bootstrap p l s)"
    unfolding bootstrap_def Let_def s1_def [symmetric] s2_def [symmetric] s3_def [symmetric] by simp
  moreover have "zf s1 \<or> cf s2 \<or> zf s3" using assms(2) A(1) B(1) C(1) by (auto simp: long_mode_cpu_def not_le)
  ultimately show ?thesis using A B C by metis
qed

lemma bootstrap_runs:
  assumes "ARITH AND NOT (popfd_mask p) = 0" "long_mode_cpu p" "\<not> bit (cr s CR0) 31"
  shows "\<exists>s3 s'. bootstrap p l s = Kernel_main s' \<and> s' = fold exec64 (long_mode_code l) (fold (exec32 p) (enter_code l) (build_tables l s3))
    \<and> cr s3 = cr s \<and> r32 s3 ESP = boot_stack_top l \<and> \<not> bit (eflags s3) 9
    \<and> bcells s3 = (bcells s)(unat (mb2_magic l) := r32 s EAX, unat (mb2_info l) := r32 s EBX,
       unat (boot_stack_top l - 4) := eflags s AND NOT 0x200)"
proof -
  define s1 where "s1 = fold (exec32 p) (start_code l @ cpuid_check) s"
  define s2 where "s2 = fold (exec32 p) extended_check s1"
  define s3 where "s3 = fold (exec32 p) long_mode_check s2"
  define s4 where "s4 = fold (exec32 p) (enter_code l) (build_tables l s3)"
  note A = check_cpuid [OF assms(1) s1_def] and B = check_extended [OF s2_def] and C = check_long_mode [OF s3_def]
  have go: "\<not> zf s1" "\<not> cf s2" "\<not> zf s3" using assms(2) A(1) B(1) C(1) by (auto simp: long_mode_cpu_def not_le)
  have "\<not> bit (cr (build_tables l s3) CR0) 31" "r32 (build_tables l s3) ESP = boot_stack_top l"
    using A B C assms(3) by (simp_all add: build_tables_def)
  from enter_long_mode(1) [OF this s4_def] have "sixty_four l s4" .
  then have b: "bootstrap p l s = Kernel_main (fold exec64 (long_mode_code l) s4)"
    unfolding bootstrap_def Let_def s1_def [symmetric] s2_def [symmetric] s3_def [symmetric] s4_def [symmetric] using go by simp
  have "cr s3 = cr s" "r32 s3 ESP = boot_stack_top l" "\<not> bit (eflags s3) 9"
    "bcells s3 = (bcells s)(unat (mb2_magic l) := r32 s EAX, unat (mb2_info l) := r32 s EBX,
       unat (boot_stack_top l - 4) := eflags s AND NOT 0x200)"
    using A B C by simp_all
  with b show ?thesis unfolding s4_def by blast
qed

text \<open>C10. From the boot loader's jump, in protected mode without paging, the entry code ends in one of
  two ways. On a processor with CPUID and long mode it calls \<open>kernel_main\<close> in long mode: paging,
  protection and physical address extension are on and the tables translate exactly the first
  gigabyte, to itself; the floating-point bits are set as SSE needs them; the segments are those
  of the kernel's table, interrupts are off, the stack holds the return address at its top, and
  the boot loader's magic number and information address are saved. On any other processor it
  halts and no control register has changed.\<close>

theorem boot_reaches_kernel:
  assumes "layout_ok l" "tables_zero (l_tables l) (bcells s)" "\<not> bit (cr s CR0) 31" "ARITH AND NOT (popfd_mask p) = 0"
  shows "case bootstrap p l s of
      Kernel_main s' \<Rightarrow> long_mode_cpu p
        \<and> bit (efer s') 10 \<and> bit (cr s' CR0) 31 \<and> bit (cr s' CR0) 0 \<and> bit (cr s' CR4) 5
        \<and> (\<forall>va < 2 ^ 48. translate (bcells s') (unat (cr s' CR3)) va = (if va < 2 ^ 30 then Some va else None))
        \<and> bit (cr s' CR0) 1 \<and> \<not> bit (cr s' CR0) 2 \<and> bit (cr s' CR4) 9 \<and> bit (cr s' CR4) 10
        \<and> cs s' = 8 \<and> dsegs s' = (\<lambda>_. 0x10) \<and> \<not> bit (eflags s') 9
        \<and> rsp s' = stack_top l - 8 \<and> bcells s' (unat (stack_top l - 8)) = ucast (hang l)
        \<and> bcells s' (unat (mb2_magic l)) = r32 s EAX \<and> bcells s' (unat (mb2_info l)) = r32 s EBX
    | Halted s' \<Rightarrow> \<not> long_mode_cpu p \<and> cr s' = cr s \<and> efer s' = efer s
    | Wrong_mode s' \<Rightarrow> False"
proof (cases "long_mode_cpu p")
  case False
  then obtain s' where "bootstrap p l s = Halted s'" "cr s' = cr s" "efer s' = efer s"
    using bootstrap_halts [OF assms(4), of l s] by blast
  with False show ?thesis by simp
next
  case True
  let ?t = "l_tables l" and ?top = "boot_stack_top l"
  let ?m1 = "(bcells s)(unat (mb2_magic l) := r32 s EAX, unat (mb2_info l) := r32 s EBX, unat (?top - 4) := eflags s AND NOT 0x200)"
  let ?m2 = "boot_tables ?t ?m1"
  let ?m3 = "?m2(unat (?top - 4) := 8, unat (?top - 8) := long_mode_start l)"
  let ?m4 = "store64 (unat (stack_top l - 8)) (hang l) ?m3"
  obtain s3 s' where r: "bootstrap p l s = Kernel_main s'"
    "s' = fold exec64 (long_mode_code l) (fold (exec32 p) (enter_code l) (build_tables l s3))"
    "cr s3 = cr s" "r32 s3 ESP = ?top" "\<not> bit (eflags s3) 9" "bcells s3 = ?m1"
    using bootstrap_runs [OF assms(4) True assms(3), of l] by blast
  define s4 where "s4 = fold (exec32 p) (enter_code l) (build_tables l s3)"
  have pre: "\<not> bit (cr (build_tables l s3) CR0) 31" "r32 (build_tables l s3) ESP = ?top"
    "cr (build_tables l s3) = cr s" "bcells (build_tables l s3) = ?m2" "\<not> bit (eflags (build_tables l s3)) 9"
    using r(3-6) assms(3) by (simp_all add: build_tables_def interrupt_flag_sub)
  note E = enter_long_mode [OF pre(1,2) s4_def]
  have s': "s' = fold exec64 (long_mode_code l) s4" unfolding s4_def by (rule r(2))
  note L = run_long_mode [OF s']
  have m: "bcells s' = ?m4" unfolding L(7) E(6) pre(4) ..
  have m1: "\<forall>a. a \<notin> set (written l) \<longrightarrow> ?m1 a = bcells s a" by (simp add: written_def)
  have m4: "\<forall>a. a \<notin> set (written l) \<longrightarrow> ?m4 a = ?m2 a" by (simp add: written_def store64_def)
  have t: "tables_ok ?t" using assms(1) by (simp add: layout_ok_def)
  have maps: "maps_gigabytes ?t {} (bcells s')"
    unfolding m by (rule maps_outside [OF assms(1) m4 boot_maps [OF t zero_outside [OF assms(1) m1 assms(2)]]])
  have crs: "cr s' CR0 = (cr0_pg s AND 0xFFFFFFFFFFFFFFFB) OR 2" "cr s' CR4 = cr4_pae s OR 0x600" "cr s' CR3 = ucast (t_pml4 ?t)"
    unfolding L(6) E(3) pre(3) by simp_all
  have tr: "\<forall>va < 2 ^ 48. translate (bcells s') (unat (cr s' CR3)) va = (if va < 2 ^ 30 then Some va else None)"
    using translate_maps [OF t maps] unfolding crs by (simp add: unat_up)
  have bits: "bit (cr s' CR0) 31" "bit (cr s' CR0) 0" "bit (cr s' CR0) 1" "\<not> bit (cr s' CR0) 2"
    "bit (cr s' CR4) 5" "bit (cr s' CR4) 9" "bit (cr s' CR4) 10"
    unfolding crs by (simp_all add: bit_simps)
  have d: "distinct (written l)" using assms(1) by (simp add: layout_ok_def)
  have kept: "?m2 (unat (mb2_magic l)) = r32 s EAX" "?m2 (unat (mb2_info l)) = r32 s EBX"
    using written_kept [OF assms(1), of "unat (mb2_magic l)" ?m1] written_kept [OF assms(1), of "unat (mb2_info l)" ?m1] d
    by (simp_all add: written_def)
  have vars: "bcells s' (unat (mb2_magic l)) = r32 s EAX" "bcells s' (unat (mb2_info l)) = r32 s EBX"
    "bcells s' (unat (stack_top l - 8)) = ucast (hang l)"
    unfolding m store64_def using kept d by (auto simp: written_def)
  show ?thesis
    unfolding r(1) boot_end.case using True E(2,4,5) pre(5) L(1-5) bits tr vars by simp
qed

text \<open>A processor with long mode and one without, and a kernel linked at one megabyte.\<close>

definition sample_cpu :: processor where
  "sample_cpu = \<lparr>cpuid_of = (\<lambda>leaf. if leaf = 0x80000000 then (0x80000008, 0, 0, 0) else (0, 0, 0, 0x20000000)),
     popfd_mask = 0x277FD5\<rparr>"

definition old_cpu :: processor where
  "old_cpu = sample_cpu\<lparr>popfd_mask := 0x77FD5\<rparr>"

definition sample_layout :: layout where
  "sample_layout = \<lparr>l_tables = \<lparr>t_pml4 = 0x110000, t_pdpt = 0x111000, t_pd = 0x112000\<rparr>, mb2_magic = 0x10F000,
     mb2_info = 0x10F004, boot_stack_top = 0x117000, stack_top = 0x157000, gdt64_pointer = 0x10E018,
     long_mode_start = 0x1000C0, hang = 0x100110\<rparr>"

definition sample_boot :: boot_cpu where
  "sample_boot = \<lparr>r32 = (\<lambda>_. 0)(EAX := 0x36D76289, EBX := 0x9500), eflags = 2, bcells = (\<lambda>_. 0), cr = (\<lambda>_. 0)(CR0 := 0x11),
     efer = 0, gdtr = 0, cs = 8, eip = 0x100000, dsegs = (\<lambda>_. 0x10), rax = 0, rsp = 0\<rparr>"

theorem boot_reaches_kernel_witness:
  "(\<exists>s'. bootstrap sample_cpu sample_layout sample_boot = Kernel_main s' \<and> bit (efer s') 10
     \<and> bcells s' 0x10F000 = 0x36D76289)
   \<and> (\<exists>s'. bootstrap old_cpu sample_layout sample_boot = Halted s' \<and> cr s' CR0 = 0x11)"
proof -
  have l: "layout_ok sample_layout"
    by (simp add: layout_ok_def sample_layout_def written_def tables_ok_def)
  have z: "tables_zero (l_tables sample_layout) (bcells sample_boot)"
    by (simp add: tables_zero_def entry_def sample_boot_def)
  have c: "\<not> bit (cr sample_boot CR0) 31" by (simp add: sample_boot_def)
  have p: "ARITH AND NOT (popfd_mask sample_cpu) = 0" "ARITH AND NOT (popfd_mask old_cpu) = 0"
    by (simp_all add: ARITH_def old_cpu_def sample_cpu_def)
  have "long_mode_cpu sample_cpu" "\<not> long_mode_cpu old_cpu"
    by (simp_all add: long_mode_cpu_def old_cpu_def sample_cpu_def)
  moreover have "unat (mb2_magic sample_layout) = 0x10F000" "r32 sample_boot EAX = 0x36D76289" "cr sample_boot CR0 = 0x11"
    by (simp_all add: sample_layout_def sample_boot_def)
  ultimately show ?thesis
    using boot_reaches_kernel [OF l z c p(1)] boot_reaches_kernel [OF l z c p(2)] by (auto split: boot_end.splits)
qed

end
