(* ===== verification/KernelMain.thy ===== *)
theory KernelMain
  imports FrameBitmap HeapSafety Scheduler Mouse Nic Ata Vga Descriptors
begin

text \<open>
  \<open>kernel_main\<close> of \<^verbatim>\<open>src/main.rs\<close>: the order in which the components are started, with
  the state each of them leaves, up to the moment when interrupts are enabled and the shell takes
  over; the loading of the descriptor tables (\<open>init\<close> of \<^verbatim>\<open>src/gdt.rs\<close> and
  \<^verbatim>\<open>src/idt.rs\<close> with their routines in \<^verbatim>\<open>src/asm.rs\<close>); and the screens of
  the panic and allocation-error handlers.
\<close>

section \<open>State and devices\<close>

text \<open>What the components keep, the registers that the table loaders set, the port writes and the
  lines that \<open>kernel_main\<close> itself prints, in order.\<close>

record kernel =
  k_ports :: "io_write list"
  k_lines :: "string list"
  k_gdt :: "u8 list"
  k_tss :: "u8 list"
  k_gdtr :: "u8 list"
  k_selectors :: "u16 \<times> u16 \<times> u16"
  k_idt :: "u8 list list"
  k_idtr :: "u8 list"
  k_pic :: "pic \<times> pic"
  k_heap :: balloc
  k_frames :: frames
  k_screen :: vga
  k_mouse :: mouse
  k_rtl :: rtl
  k_net :: NetStatus
  k_cfg :: "NetConfig option"
  k_ata :: bool
  k_sched :: sched
  k_interrupts :: bool

text \<open>What the linker and the devices decide: addresses, the mouse's replies, the configuration
  space of the PCI bus with what the network chip answers, and the status of the drive.\<close>

record devices =
  handler :: "nat \<Rightarrow> u64"
  df_stack_top :: u64
  tss_addr :: u64
  gdt_addr :: u64
  idt_addr :: u64
  heap_base :: nat
  mouse_replies :: "u8 option list"
  pci_space :: "u32 \<Rightarrow> u32"
  cr_reads :: "u8 list"
  mac_low :: u32
  mac_high :: u16
  rx_addr :: u32
  cbr :: u16
  ata_status :: u8

definition ports :: "io_write list \<Rightarrow> kernel \<Rightarrow> kernel" where
  "ports ws k = k\<lparr>k_ports := k_ports k @ ws\<rparr>"

definition say :: "string \<Rightarrow> kernel \<Rightarrow> kernel" where
  "say s k = k\<lparr>k_lines := k_lines k @ [s]\<rparr>"

section \<open>The descriptor tables\<close>

text \<open>The routines of \<^verbatim>\<open>src/asm.rs\<close>: \<open>load_gdt\<close> and \<open>load_idt\<close> set the table registers,
  \<open>reload_segments\<close> the data segments and, by a far return, the code segment, \<open>load_tss\<close> the task
  register.\<close>

definition load_gdt :: "u8 list \<Rightarrow> kernel \<Rightarrow> kernel" where
  "load_gdt p k = k\<lparr>k_gdtr := p\<rparr>"

definition reload_segments :: "kernel \<Rightarrow> kernel" where
  "reload_segments k = (case k_selectors k of (_, _, tr) \<Rightarrow> k\<lparr>k_selectors := (0x08, 0x10, tr)\<rparr>)"

definition load_tss :: "kernel \<Rightarrow> kernel" where
  "load_tss k = (case k_selectors k of (code, data, _) \<Rightarrow> k\<lparr>k_selectors := (code, data, 0x28)\<rparr>)"

definition load_idt :: "u8 list \<Rightarrow> kernel \<Rightarrow> kernel" where
  "load_idt p k = k\<lparr>k_idtr := p\<rparr>"

definition gdt_init :: "devices \<Rightarrow> kernel \<Rightarrow> kernel" where
  "gdt_init e k =
     (let k = k\<lparr>k_tss := tss_bytes (df_stack_top e), k_gdt := gdt_bytes (tss_addr e)\<rparr>
      in load_tss (reload_segments (load_gdt (gdt_pointer (gdt_addr e) (tss_addr e)) k)))"

definition IDT_LEN :: nat where "IDT_LEN = 256"

definition start_idt :: "devices \<Rightarrow> kernel \<Rightarrow> kernel" where
  "start_idt e k = load_idt (le16 (of_nat (IDT_LEN * 16 - 1)) @ le64 (idt_addr e)) (k\<lparr>k_idt := idt_init (handler e)\<rparr>)"

definition init_pic :: "kernel \<Rightarrow> kernel" where
  "init_pic k = ports pic_init (k\<lparr>k_pic := pics pic_init (k_pic k)\<rparr>)"

section \<open>Starting the components\<close>

fun mouse_port :: "port_write \<Rightarrow> io_write" where
  "mouse_port (To_command b) = OutB 0x64 b"
| "mouse_port (To_data b) = OutB 0x60 b"

definition start_mouse :: "devices \<Rightarrow> kernel \<Rightarrow> kernel" where
  "start_mouse e k =
     (case mouse_init (k_mouse k) (mouse_replies e) of
        (m, ws) \<Rightarrow> ports (map mouse_port ws) (k\<lparr>k_mouse := m\<rparr>))"

text \<open>The check of the heap pushes one byte to a new vector, which asks for eight, and drops it.
  \<open>None\<close> is the allocation error.\<close>

definition heap_check :: "kernel \<Rightarrow> kernel option" where
  "heap_check k =
     (case global_alloc (k_heap k) 8 1 of
        None \<Rightarrow> None
      | Some (p, h) \<Rightarrow>
          if p = 0 then None
          else map_option (\<lambda>h. say ''Heap alloc test: OK (42)'' (k\<lparr>k_heap := h\<rparr>)) (global_dealloc h p 8))"

text \<open>\<open>None\<close> while the network chip resets.\<close>

definition start_net :: "devices \<Rightarrow> kernel \<Rightarrow> kernel option" where
  "start_net e k =
     (case net_init (pci_space e) (cr_reads e) (mac_low e) (mac_high e) (rx_addr e) (cbr e) (k_rtl k) of
        None \<Rightarrow> None
      | Some (st, ws, rtl) \<Rightarrow>
          Some (ports ws (k\<lparr>k_net := (case st of Some st \<Rightarrow> st | None \<Rightarrow> k_net k), k_rtl := rtl\<rparr>)))"

definition fallback_config :: NetConfig where
  "fallback_config = \<lparr>cfg_ip = [10, 0, 2, 15], cfg_subnet = [255, 255, 255, 0], cfg_gateway = [10, 0, 2, 2],
     cfg_dns = [8, 8, 8, 8]\<rparr>"

definition configure_net :: "kernel \<Rightarrow> kernel" where
  "configure_net k =
     (if nic_kind (k_net k) \<noteq> NicNone
      then (say ''Network available. Use 'dhcp' command to configure.'' k)\<lparr>k_cfg := Some fallback_config\<rparr>
      else k)"

definition before_heap_check :: "devices \<Rightarrow> kernel \<Rightarrow> kernel" where
  "before_heap_check e k =
     (let k = ports serial_init k;
          k = gdt_init e k;
          k = start_idt e k;
          k = init_pic k;
          k = ports timer_init k;
          k = k\<lparr>k_heap := init_heap (heap_base e)\<rparr>;
          k = k\<lparr>k_frames := paging_init (k_frames k)\<rparr>;
          k = k\<lparr>k_screen := vga_init (k_screen k)\<rparr>;
          k = start_mouse e k;
          k = say ''Rust Kernel (x86_64) - boot OK'' k
      in say (''Heap: '' @ decimal (HEAP_SIZE div 1024) @ '' KiB'') k)"

text \<open>The interrupt flag, which \<open>sti\<close> sets and \<open>cli\<close> clears.\<close>

definition enable_interrupts :: "kernel \<Rightarrow> kernel" where
  "enable_interrupts k = k\<lparr>k_interrupts := True\<rparr>"

definition disable_interrupts :: "kernel \<Rightarrow> kernel" where
  "disable_interrupts k = k\<lparr>k_interrupts := False\<rparr>"

declare enable_interrupts_def [simp]

definition kernel_main :: "devices \<Rightarrow> kernel \<Rightarrow> kernel option" where
  "kernel_main e k =
     Option.bind (heap_check (before_heap_check e k)) (\<lambda>k.
     Option.bind (start_net e k) (\<lambda>k.
       let k = say ''Network init: OK'' k;
           k = k\<lparr>k_ata := ata_init (ata_status e) (k_ata k)\<rparr>;
           k = configure_net k;
           k = k\<lparr>k_sched := sched_init (k_sched k)\<rparr>;
           k = enable_interrupts k;
           k = say ''Interrupts enabled'' k
       in Some (say ''Type 'help' for commands.'' k)))"

section \<open>Panics\<close>

definition panic_banner :: "vga \<Rightarrow> vga" where
  "panic_banner v =
     set_color LightGray Black (vga_write_at 2 30 (text_bytes ''KERNEL PANIC'') (clear_screen (set_color White Red v)))"

definition alloc_error_text :: "nat \<Rightarrow> nat \<Rightarrow> balloc \<Rightarrow> string list" where
  "alloc_error_text sz align h =
     [''ALLOC FAILED: size='' @ decimal sz @ '' align='' @ decimal align @ '' heap: ''
        @ decimal (fst (heap_stats h)) @ ''/'' @ decimal HEAP_SIZE]"

definition alloc_error_screen :: "nat \<Rightarrow> nat \<Rightarrow> balloc \<Rightarrow> vga \<Rightarrow> vga" where
  "alloc_error_screen sz align h v =
     (let nl = [10] in
      vga_write_fmt [text_bytes (''Heap: '' @ decimal (fst (heap_stats h)) @ ''/'' @ decimal HEAP_SIZE @ '' bytes used''), nl]
        (vga_write_fmt [text_bytes (''Size: '' @ decimal sz @ '' bytes, Align: '' @ decimal align), nl]
          (vga_write_fmt [nl, text_bytes ''Allocation failed!'', nl] (panic_banner v))))"

text \<open>The location, when the panic has one, is its file and line.\<close>

definition panic_screen :: "string \<Rightarrow> (string \<times> nat) option \<Rightarrow> vga \<Rightarrow> vga" where
  "panic_screen info loc v =
     (let nl = [10]; v = vga_write_fmt [nl, text_bytes info, nl] (panic_banner v) in
      case loc of
        None \<Rightarrow> v
      | Some (file, line) \<Rightarrow> vga_write_fmt [text_bytes (''at '' @ file @ '':'' @ decimal line), nl] v)"

section \<open>What the shell finds\<close>

lemma heap_check_ok:
  assumes "heap_placed start" "k_heap k = init_heap start"
  shows "\<exists>h. heap_check k = Some (say ''Heap alloc test: OK (42)'' (k\<lparr>k_heap := h\<rparr>)) \<and> heap_reachable start h []"
proof -
  have bi: "bucket_index (max 8 8) = Some 0" "max 1 8 \<le> BUCKET_SIZES ! 0" by (simp_all add: bucket_index_def BUCKET_SIZES_def)
  have lay: "layout_ok 8 1" by (auto simp: layout_ok_def intro: exI [of _ 0])
  from first_alloc [OF assms(1) lay bi] obtain p a where a: "balloc_alloc (init_heap start) 8 1 = Some (Some p, a)"
    "heap_reachable start a [(p, 8, 1)]" by blast
  obtain fls rs where inv: "heap_inv a fls rs [(p, 8, 1)]" using heap_reachable_inv [OF assms(1) a(2)] by blast
  then have p: "p \<noteq> 0" by (simp add: heap_inv_def held_ok_def)
  obtain h where h: "balloc_dealloc a p 8 = Some h" using free_step [OF inv, of p 8 1] by auto
  have "heap_step (a, [(p, 8, 1)]) (h, remove1 (p, 8, 1) [(p, 8, 1)])" using h by (intro heap_step.step_free) simp_all
  then have "heap_reachable start h []" using a(2) unfolding heap_reachable_def by simp
  with a(1) h p assms(2) show ?thesis
    by (intro exI [of _ h]) (simp add: heap_check_def global_alloc_def global_dealloc_def non_null_def)
qed

lemma say_fields [simp]:
  "k_heap (say s k) = k_heap k" "k_frames (say s k) = k_frames k" "k_idt (say s k) = k_idt k" "k_gdt (say s k) = k_gdt k"
  "k_pic (say s k) = k_pic k" "k_cfg (say s k) = k_cfg k" "k_sched (say s k) = k_sched k" "k_net (say s k) = k_net k" "k_selectors (say s k) = k_selectors k"
  "k_interrupts (say s k) = k_interrupts k"
  by (simp_all add: say_def)

lemma ports_fields [simp]:
  "k_heap (ports ws k) = k_heap k" "k_frames (ports ws k) = k_frames k" "k_idt (ports ws k) = k_idt k"
  "k_gdt (ports ws k) = k_gdt k" "k_pic (ports ws k) = k_pic k" "k_cfg (ports ws k) = k_cfg k"
  "k_sched (ports ws k) = k_sched k" "k_net (ports ws k) = k_net k" "k_selectors (ports ws k) = k_selectors k"
  by (simp_all add: ports_def)

lemma configure_net_fields [simp]:
  "k_heap (configure_net k) = k_heap k" "k_frames (configure_net k) = k_frames k" "k_idt (configure_net k) = k_idt k"
  "k_gdt (configure_net k) = k_gdt k" "k_pic (configure_net k) = k_pic k" "k_sched (configure_net k) = k_sched k"
  "k_net (configure_net k) = k_net k" "k_selectors (configure_net k) = k_selectors k"
  "k_cfg (configure_net k) = (if nic_kind (k_net k) = NicNone then k_cfg k else Some fallback_config)"
  by (simp_all add: configure_net_def)

text \<open>The state when the heap is checked: its fields, each set by one of the steps.\<close>

lemma gdt_init_fields [simp]:
  "k_heap (gdt_init e k) = k_heap k" "k_frames (gdt_init e k) = k_frames k" "k_idt (gdt_init e k) = k_idt k"
  "k_gdt (gdt_init e k) = gdt_bytes (tss_addr e)" "k_selectors (gdt_init e k) = (0x08, 0x10, 0x28)"
  "k_pic (gdt_init e k) = k_pic k" "k_cfg (gdt_init e k) = k_cfg k" "k_sched (gdt_init e k) = k_sched k"
  by (simp_all add: gdt_init_def load_gdt_def reload_segments_def load_tss_def Let_def split: prod.split)

lemma before_heap_check_fields:
  "k_heap (before_heap_check e k) = init_heap (heap_base e)" "k_frames (before_heap_check e k) = paging_init (k_frames k)"
  "k_idt (before_heap_check e k) = idt_init (handler e)" "k_gdt (before_heap_check e k) = gdt_bytes (tss_addr e)"
  "k_pic (before_heap_check e k) = pics pic_init (k_pic k)" "k_cfg (before_heap_check e k) = k_cfg k"
  "k_sched (before_heap_check e k) = k_sched k" "k_selectors (before_heap_check e k) = (0x08, 0x10, 0x28)"
  by (simp_all add: before_heap_check_def Let_def start_mouse_def start_idt_def load_idt_def init_pic_def ports_def say_def
      split: prod.split)

lemma start_net_some:
  assumes "\<exists>r \<in> set (cr_reads e). r AND 0x10 = 0"
  shows "\<exists>ws st rtl. start_net e k = Some (ports ws (k\<lparr>k_net := st, k_rtl := rtl\<rparr>))"
proof -
  have "net_init (pci_space e) (cr_reads e) (mac_low e) (mac_high e) (rx_addr e) (cbr e) (k_rtl k) \<noteq> None"
    using assms by (cases "find_network_on_bus0 (pci_space e)") (auto simp: net_init_def rtl_init_def Let_def)
  then obtain st ws rtl where "net_init (pci_space e) (cr_reads e) (mac_low e) (mac_high e) (rx_addr e) (cbr e) (k_rtl k)
      = Some (st, ws, rtl)" by (metis prod_cases3 option.exhaust)
  then show ?thesis unfolding start_net_def by (simp only: option.case prod.case) blast
qed

lemma first_tick:
  assumes "schedule (sched_init (sched_new stacks)) sp = (r, s')"
  shows "r = sp \<and> current s' = 0"
proof -
  let ?s = "sched_init (sched_new stacks)"
  have t: "tasks ?s ! i = (if i = 0 then \<lparr>rsp = 0, tstate = task_state.Ready, stack = stacks 0\<rparr>
      else \<lparr>rsp = 0, tstate = task_state.Free, stack = stacks i\<rparr>)" if "i < MAX_TASKS" for i
    using that by (simp add: sched_init_def sched_new_def set_state_def task_upd_def nth_list_update MAX_TASKS_def)
  have c: "current ?s = 0" "length (tasks ?s) = MAX_TASKS" by (simp_all add: sched_init_def sched_new_def set_state_def task_upd_def)
  have wf: "wf_sched ?s" using c by (simp add: wf_sched_def MAX_TASKS_def)
  have "ready ?s i \<Longrightarrow> i = 0" if "i < MAX_TASKS" for i using t [OF that] by (auto simp: ready_def split: if_splits)
  moreover have "current s' < MAX_TASKS" using schedule_cases(2) [OF wf assms] by (simp add: wf_sched_def)
  moreover have "rsp (tasks (saved_current ?s sp) ! 0) = sp"
    using c by (simp add: saved_current_def MAX_TASKS_def)
  ultimately show ?thesis using schedule_cases(1) [OF wf assms] c by metis
qed

text \<open>C11. \<open>kernel_main\<close> gets to the shell whenever the network chip ends its reset. At that
  point interrupts are on and every interrupt the controllers let through, the timer and the keyboard
  among them, has a present gate to its handler in the 64-bit kernel code segment, as have the
  exceptions; the task register's descriptor is that of the task state segment; the heap is in a
  state its clients can reach with nothing held; the first free frame is the one at 4 MiB; the
  address is the fallback one exactly when a network card was found; and the first timer tick
  returns to the shell.\<close>

theorem kernel_main_ready:
  assumes "heap_placed (heap_base e)" "\<exists>r \<in> set (cr_reads e). r AND 0x10 = 0" "k_sched k = sched_new stacks"
  shows "\<exists>k'. kernel_main e k = Some k' \<and> k_interrupts k'
    \<and> list_all (\<lambda>irq. case delivered (k_pic k') irq of
          None \<Rightarrow> irq \<noteq> 0 \<and> irq \<noteq> 1
        | Some v \<Rightarrow> gate_of (k_idt k' ! unat v) = (True, 0x08, 0, handler e (unat v))) [0..<16]
    \<and> list_all (\<lambda>v. gate_of (k_idt k' ! v) = (True, 0x08, 0, handler e v)) [0, 6, 8, 13, 14]
    \<and> k_selectors k' = (0x08, 0x10, 0x28)
    \<and> slc 0x08 0x10 (k_gdt k') = [0, 0, 0, 0, 0, 0x9A, 0xAF, 0] \<and> descriptor_base (slc 0x28 0x38 (k_gdt k')) = tss_addr e
    \<and> heap_reachable (heap_base e) (k_heap k') [] \<and> fst (alloc_frame (k_frames k')) = 0x400000
    \<and> k_cfg k' = (if nic_kind (k_net k') = NicNone then k_cfg k else Some fallback_config)
    \<and> (\<exists>s'. schedule (k_sched k') sp = (sp, s') \<and> current s' = 0)"
proof -
  let ?k0 = "before_heap_check e k"
  note F = before_heap_check_fields [of e k]
  obtain h where h: "heap_check ?k0 = Some (say ''Heap alloc test: OK (42)'' (?k0\<lparr>k_heap := h\<rparr>))"
    "heap_reachable (heap_base e) h []" using heap_check_ok [OF assms(1) F(1)] by blast
  let ?k1 = "say ''Heap alloc test: OK (42)'' (?k0\<lparr>k_heap := h\<rparr>)"
  obtain ws st rtl where n: "start_net e ?k1 = Some (ports ws (?k1\<lparr>k_net := st, k_rtl := rtl\<rparr>))"
    using start_net_some [OF assms(2)] by blast
  obtain k' where k': "kernel_main e k = Some k'" by (simp add: kernel_main_def h n Let_def)
  then have f: "k_interrupts k'" "k_pic k' = pics pic_init (k_pic k)" "k_idt k' = idt_init (handler e)"
    "k_gdt k' = gdt_bytes (tss_addr e)" "k_heap k' = h" "k_frames k' = paging_init (k_frames k)"
    "k_cfg k' = (if nic_kind (k_net k') = NicNone then k_cfg k else Some fallback_config)"
    "k_sched k' = sched_init (sched_new stacks)" "k_selectors k' = (0x08, 0x10, 0x28)"
    using F assms(3) by (auto simp: kernel_main_def h n Let_def)
  have irqs: "list_all (\<lambda>irq. case delivered (k_pic k') irq of None \<Rightarrow> irq \<noteq> 0 \<and> irq \<noteq> 1
        | Some v \<Rightarrow> gate_of (k_idt k' ! unat v) = (True, 0x08, 0, handler e (unat v))) [0..<16]"
    unfolding f(2,3) using interrupts_delivered [of "k_pic k"] idt_gates [of 32 "handler e"] idt_gates [of 33 "handler e"]
    by (auto simp: list_all_iff)
  have excs: "list_all (\<lambda>v. gate_of (k_idt k' ! v) = (True, 0x08, 0, handler e v)) [0, 6, 8, 13, 14]"
    unfolding f(3) by (simp add: idt_gates)
  obtain r s' where "schedule (k_sched k') sp = (r, s')" by (metis prod.exhaust)
  then have tick: "\<exists>s'. schedule (k_sched k') sp = (sp, s') \<and> current s' = 0" using first_tick unfolding f(8) by blast
  have gdt: "slc 0x08 0x10 (k_gdt k') = [0, 0, 0, 0, 0, 0x9A, 0xAF, 0]" "descriptor_base (slc 0x28 0x38 (k_gdt k')) = tss_addr e"
    unfolding f(4) by (rule kernel_code_selector tss_selector)+
  have "heap_reachable (heap_base e) (k_heap k') []" "fst (alloc_frame (k_frames k')) = 0x400000"
    unfolding f(5,6) by (fact h(2) first_frame_after_init)+
  with k' f(1,7,9) irqs excs tick gdt show ?thesis by blast
qed

text \<open>The statics of the kernel as they are in the image, with the screen memory and the interrupt
  controllers as the boot loader leaves them, and a machine without a network card.\<close>

definition kernel_statics :: "u8 list \<Rightarrow> pic \<times> pic \<Rightarrow> (nat \<Rightarrow> u64) \<Rightarrow> kernel" where
  "kernel_statics screen pic stacks =
     \<lparr>k_ports = [], k_lines = [], k_gdt = [], k_tss = [], k_gdtr = [], k_selectors = (0, 0, 0), k_idt = [], k_idtr = [],
       k_pic = pic, k_heap = balloc_new, k_frames = \<lparr>bitmap = replicate BITMAP_WORDS 0, initialized = False\<rparr>,
       k_screen = \<lparr>vram = screen, wr = writer_new, deferred = None, scrollback = scrollback_new, crtc = (\<lambda>_. 0)\<rparr>,
       k_mouse = mouse_new, k_rtl = \<lparr>rtl_initialized = False, io_base = 0, tx_bufs = replicate 4 (replicate 1514 0), tx_desc = 0\<rparr>,
       k_net = \<lparr>nic_kind = NicNone, link_up = False, nic_mac = replicate 6 0, nic_pci = None\<rparr>, k_cfg = None,
       k_ata = False, k_sched = sched_new stacks, k_interrupts = False\<rparr>"

definition sample_devices :: devices where
  "sample_devices = \<lparr>handler = (\<lambda>v. 0x101000 + of_nat v * 64), df_stack_top = 0x159000, tss_addr = 0x10D000,
     gdt_addr = 0x10E000, idt_addr = 0x15A000, heap_base = 0x160000, mouse_replies = [], pci_space = (\<lambda>_. 0xFFFFFFFF),
     cr_reads = [0x10, 0x00], mac_low = 0, mac_high = 0, rx_addr = 0, cbr = 0, ata_status = 0x50\<rparr>"

theorem kernel_main_ready_witness:
  "\<exists>k'. kernel_main sample_devices (kernel_statics (replicate 4000 0) (\<lparr>pic_words = 0, pic_base = 0, pic_mask = 0\<rparr>,
        \<lparr>pic_words = 0, pic_base = 0, pic_mask = 0\<rparr>) (\<lambda>i. of_nat i * STACK_SIZE)) = Some k'
    \<and> k_interrupts k' \<and> heap_reachable 0x160000 (k_heap k') []"
proof -
  have "heap_placed (heap_base sample_devices)" by (simp add: sample_devices_def heap_placed_def HEAP_SIZE_def)
  moreover have "\<exists>r \<in> set (cr_reads sample_devices). r AND 0x10 = 0" by (simp add: sample_devices_def)
  moreover have "heap_base sample_devices = 0x160000" by (simp add: sample_devices_def)
  ultimately show ?thesis
    using kernel_main_ready [of sample_devices "kernel_statics (replicate 4000 0) (\<lparr>pic_words = 0, pic_base = 0, pic_mask = 0\<rparr>,
        \<lparr>pic_words = 0, pic_base = 0, pic_mask = 0\<rparr>) (\<lambda>i. of_nat i * STACK_SIZE)" "\<lambda>i. of_nat i * STACK_SIZE"]
    by (auto simp: kernel_statics_def)
qed

end
