(* ===== verification/ShellLoop.thy ===== *)
theory ShellLoop
  imports SystemInfo Mouse VgaSheet
begin

text \<open>
  The loop of the shell, \<open>run\<close> of \<^verbatim>\<open>src/shell/mod.rs\<close>, with the screen: what each
  key, serial byte and mouse event does to the line being edited, to the history and to the
  display, and the packets that every turn of the loop takes from the network. The lemmas show
  that the display follows the line.
\<close>

section \<open>The display of the line\<close>

definition print_char :: "u8 \<Rightarrow> vga \<Rightarrow> vga" where
  "print_char c v = vga_write_fmt [char_utf8 c] v"

definition print_line :: "string \<Rightarrow> vga \<Rightarrow> vga" where
  "print_line s v = vga_write_fmt [[10]] (vga_write_fmt [text_bytes s] v)"

definition type_shown :: "string \<Rightarrow> u8 \<Rightarrow> vga \<Rightarrow> vga" where
  "type_shown line c v = (if length line < LINE_BUF then print_char c v else v)"

definition erase_shown :: "string \<Rightarrow> vga \<Rightarrow> vga" where
  "erase_shown line v = (if length line > 0 then backspace v else v)"

definition erase_line :: "string \<Rightarrow> vga \<Rightarrow> vga" where
  "erase_line line v = fold (\<lambda>_. backspace) line v"

definition load_shown :: "string \<Rightarrow> string \<Rightarrow> vga \<Rightarrow> vga" where
  "load_shown line s v = fold (\<lambda>b. print_char (of_char b)) (take LINE_BUF s) (erase_line line v)"

fun key_shown :: "history \<Rightarrow> string \<Rightarrow> KeyEvent \<Rightarrow> vga \<Rightarrow> vga" where
  "key_shown h line (Char_key c) v = type_shown line c v"
| "key_shown h line Backspace v = erase_shown line v"
| "key_shown h line Enter v = vga_write_fmt [[10]] v"
| "key_shown h line Up v = (case fst (history_prev h) of Some cmd \<Rightarrow> load_shown line cmd v | None \<Rightarrow> v)"
| "key_shown h line Down v =
     (case fst (history_next h) of Some cmd \<Rightarrow> load_shown line cmd v | None \<Rightarrow> erase_line line v)"
| "key_shown h line PageUp v = scroll_display_up 10 v"
| "key_shown h line PageDown v = scroll_display_down 10 v"
| "key_shown h line (Ctrl c) v = (if c = 99 then print_line ''^C'' (erase_line line v) else v)"
| "key_shown h line _ v = v"

definition serial_shown :: "string \<Rightarrow> u8 \<Rightarrow> vga \<Rightarrow> vga" where
  "serial_shown line b v =
     (if b = 13 \<or> b = 10 then vga_write_fmt [[10]] v
      else if b = 0x7F \<or> b = 0x08 then erase_shown line v
      else if b = 0x03 then print_line ''^C'' (erase_line line v)
      else if 0x20 \<le> b \<and> b \<le> 0x7E then type_shown line b v
      else v)"

text \<open>The negation is one of \<open>i8\<close>, its conversion sign-extends.\<close>

fun mouse_shown :: "MouseEvent \<Rightarrow> vga \<Rightarrow> vga" where
  "mouse_shown (Scroll delta) v =
     (if 0 < sint delta then scroll_display_down (nat (sint delta)) v
      else scroll_display_up (unat (scast (- delta) :: u64)) v)"
| "mouse_shown _ v = v"

section \<open>The loop\<close>

record shell =
  s_history :: history
  s_line :: string
  s_screen :: vga
  s_conns :: "TcpConn list"

text \<open>What one turn finds: the next key, the next byte of the serial line, the mouse events, and the
  packets the network card has.\<close>

record turn =
  t_key :: "KeyEvent option"
  t_byte :: "u8 option"
  t_mouse :: "MouseEvent list"
  t_packets :: "u8 list list"
  t_env :: env

definition key_turn :: "KeyEvent option \<Rightarrow> shell \<Rightarrow> shell \<times> line_end" where
  "key_turn key s =
     (case key of None \<Rightarrow> (s, Editing)
      | Some k \<Rightarrow>
          (case key_event (s_history s) (s_line s) k of
             (h, line, e) \<Rightarrow>
               (s\<lparr>s_history := h, s_line := line, s_screen := key_shown (s_history s) (s_line s) k (s_screen s)\<rparr>, e)))"

definition byte_turn :: "u8 option \<Rightarrow> shell \<Rightarrow> shell \<times> line_end" where
  "byte_turn byte s =
     (case byte of None \<Rightarrow> (s, Editing)
      | Some b \<Rightarrow>
          (case serial_event (s_line s) b of
             (line, e) \<Rightarrow> (s\<lparr>s_line := line, s_screen := serial_shown (s_line s) b (s_screen s)\<rparr>, e)))"

text \<open>The end of a line leaves the loop at once; otherwise the turn goes on to the mouse and the
  network and ends with a halt. The result has the frames handed to the card.\<close>

definition shell_turn :: "turn \<Rightarrow> shell \<Rightarrow> shell \<times> line_end \<times> u8 list list" where
  "shell_turn t s =
     (case key_turn (t_key t) s of
        (s, e) \<Rightarrow>
          if e \<noteq> Editing then (s, e, [])
          else
            (case byte_turn (t_byte t) s of
               (s, e) \<Rightarrow>
                 if e \<noteq> Editing then (s, e, [])
                 else
                   (case poll_and_dispatch (t_env t) (t_packets t) (s_conns s) of
                      (cs, out) \<Rightarrow>
                        (s\<lparr>s_screen := fold mouse_shown (t_mouse t) (s_screen s), s_conns := cs\<rparr>, Editing, out))))"

text \<open>A line starts empty behind the prompt; when it ends it is submitted.\<close>

definition start_line :: "shell \<Rightarrow> shell" where
  "start_line s = s\<lparr>s_line := [], s_screen := vga_write_fmt [text_bytes ''kernel> ''] (s_screen s)\<rparr>"

definition finish_line :: "shell \<Rightarrow> shell \<times> submitted" where
  "finish_line s =
     (case submit (s_history s) (s_line s) of
        (h, r) \<Rightarrow>
          (s\<lparr>s_history := h, s_screen := (if r = Invalid_input then print_line ''Invalid input'' (s_screen s) else s_screen s)\<rparr>, r))"

section \<open>Cells of the screen\<close>

text \<open>The cells of the text rows are numbered row by row. The cursor stands at such a number too,
  also when it has gone past the end of its row.\<close>

definition cell :: "vga \<Rightarrow> nat \<Rightarrow> u8" where
  "cell v i = vram v ! (2 * i)"

definition cursor_at :: "vga \<Rightarrow> nat" where
  "cursor_at v = w_row (wr v) * 80 + w_col (wr v)"

definition screen_ok :: "vga \<Rightarrow> bool" where
  "screen_ok v \<longleftrightarrow> length (vram v) = 4000 \<and> w_row (wr v) < 24 \<and> w_col (wr v) \<le> 80 \<and> deferred v = None"

lemma cell_write_at:
  assumes "length (vram v) = 4000" "r * 80 + c < 2000" "i < 2000"
  shows "cell (write_at r c b col v) i = (if i = r * 80 + c then b else cell v i)"
proof -
  let ?a = "r * 160 + 2 * c"
  have "?a + length [b, col] \<le> length (vram v)" "2 * i < length (vram v)" using assms by simp_all
  from nth_patch [OF this] have "cell (write_at r c b col v) i
      = (if ?a \<le> 2 * i \<and> 2 * i < ?a + 2 then [b, col] ! (2 * i - ?a) else vram v ! (2 * i))"
    unfolding cell_def vram_write_at by simp
  moreover have "?a = 2 * (r * 80 + c)" by simp
  then have "?a \<le> 2 * i \<and> 2 * i < ?a + 2 \<longleftrightarrow> i = r * 80 + c" by linarith
  ultimately show ?thesis by (simp add: cell_def)
qed

lemma length_write_at:
  "length (vram v) = 4000 \<Longrightarrow> r * 80 + c < 2000 \<Longrightarrow> length (vram (write_at r c b col v)) = 4000"
  unfolding vram_write_at by simp

text \<open>A plain character fills the cell at the cursor and moves it on; a backspace moves it back and
  blanks the cell, across the end of a row too.\<close>

definition plain :: "u8 \<Rightarrow> bool" where
  "plain c \<longleftrightarrow> 0x20 \<le> c \<and> c < 0x7F"

lemma plain_printed:
  assumes "plain c"
  shows "char_utf8 c = [c]" "printable c = c" "c \<noteq> 10 \<and> c \<noteq> 13 \<and> c \<noteq> 9"
  using assms by (auto simp: plain_def char_utf8_def printable_def word_less_nat_alt word_le_nat_alt)

lemma print_char_cell:
  assumes "plain c" "screen_ok v" "cursor_at v < 1920"
  shows "screen_ok (print_char c v)" "cursor_at (print_char c v) = cursor_at v + 1"
    "i < 2000 \<Longrightarrow> cell (print_char c v) i = (if i = cursor_at v then c else cell v i)"
proof -
  let ?r = "w_row (wr v)" and ?c = "w_col (wr v)"
  have ok: "length (vram v) = 4000" "?r < 24" "?c \<le> 80" "deferred v = None" using assms(2) by (simp_all add: screen_ok_def)
  note P = plain_printed [OF assms(1)]
  have all: "screen_ok (print_char c v) \<and> cursor_at (print_char c v) = cursor_at v + 1
    \<and> (i < 2000 \<longrightarrow> cell (print_char c v) i = (if i = cursor_at v then c else cell v i))"
  proof (cases "?c < 80")
    case True
    let ?w = "write_at ?r ?c c (w_color (wr v)) v"
    have lt: "?r * 80 + ?c < 2000" using assms(3) by (simp add: cursor_at_def)
    have e: "print_char c v = update_hardware_cursor ?r (?c + 1) (?w\<lparr>wr := (wr v)\<lparr>w_col := ?c + 1\<rparr>\<rparr>)"
      using True ok P by (simp add: print_char_def vga_write_fmt_def write_str_def write_byte_def commit_scrollback_def WIDTH_def Let_def)
    have "length (vram ?w) = 4000" using ok(1) lt by (rule length_write_at)
    then show ?thesis
      unfolding e using ok True cell_write_at [OF ok(1) lt, of i c "w_color (wr v)"] 
      by (simp add: screen_ok_def cursor_at_def cell_def)
  next
    case False
    then have c80: "?c = 80" using ok(3) by simp
    have r: "?r + 1 < 24" using assms(3) c80 by (simp add: cursor_at_def)
    let ?n = "update_hardware_cursor (?r + 1) 0 (v\<lparr>wr := (wr v)\<lparr>w_col := 0, w_row := ?r + 1\<rparr>\<rparr>)"
    let ?w = "write_at (?r + 1) 0 c (w_color (wr v)) ?n"
    have n: "newline v = ?n" using r by (simp add: newline_def CONTENT_ROWS_def HEIGHT_def Let_def)
    have e: "print_char c v = update_hardware_cursor (?r + 1) 1 (?w\<lparr>wr := (wr v)\<lparr>w_row := ?r + 1, w_col := 1\<rparr>\<rparr>)"
      using c80 ok P n by (simp add: print_char_def vga_write_fmt_def write_str_def write_byte_def commit_scrollback_def WIDTH_def Let_def)
    have l: "length (vram ?n) = 4000" "(?r + 1) * 80 + 0 < 2000" using ok(1) r by simp_all
    have "length (vram ?w) = 4000" using l by (rule length_write_at)
    then show ?thesis
      unfolding e using ok r c80 cell_write_at [OF l, of i c "w_color (wr v)"]
      by (simp add: screen_ok_def cursor_at_def cell_def)
  qed
  show "screen_ok (print_char c v)" "cursor_at (print_char c v) = cursor_at v + 1"
    "i < 2000 \<Longrightarrow> cell (print_char c v) i = (if i = cursor_at v then c else cell v i)" using all by blast+
qed

lemma backspace_cell:
  assumes "screen_ok v" "0 < cursor_at v" "cursor_at v \<le> 1920"
  shows "screen_ok (backspace v)" "cursor_at (backspace v) = cursor_at v - 1"
    "i < 2000 \<Longrightarrow> cell (backspace v) i = (if i = cursor_at v - 1 then 0x20 else cell v i)"
proof -
  let ?r = "w_row (wr v)" and ?c = "w_col (wr v)"
  have ok: "length (vram v) = 4000" "?r < 24" "?c \<le> 80" "deferred v = None" using assms(1) by (simp_all add: screen_ok_def)
  have all: "screen_ok (backspace v) \<and> cursor_at (backspace v) = cursor_at v - 1
    \<and> (i < 2000 \<longrightarrow> cell (backspace v) i = (if i = cursor_at v - 1 then 0x20 else cell v i))"
  proof (cases "?c > 0")
    case True
    let ?v = "v\<lparr>wr := (wr v)\<lparr>w_col := ?c - 1\<rparr>\<rparr>"
    let ?w = "write_at ?r (?c - 1) 0x20 (w_color (wr v)) ?v"
    have lt: "?r * 80 + (?c - 1) < 2000" "?r * 80 + (?c - 1) = cursor_at v - 1" using assms(3) True by (simp_all add: cursor_at_def)
    have e: "backspace v = update_hardware_cursor ?r (?c - 1) ?w"
      using True ok by (simp add: backspace_def commit_scrollback_def Let_def)
    have l: "length (vram ?v) = 4000" using ok(1) by simp
    then have w: "length (vram ?w) = 4000" using lt(1) by (rule length_write_at)
    have "cell (backspace v) i = cell ?w i" "screen_ok (backspace v)"
      unfolding e using ok w by (simp_all add: cell_def screen_ok_def del: One_nat_def)
    moreover have "cursor_at (backspace v) = cursor_at v - 1" unfolding e using True by (simp add: cursor_at_def)
    moreover have "i < 2000 \<longrightarrow> cell ?w i = (if i = cursor_at v - 1 then 0x20 else cell v i)"
      unfolding lt(2) [symmetric] using cell_write_at [OF l lt(1), of i "0x20" "w_color (wr v)"] by (simp add: cell_def)
    ultimately show ?thesis by (simp only: simp_thms)
  next
    case False
    then have c0: "?c = 0" by simp
    have r: "0 < ?r" using assms(2) c0 by (simp add: cursor_at_def)
    let ?v = "v\<lparr>wr := (wr v)\<lparr>w_row := ?r - 1, w_col := 79\<rparr>\<rparr>"
    let ?w = "write_at (?r - 1) 79 0x20 (w_color (wr v)) ?v"
    have lt: "(?r - 1) * 80 + 79 < 2000" using ok(2) by simp
    have at: "(?r - 1) * 80 + 79 = cursor_at v - 1"
      using c0 r by (cases ?r) (simp_all add: cursor_at_def)
    have e: "backspace v = update_hardware_cursor (?r - 1) 79 ?w"
      using c0 r ok by (simp add: backspace_def commit_scrollback_def Let_def WIDTH_def)
    have l: "length (vram ?v) = 4000" using ok(1) by simp
    then have w: "length (vram ?w) = 4000" using lt by (rule length_write_at)
    have "cell (backspace v) i = cell ?w i" "screen_ok (backspace v)"
      unfolding e using ok w by (simp_all add: cell_def screen_ok_def del: One_nat_def)
    moreover have "cursor_at (backspace v) = cursor_at v - 1" unfolding at [symmetric] e by (simp add: cursor_at_def)
    moreover have "i < 2000 \<longrightarrow> cell ?w i = (if i = cursor_at v - 1 then 0x20 else cell v i)"
      unfolding at [symmetric] using cell_write_at [OF l lt, of i "0x20" "w_color (wr v)"] by (simp add: cell_def)
    ultimately show ?thesis by (simp only: simp_thms)
  qed
  show "screen_ok (backspace v)" "cursor_at (backspace v) = cursor_at v - 1"
    "i < 2000 \<Longrightarrow> cell (backspace v) i = (if i = cursor_at v - 1 then 0x20 else cell v i)" using all by blast+
qed

section \<open>The display follows the line\<close>

definition shows_line :: "vga \<Rightarrow> nat \<Rightarrow> string \<Rightarrow> vga \<Rightarrow> bool" where
  "shows_line v0 p line v \<longleftrightarrow> screen_ok v \<and> cursor_at v = p + length line
     \<and> (\<forall>i < 1920. cell v i = (if p \<le> i \<and> i < p + length line then of_char (line ! (i - p)) else cell v0 i))"

definition blank_from :: "vga \<Rightarrow> nat \<Rightarrow> bool" where
  "blank_from v p \<longleftrightarrow> (\<forall>i < 1920. p \<le> i \<longrightarrow> cell v i = 0x20)"

lemma of_byte_char: "of_char (byte_char c) = c"
proof -
  have "(of_char (byte_char c) :: u8) = of_nat (of_char (char_of (unat c) :: char))"
    unfolding byte_char_def by (rule of_nat_of_char [symmetric])
  also have "\<dots> = of_nat (unat c mod 256)" by simp
  also have "unat c mod 256 = unat c" using u8_less [of c] by simp
  finally show ?thesis by simp
qed

lemma byte_of_char: "byte_char (of_char c) = c"
proof -
  have "unat (of_char c :: u8) = of_char c mod 256"
    unfolding of_nat_of_char [symmetric, where ?'a = "8 word"] by (simp add: unsigned_of_nat take_bit_eq_mod)
  then show ?thesis by (simp add: byte_char_def)
qed

lemma type_shows:
  assumes "shows_line v0 p line v" "plain c" "p + length line < 1920"
  shows "shows_line v0 p (line @ [byte_char c]) (print_char c v)"
proof -
  have v: "screen_ok v" "cursor_at v = p + length line" using assms(1) by (simp_all add: shows_line_def)
  then have lt: "cursor_at v < 1920" using assms(3) by simp
  have "cell (print_char c v) i
      = (if p \<le> i \<and> i < p + length (line @ [byte_char c]) then of_char ((line @ [byte_char c]) ! (i - p)) else cell v0 i)"
    if "i < 1920" for i
  proof -
    consider "i < p + length line" | "i = p + length line" | "p + length line < i" by linarith
    then show ?thesis
      using assms(1) that print_char_cell(3) [OF assms(2) v(1) lt, of i] v(2)
      by cases (auto simp: shows_line_def nth_append of_byte_char)
  qed
  then show ?thesis
    using print_char_cell(1,2) [OF assms(2) v(1) lt] v(2) unfolding shows_line_def by simp
qed

lemma erase_shows:
  assumes "shows_line v0 p line v" "line \<noteq> []" "p + length line \<le> 1920" "blank_from v0 p"
  shows "shows_line v0 p (butlast line) (backspace v)"
proof -
  have v: "screen_ok v" "cursor_at v = p + length line" using assms(1) by (simp_all add: shows_line_def)
  have pos: "0 < length line" using assms(2) by simp
  then have at: "0 < cursor_at v" "cursor_at v \<le> 1920" using v(2) assms(3) by simp_all
  note B = backspace_cell [OF v(1) at]
  have "cell (backspace v) i
      = (if p \<le> i \<and> i < p + length (butlast line) then of_char (butlast line ! (i - p)) else cell v0 i)"
    if "i < 1920" for i
  proof -
    consider "i < p + length line - 1" | "i = p + length line - 1" | "p + length line - 1 < i" by linarith
    moreover have "p \<le> p + length line - 1" using pos by linarith
    ultimately show ?thesis
      using assms(1,4) that B(3) [of i] v(2) pos
      by cases (auto simp: shows_line_def nth_butlast blank_from_def not_le)
  qed
  moreover have "cursor_at v - 1 = p + length (butlast line)" unfolding v(2) length_butlast using pos by linarith
  ultimately show ?thesis using B(1,2) unfolding shows_line_def by simp
qed

lemma erase_line_shows:
  "length xs = length line \<Longrightarrow> shows_line v0 p line v \<Longrightarrow> p + length line \<le> 1920 \<Longrightarrow> blank_from v0 p \<Longrightarrow>
   shows_line v0 p [] (erase_line xs v)"
proof (induction xs arbitrary: line v)
  case (Cons x xs)
  then have ne: "line \<noteq> []" by auto
  from erase_shows [OF Cons.prems(2) ne Cons.prems(3,4)] show ?case
    using Cons.IH [of "butlast line" "backspace v"] Cons.prems by (simp add: erase_line_def)
qed (simp add: erase_line_def)

lemma load_shows:
  "shows_line v0 p line v \<Longrightarrow> list_all (plain \<circ> of_char) s \<Longrightarrow> p + length line + length s < 1920 \<Longrightarrow>
   shows_line v0 p (line @ s) (fold (\<lambda>b. print_char (of_char b)) s v)"
proof (induction s arbitrary: line v)
  case (Cons c s)
  have "shows_line v0 p (line @ [c]) (print_char (of_char c) v)"
    using type_shows [OF Cons.prems(1), of "of_char c"] Cons.prems by (simp add: byte_of_char)
  from Cons.IH [OF this] Cons.prems show ?case by simp
qed simp

text \<open>The keys that edit the line: plain characters, backspace, the arrows and the keys without
  effect; the page keys, which bring back old rows, and Enter and Ctrl+C, which end it, are not among
  them. The history holds plain lines, and its position is one of them.\<close>

fun editing_key :: "KeyEvent \<Rightarrow> bool" where
  "editing_key (Char_key c) = plain c"
| "editing_key Enter = False"
| "editing_key PageUp = False"
| "editing_key PageDown = False"
| "editing_key (Ctrl c) = (c \<noteq> 99)"
| "editing_key _ = True"

definition plain_history :: "history \<Rightarrow> bool" where
  "plain_history h \<longleftrightarrow> index h < int (length (items h)) \<and> list_all (list_all (plain \<circ> of_char)) (items h)"

lemma plain_prev:
  assumes "plain_history h" "history_prev h = (r, h')"
  shows "plain_history h' \<and> (\<forall>cmd. r = Some cmd \<longrightarrow> list_all (plain \<circ> of_char) cmd)"
  using assms by (auto simp: plain_history_def history_prev_def Let_def list_all_length split: if_splits)

lemma plain_next:
  assumes "plain_history h" "history_next h = (r, h')"
  shows "plain_history h' \<and> (\<forall>cmd. r = Some cmd \<longrightarrow> list_all (plain \<circ> of_char) cmd)"
  using assms by (auto simp: plain_history_def history_next_def Let_def list_all_length split: if_splits)

lemma load_line_shows:
  assumes "shows_line v0 p line v" "length line \<le> LINE_BUF" "p + LINE_BUF < 1920" "blank_from v0 p"
    "list_all (plain \<circ> of_char) cmd"
  shows "shows_line v0 p (load_line cmd) (load_shown line cmd v)"
proof -
  have e: "shows_line v0 p [] (erase_line line v)"
    using assms by (intro erase_line_shows [of line line]) simp_all
  have "list_all (plain \<circ> of_char) (take LINE_BUF cmd)" using assms(5) by (metis append_take_drop_id list_all_append)
  moreover have "p + length [] + length (take LINE_BUF cmd) < 1920" using assms(3) by simp
  ultimately show ?thesis
    using load_shows [OF e] by (simp add: load_line_def load_shown_def)
qed

lemma key_shows:
  assumes "shows_line v0 p (s_line s) (s_screen s)" "length (s_line s) \<le> LINE_BUF" "plain_history (s_history s)"
    "p + LINE_BUF < 1920" "blank_from v0 p" "editing_key k" "key_turn (Some k) s = (s', e)"
  shows "shows_line v0 p (s_line s') (s_screen s')" "length (s_line s') \<le> LINE_BUF" "plain_history (s_history s')" "e = Editing"
proof -
  let ?goal = "shows_line v0 p (s_line s') (s_screen s') \<and> length (s_line s') \<le> LINE_BUF \<and> plain_history (s_history s')
    \<and> e = Editing"
  have l: "p + length (s_line s) \<le> 1920" using assms(2,4) by simp
  have ?goal
  proof (cases k)
    case (Char_key c)
    then show ?thesis
      using assms type_shows [OF assms(1), of c]
      by (auto simp: key_turn_def type_char_def type_shown_def split: if_splits)
  next
    case Backspace
    then show ?thesis
      using assms erase_shows [OF assms(1) _ l assms(5)] by (auto simp: key_turn_def erase_shown_def)
  next
    case Up
    obtain r h' where h: "history_prev (s_history s) = (r, h')" by (rule prod.exhaust)
    show ?thesis
      using Up assms h plain_prev [OF assms(3) h] load_line_shows [OF assms(1,2,4,5)]
      by (auto simp: key_turn_def load_line_def split: option.splits)
  next
    case Down
    obtain r h' where h: "history_next (s_history s) = (r, h')" by (rule prod.exhaust)
    show ?thesis
      using Down assms h plain_next [OF assms(3) h] load_line_shows [OF assms(1,2,4,5)]
        erase_line_shows [OF refl assms(1) l assms(5)]
      by (auto simp: key_turn_def load_line_def split: option.splits)
  qed (use assms in \<open>auto simp: key_turn_def\<close>)
  then show "shows_line v0 p (s_line s') (s_screen s')" "length (s_line s') \<le> LINE_BUF" "plain_history (s_history s')" "e = Editing"
    by blast+
qed


text \<open>A blank screen, one line in the history, and four keys.\<close>

definition blank_screen :: vga where
  "blank_screen = \<lparr>vram = map (\<lambda>i. if even i then 0x20 else 7) [0..<4000], wr = writer_new, deferred = None,
     scrollback = scrollback_new, crtc = (\<lambda>_. 0)\<rparr>"

definition sample_shell :: shell where
  "sample_shell = \<lparr>s_history = \<lparr>items = [''ls''], index = -1\<rparr>, s_line = [], s_screen = blank_screen, s_conns = []\<rparr>"


end
