(* ===== verification/Reports.thy ===== *)
theory Reports
  imports SystemInfo Scheduler Framebuffer Editor Vga
begin

text \<open>
  The remaining output of the kernel: \<open>cpuinfo\<close>, \<open>ps\<close>, \<open>spawn\<close>, \<open>env\<close>, \<open>shutdown\<close> and \<open>fb\<close> of the
  shell, the register dump of the RTL8139 driver, the display of a file system, the screen of the
  text editor, and the argument filter of \<^verbatim>\<open>tools/rustc-filter.rs\<close>.
\<close>

section \<open>Processor and tasks\<close>

text \<open>The characters of the brand: the nonzero bytes, each the character of that number, without the
  white space of Latin-1 around them.\<close>

definition brand_chars :: "(u32 \<Rightarrow> CpuidResult) \<Rightarrow> u8 list" where
  "brand_chars cpuid =
     concat (map (\<lambda>leaf. let r = cpuid leaf in
         filter (\<lambda>b. b \<noteq> 0) (le32 (eax r) @ le32 (ebx r) @ le32 (ecx r) @ le32 (edx r)))
       [0x80000002, 0x80000003, 0x80000004])"

definition latin1_space :: "u8 \<Rightarrow> bool" where
  "latin1_space b \<longleftrightarrow> 9 \<le> b \<and> b \<le> 13 \<or> b = 0x20 \<or> b = 0x85 \<or> b = 0xA0"

definition trim_latin1 :: "u8 list \<Rightarrow> u8 list" where
  "trim_latin1 bs = rev (dropWhile latin1_space (rev (dropWhile latin1_space bs)))"

definition brand_string :: "(u32 \<Rightarrow> CpuidResult) \<Rightarrow> u8 list" where
  "brand_string cpuid = concat (map char_utf8 (trim_latin1 (brand_chars cpuid)))"

lemma brand_bytes_chars: "brand_bytes cpuid = concat (map char_utf8 (brand_chars cpuid))"
  by (simp add: brand_bytes_def brand_chars_def format_registers_def Let_def filter_append)

definition cmd_cpuinfo :: "(u32 \<Rightarrow> CpuidResult) \<Rightarrow> u8 list list option" where
  "cmd_cpuinfo cpuid =
     map_option (\<lambda>vendor. text_bytes (''vendor: '' @ vendor)
         # (if brand_string cpuid = [] then [] else [text_bytes ''brand:  '' @ brand_string cpuid]))
       (vendor_id_text cpuid)"

definition cmd_spawn :: "u64 \<Rightarrow> sched \<Rightarrow> (u64 \<Rightarrow> u64) \<Rightarrow> string \<times> sched \<times> (u64 \<Rightarrow> u64)" where
  "cmd_spawn test_task s cells =
     (case spawn s cells test_task of
        (n, s, cells) \<Rightarrow>
          (if n \<ge> 0 then ''Task '' @ decimal (nat n) @ '' spawned'' else ''No free task slot'', s, cells))"

definition cmd_ps :: "sched \<Rightarrow> string list" where
  "cmd_ps s =
     ''Slot State      RSP''
     # map (\<lambda>(i, st, sp). ''  '' @ decimal i @ ''  '' @ fill_right 4 st @ ''  0x'' @ zeros 16 (hexadecimal (unat sp)))
         (task_rows s)"

section \<open>env, shutdown and fb\<close>

text \<open>\<open>{:.1}\<close> of the percentage: the total is a power of two or the amount itself, so the quotient of
  the two floating-point numbers is exact, and it is rounded half to even at the tenth.\<close>

definition tenths :: "nat \<Rightarrow> nat \<Rightarrow> nat" where
  "tenths part whole =
     (let q = part * 1000 div whole; r = part * 1000 mod whole in
      if 2 * r > whole \<or> 2 * r = whole \<and> odd q then q + 1 else q)"

definition percent_text :: "nat \<Rightarrow> string" where
  "percent_text t = decimal (t div 10) @ ''.'' @ decimal (t mod 10)"

definition cmd_env :: "nat \<times> nat \<Rightarrow> string \<Rightarrow> nat \<times> nat \<times> nat \<Rightarrow> nat \<times> nat \<Rightarrow> string list" where
  "cmd_env heap vendor pages up =
     (case (heap, pages) of
        ((used, free), (all, pfree, pused)) \<Rightarrow>
          [''heap: '' @ decimal used @ ''/'' @ decimal (used + free) @ '' bytes used (''
             @ percent_text (tenths used (used + free)) @ ''%)'',
           ''cpu: '' @ vendor,
           ''pages: '' @ decimal all @ '' total, '' @ decimal pfree @ '' free, '' @ decimal pused @ '' used (''
             @ decimal (all * 4) @ '' KB)'',
           uptime_text up])"

lemma tenths_bounds: "0 < whole \<Longrightarrow> part \<le> whole \<Longrightarrow> tenths part whole \<le> 1000"
proof -
  assume "0 < whole" "part \<le> whole"
  let ?q = "part * 1000 div whole" and ?r = "part * 1000 mod whole"
  have "?q * whole + ?r = part * 1000" by simp
  moreover have "part * 1000 \<le> 1000 * whole" using \<open>part \<le> whole\<close> by simp
  ultimately have "?q * whole + ?r \<le> 1000 * whole" by simp
  then have le: "?q \<le> 1000" using \<open>0 < whole\<close> by (metis add_leD1 mult_le_cancel2)
  moreover have "?r = 0" if "?q = 1000" using \<open>?q * whole + ?r \<le> 1000 * whole\<close> that by simp
  ultimately show ?thesis using \<open>0 < whole\<close> by (cases "?q = 1000") (auto simp: tenths_def Let_def)
qed

definition cmd_shutdown :: "string list \<times> io_write list" where
  "cmd_shutdown = ([''Shutting down...''], [OutW 0x604 0x2000])"

definition cmd_fb :: "FbConsole option \<Rightarrow> string" where
  "cmd_fb fb =
     (case fb of
        Some c \<Rightarrow> ''fb: '' @ decimal (unat (fb_width c)) @ ''x'' @ decimal (unat (fb_height c)) @ ''x''
          @ decimal (unat (fb_bpp c)) @ ''bpp '' @ decimal (unat (fb_cols c)) @ ''x'' @ decimal (unat (fb_rows c)) @ '' chars''
      | None \<Rightarrow> ''fb: not initialized (use QEMU -vga std)'')"

section \<open>The registers of the network chip\<close>

text \<open>\<open>r8\<close>, \<open>r16\<close> and \<open>r32\<close> read a port of the given width.\<close>

definition bit_text :: "u32 \<Rightarrow> nat \<Rightarrow> string" where
  "bit_text w n = decimal (unat (drop_bit n w AND 1))"

definition dump_regs :: "(u16 \<Rightarrow> u8) \<Rightarrow> (u16 \<Rightarrow> u16) \<Rightarrow> (u16 \<Rightarrow> u32) \<Rightarrow> rtl \<Rightarrow> string list" where
  "dump_regs r8 r16 r32 s =
     (if \<not> rtl_initialized s then [''RTL8139: not initialized'']
      else
        let io = io_base s; cr = r8 (io + 0x37); tsd0 = r32 (io + 0x10); mac0 = r32 io; mac4 = r16 (io + 0x04);
            hex2 = (\<lambda>w. zeros 2 (hexadecimal (unat (w :: u8)))); hex4 = (\<lambda>w. zeros 4 (hexadecimal (unat (w :: u16))));
            hex8 = (\<lambda>w. zeros 8 (hexadecimal (unat (w :: u32))))
        in [''RTL8139 registers:'',
            ''  CR     = 0x'' @ hex2 cr @ '' (TE='' @ bit_text (ucast cr) 2 @ '' RE='' @ bit_text (ucast cr) 3 @ '' RST=''
              @ bit_text (ucast cr) 4 @ '')'',
            ''  TCR    = 0x'' @ hex8 (r32 (io + 0x40)),
            ''  RCR    = 0x'' @ hex8 (r32 (io + 0x44)),
            ''  ISR    = 0x'' @ hex4 (r16 (io + 0x3E)),
            ''  IMR    = 0x'' @ hex4 (r16 (io + 0x3C)),
            ''  TSD0   = 0x'' @ hex8 tsd0 @ '' (TOK='' @ bit_text tsd0 15 @ '' OWN='' @ bit_text tsd0 14 @ '' TER=''
              @ bit_text tsd0 22 @ '')'',
            ''  CAPR   = '' @ decimal (unat (r16 (io + 0x38))),
            ''  CBR    = '' @ decimal (unat (r16 (io + 0x3A))),
            ''  RBSTART= 0x'' @ hex8 (r32 (io + 0x30)),
            ''  MAC    = '' @ joined '':'' (map hex2 [ucast mac0, ucast (drop_bit 8 mac0), ucast (drop_bit 16 mac0),
              ucast (drop_bit 24 mac0), ucast mac4, ucast (drop_bit 8 mac4)])])"

definition ext3_display :: "ext3 \<Rightarrow> string" where
  "ext3_display fs = ''ext3 (block_size='' @ decimal (ext3.block_size fs) @ '', ro)''"

section \<open>The screen of the editor\<close>

definition redraw_line :: "string \<Rightarrow> nat \<Rightarrow> vga \<Rightarrow> vga" where
  "redraw_line text r v =
     (let v = clear_line r v in
      if r < length (lines_of text) then vga_write_at r 0 (text_bytes (lines_of text ! r)) v else v)"

definition redraw :: "string \<Rightarrow> string \<Rightarrow> vga \<Rightarrow> vga" where
  "redraw text name v =
     status_line (text_bytes (if name = [] then ''editor'' else ''edit: '' @ name @ '' | Esc=exit Ctrl+S=save''))
       (fold (redraw_line text) [0..<24] v)"

definition editor_screen :: "editor \<Rightarrow> vga \<Rightarrow> vga" where
  "editor_screen e v = set_cursor 0 0 (redraw (buffer e) (path e) v)"

text \<open>What a key shows, from the editor before and after it.\<close>

fun key_screen :: "KeyEvent \<Rightarrow> editor \<Rightarrow> editor \<Rightarrow> vga \<Rightarrow> vga" where
  "key_screen Escape e e' v =
     (let v = clear_screen v in
      if dirty e then vga_write_fmt [[10]]
        (vga_write_fmt [text_bytes ''Editor closed (unsaved changes discarded unless Ctrl+S was used)''] v) else v)"
| "key_screen (Ctrl c) e e' v =
     (if c = 115 \<or> c = 83 then status_line (text_bytes (''Saved '' @ path e)) v else v)"
| "key_screen Up e e' v = (if row e > 0 then set_cursor (row e') (col e') v else v)"
| "key_screen Down e e' v = (if row e + 1 < line_count (buffer e) then set_cursor (row e') (col e') v else v)"
| "key_screen Left e e' v = (if col e > 0 \<or> row e > 0 then set_cursor (row e') (col e') v else v)"
| "key_screen Right e e' v =
     (if col e < line_len (buffer e) (row e) \<or> row e + 1 < line_count (buffer e)
      then set_cursor (row e') (col e') v else v)"
| "key_screen Backspace e e' v =
     (if cursor e > 0 then set_cursor (row e') (col e') (redraw (buffer e') (path e') v) else v)"
| "key_screen Enter e e' v = set_cursor (row e') (col e') (redraw (buffer e') (path e') v)"
| "key_screen (Char_key c) e e' v = set_cursor (row e') (col e') (redraw (buffer e') (path e') v)"
| "key_screen _ e e' v = v"

section \<open>The filter of the compiler's arguments\<close>

text \<open>The loop of \<open>main\<close>: after the removal of a pair it goes on at the same index.\<close>

function filter_from :: "nat \<Rightarrow> string list \<Rightarrow> string list" where
  "filter_from i args =
     (if i < length args then
        if args ! i = ''-Z'' \<and> i + 1 < length args \<and> args ! (i + 1) = ''json-target-spec''
        then filter_from i (take i args @ drop (i + 2) args)
        else filter_from (i + 1) args
      else args)"
  by auto
termination
  by (relation "measure (\<lambda>(i, args). length args - i)") auto

declare filter_from.simps [simp del]

definition filter_args :: "string list \<Rightarrow> string list" where
  "filter_args args = filter_from 0 (drop 1 args)"

text \<open>What it computes: one pass from the left that drops every pair.\<close>

fun drop_pairs :: "string list \<Rightarrow> string list" where
  "drop_pairs (a # b # as) = (if a = ''-Z'' \<and> b = ''json-target-spec'' then drop_pairs as else a # drop_pairs (b # as))"
| "drop_pairs [a] = [a]"
| "drop_pairs [] = []"

lemma filter_from_eq: "filter_from (length pre) (pre @ args) = pre @ drop_pairs args"
proof (induction args arbitrary: pre rule: drop_pairs.induct)
  case (1 a b as)
  have step: "filter_from (length pre) (pre @ a # b # as)
      = (if a = ''-Z'' \<and> b = ''json-target-spec'' then filter_from (length pre) (pre @ as)
         else filter_from (length (pre @ [a])) ((pre @ [a]) @ b # as))"
    by (subst filter_from.simps) (simp add: nth_append)
  show ?case
  proof (cases "a = ''-Z'' \<and> b = ''json-target-spec''")
    case True
    then show ?thesis using 1(1) [OF True] step by simp
  next
    case False
    then show ?thesis unfolding step using 1(2) [OF False, of "pre @ [a]"] False by auto
  qed
next
  case (2 a)
  have "filter_from (length pre) (pre @ [a]) = filter_from (length (pre @ [a])) (pre @ [a])"
    by (subst filter_from.simps) (simp add: nth_append)
  then show ?case by (simp add: filter_from.simps [of "Suc _"])
next
  case 3
  then show ?case by (subst filter_from.simps) simp
qed

lemma filter_args_eq: "filter_args (prog # args) = drop_pairs args"
  using filter_from_eq [of "[]" args] by (simp add: filter_args_def)

text \<open>Two pairs one inside the other leave a pair behind.\<close>

lemma filter_args_nested:
  "filter_args [''rustc'', ''-Z'', ''-Z'', ''json-target-spec'', ''json-target-spec''] = [''-Z'', ''json-target-spec'']"
  by (simp add: filter_args_eq)

end
