(* ===== verification/SmallDrivers.thy ===== *)
theory SmallDrivers
  imports Mouse Reports
begin

text \<open>
  Small parts beside the large drivers: how the mouse driver waits for its controller (what it reads
  at port 0x64, and at port 0x60 when data is there, is the argument), the skeleton of the e1000
  driver, the ring position as \<^verbatim>\<open>src/drivers/net/mod.rs\<close> reports it, and the
  \<open>main\<close> of \<^verbatim>\<open>tools/rustc-filter.rs\<close>.
\<close>

section \<open>Waiting for the mouse controller\<close>

definition WAIT_POLLS :: nat where "WAIT_POLLS = 10000"
definition READ_POLLS :: nat where "READ_POLLS = 100000"

text \<open>The polls that are left when the loop ends, because of the status or after its last turn.\<close>

fun wait_port :: "(u8 \<Rightarrow> bool) \<Rightarrow> nat \<Rightarrow> u8 list \<Rightarrow> u8 list" where
  "wait_port done_when 0 sts = sts"
| "wait_port done_when (Suc n) [] = []"
| "wait_port done_when (Suc n) (st # sts) = (if done_when st then sts else wait_port done_when n sts)"

definition wait_write :: "u8 list \<Rightarrow> u8 list" where
  "wait_write = wait_port (\<lambda>st. st AND 0x02 = 0) WAIT_POLLS"

definition wait_read :: "u8 list \<Rightarrow> u8 list" where
  "wait_read = wait_port (\<lambda>st. st AND 0x01 \<noteq> 0) WAIT_POLLS"

definition write_command :: "u8 \<Rightarrow> u8 list \<Rightarrow> port_write \<times> u8 list" where
  "write_command c sts = (To_command c, wait_write sts)"

definition write_data :: "u8 \<Rightarrow> u8 list \<Rightarrow> port_write \<times> u8 list" where
  "write_data b sts = (To_data b, wait_write sts)"

definition read_data :: "u8 \<Rightarrow> u8 list \<Rightarrow> u8 \<times> u8 list" where
  "read_data b sts = (b, wait_read sts)"

fun read_within :: "nat \<Rightarrow> (u8 \<times> u8) list \<Rightarrow> u8 option \<times> (u8 \<times> u8) list" where
  "read_within 0 ps = (None, ps)"
| "read_within (Suc n) [] = (None, [])"
| "read_within (Suc n) ((st, b) # ps) = (if st AND 0x01 \<noteq> 0 then (Some b, ps) else read_within n ps)"

definition try_read_data :: "(u8 \<times> u8) list \<Rightarrow> u8 option \<times> (u8 \<times> u8) list" where
  "try_read_data = read_within READ_POLLS"

text \<open>The loops are bounded, and the byte read is that of the first poll that finds data.\<close>

lemma wait_port_bounded: "\<exists>m \<le> n. wait_port done_when n sts = drop m sts"
proof (induction done_when n sts rule: wait_port.induct)
  case (3 done_when n st sts)
  show ?case
  proof (cases "done_when st")
    case True
    then show ?thesis by (intro exI [of _ 1]) simp
  next
    case False
    then obtain m where "m \<le> n" "wait_port done_when n sts = drop m sts" using 3 by blast
    then show ?thesis using False by (intro exI [of _ "Suc m"]) simp
  qed
qed auto

lemma read_within_first:
  assumes "list_all (\<lambda>(st, _). st AND 0x01 = 0) waited" "st AND 0x01 \<noteq> 0"
  shows "read_within n (waited @ (st, b) # ps) = (if length waited < n then (Some b, ps) else (None, drop n (waited @ (st, b) # ps)))"
  using assms(1)
proof (induction waited arbitrary: n)
  case Nil
  then show ?case using assms(2) by (cases n) simp_all
next
  case (Cons x waited)
  then show ?case by (cases n; cases x) simp_all
qed

section \<open>The e1000 skeleton and the ring position\<close>

record E1000_dev =
  mmio_base :: u32
  e1000_mac :: "u8 list"

definition probe_mac :: "PciDevice \<Rightarrow> u8 list" where
  "probe_mac dev = e1000_default_mac"

definition e1000_new :: "(u32 \<Rightarrow> u32) \<Rightarrow> PciDevice \<Rightarrow> E1000_dev" where
  "e1000_new pci dev =
     \<lparr>mmio_base = read_config_dword pci (pci_bus dev) (pci_slot dev) (pci_func dev) 0x10 AND NOT 0xF, e1000_mac = probe_mac dev\<rparr>"

definition e1000_send :: "E1000_dev \<Rightarrow> u8 list \<Rightarrow> unit + unit" where
  "e1000_send c frame = Inl ()"

definition e1000_poll_rx :: "E1000_dev \<Rightarrow> u8 list option" where
  "e1000_poll_rx c = None"

definition rtl_default_mac :: "u8 list" where
  "rtl_default_mac = [0x52, 0x54, 0x00, 0xAB, 0xCD, 0xEF]"

text \<open>The two registers of the receive ring, zeros without an RTL8139.\<close>

definition rx_ring_pos :: "NetStatus \<Rightarrow> u16 \<times> u16 \<Rightarrow> u16 \<times> u16" where
  "rx_ring_pos st inws = (if nic_kind st = Rtl8139 then inws else (0, 0))"

section \<open>The compiler behind the filter\<close>

text \<open>\<open>launch\<close> is the operating system's: it starts a program with arguments and waits, and the
  answer is an error text, or the exit code unless a signal ended the program. The result is what is
  printed to the error output, and the exit code.\<close>

definition filter_main ::
    "string option \<Rightarrow> (string \<Rightarrow> string list \<Rightarrow> string + int option) \<Rightarrow> string list \<Rightarrow> string list \<times> int" where
  "filter_main kernel_rustc launch args =
     (let rustc = (case kernel_rustc of Some r \<Rightarrow> r | None \<Rightarrow> ''rustc'')
      in case launch rustc (filter_args args) of
           Inl e \<Rightarrow> ([''rustc-filter: failed to run '' @ rustc @ '': '' @ e], 1)
         | Inr code \<Rightarrow> ([], case code of Some c \<Rightarrow> c | None \<Rightarrow> 1))"

text \<open>Without the option among the arguments the filter is the compiler.\<close>

lemma filter_main_transparent:
  assumes "''-Z'' \<notin> set args" "launch rustc args = Inr (Some code)"
  shows "filter_main (Some rustc) launch (prog # args) = ([], code)"
proof -
  have "drop_pairs as = as" if "''-Z'' \<notin> set as" for as using that by (induction as rule: drop_pairs.induct) auto
  then show ?thesis using assms by (simp add: filter_main_def filter_args_eq)
qed

end
