(* ===== verification/Commands.thy ===== *)
theory Commands
  imports KernelMain ShellLoop SmallDrivers
begin

text \<open>
  The running kernel: the state that the components share, every command of the shell as a step on
  it (the arms of \<open>dispatch\<close> in \<^verbatim>\<open>src/shell/mod.rs\<close> with the functions they call), and
  the output on the screen. What a command learns from outside, such as the clock, the packets it
  waits for, memory and registers, are the \<open>answers\<close> it gets; with fewer turns than a wait takes the
  result is the state so far. Printed lines appear on the screen in the writer's colour, also the
  coloured ones of \<open>httpget\<close>.
\<close>

section \<open>The state\<close>

record system =
  sy_kernel :: kernel
  sy_conns :: "TcpConn list"
  sy_files :: ramfs
  sy_disk :: "u8 list"
  sy_ext3 :: "ext3 option"
  sy_fb :: "FbConsole option"
  sy_kbd :: kbd
  sy_history :: history
  sy_line :: string
  sy_cells :: "u64 \<Rightarrow> u64"

abbreviation sy_screen :: "system \<Rightarrow> vga" where "sy_screen s \<equiv> k_screen (sy_kernel s)"
abbreviation sy_net :: "system \<Rightarrow> NetStatus" where "sy_net s \<equiv> k_net (sy_kernel s)"
abbreviation sy_cfg :: "system \<Rightarrow> NetConfig option" where "sy_cfg s \<equiv> k_cfg (sy_kernel s)"
abbreviation sy_sched :: "system \<Rightarrow> sched" where "sy_sched s \<equiv> k_sched (sy_kernel s)"

definition put_screen :: "vga \<Rightarrow> system \<Rightarrow> system" where
  "put_screen v s = s\<lparr>sy_kernel := (sy_kernel s)\<lparr>k_screen := v\<rparr>\<rparr>"

definition put_cfg :: "NetConfig option \<Rightarrow> system \<Rightarrow> system" where
  "put_cfg c s = s\<lparr>sy_kernel := (sy_kernel s)\<lparr>k_cfg := c\<rparr>\<rparr>"

definition put_sched :: "sched \<Rightarrow> system \<Rightarrow> system" where
  "put_sched sc s = s\<lparr>sy_kernel := (sy_kernel s)\<lparr>k_sched := sc\<rparr>\<rparr>"

definition put_mouse :: "mouse \<Rightarrow> system \<Rightarrow> system" where
  "put_mouse m s = s\<lparr>sy_kernel := (sy_kernel s)\<lparr>k_mouse := m\<rparr>\<rparr>"

text \<open>What the outside answers while one command runs: the clock whenever it is read, what the two
  waits of a network command find, the positions of the receive ring, memory, processor, bus and
  chip registers, the keys typed in the editor, the address of the test task, and the text and
  place of a panic with its stack trace.\<close>

record answers =
  an_now :: u64
  an_start :: u64
  an_send_now :: u64
  an_receive_now :: u64
  an_close_now :: u64
  an_wait1 :: wait_net
  an_wait2 :: wait_net
  an_offer :: exchange
  an_ack :: exchange
  an_rounds :: "(u64 \<times> u8 list list \<times> u64) list"
  an_ring :: "u16 \<times> u16"
  an_memory :: "nat \<Rightarrow> u8"
  an_cpuid :: "u32 \<Rightarrow> CpuidResult"
  an_pci :: "u32 \<Rightarrow> u32"
  an_r8 :: "u16 \<Rightarrow> u8"
  an_r16 :: "u16 \<Rightarrow> u16"
  an_r32 :: "u16 \<Rightarrow> u32"
  an_keys :: "KeyEvent list"
  an_task :: u64
  an_panic :: "string \<times> (string \<times> nat) option \<times> string list"

text \<open>A command returns, with the frames it handed to the network card, or it never does.\<close>

datatype ran = Back system "u8 list list" | Stopped system

section \<open>Printing\<close>

definition print_bytes :: "u8 list \<Rightarrow> vga \<Rightarrow> vga" where
  "print_bytes b v = vga_write_fmt [[10]] (vga_write_fmt [b] v)"

definition show_lines :: "u8 list list \<Rightarrow> system \<Rightarrow> system" where
  "show_lines ls s = put_screen (fold print_bytes ls (sy_screen s)) s"

abbreviation said :: "string list \<Rightarrow> system \<Rightarrow> ran" where
  "said ls s \<equiv> Back (show_lines (map text_bytes ls) s) []"

text \<open>A message of the log reaches the screen in one call.\<close>

definition print_log :: "LogLevel \<Rightarrow> string \<Rightarrow> vga \<Rightarrow> vga" where
  "print_log lev s v = vga_write_fmt [text_bytes (log_vga lev s)] v"

definition logged :: "LogLevel \<Rightarrow> string list \<Rightarrow> system \<Rightarrow> system" where
  "logged lev ls s = put_screen (fold (print_log lev) ls (sy_screen s)) s"

definition output_lines :: "shell_output \<Rightarrow> u8 list list" where
  "output_lines r =
     (case r of
        Said s \<Rightarrow> [text_bytes s]
      | Created p \<Rightarrow> [text_bytes (''created '' @ p)]
      | Wrote n p \<Rightarrow> [text_bytes (''wrote '' @ decimal n @ '' bytes to '' @ p)]
      | Removed p \<Rightarrow> [text_bytes (''removed '' @ p)]
      | Shown data \<Rightarrow> [if utf8_ok data then data else text_bytes (''(binary '' @ decimal (length data) @ '' bytes)'')]
      | Copied a b n \<Rightarrow> [text_bytes (''copied '' @ a @ '' to '' @ b @ '' ('' @ decimal n @ '' bytes)'')]
      | Moved a b \<Rightarrow> [text_bytes (''moved '' @ a @ '' to '' @ b)]
      | Fs_failed who e \<Rightarrow> [text_bytes (who @ '': '' @ fs_error_text e)]
      | Files fs \<Rightarrow> map (\<lambda>(name, size). text_bytes (fill_right 16 name @ '' '' @ decimal size @ '' bytes'')) fs)"

definition bucket_line :: "nat \<times> nat \<times> nat \<Rightarrow> string" where
  "bucket_line = (\<lambda>(size, used, all). ''  '' @ decimal size @ ''B: '' @ decimal used @ ''/'' @ decimal all @ '' blocks used'')"

definition bucket_lines :: "balloc \<Rightarrow> string list" where
  "bucket_lines a = ''Bucket allocator stats:'' # map bucket_line (bucket_stats a)"

fun calc_error_text :: "calc_error \<Rightarrow> string" where
  "calc_error_text Bad_number = ''bad number''"
| "calc_error_text Invalid_token = ''invalid token''"
| "calc_error_text Mismatched_parens = ''mismatched parens''"
| "calc_error_text Stack_underflow = ''stack underflow''"
| "calc_error_text Overflow_div0 = ''overflow/div0''"
| "calc_error_text Bad_rpn = ''bad rpn''"
| "calc_error_text Bad_expression = ''bad expression''"

definition int_text :: "int \<Rightarrow> string" where
  "int_text n = (if n < 0 then CHR ''-'' # decimal (nat (- n)) else decimal (nat n))"

definition calc_line :: "string \<Rightarrow> string" where
  "calc_line e = (case calc_eval e of Inr n \<Rightarrow> ''= '' @ int_text n | Inl err \<Rightarrow> ''calc error: '' @ calc_error_text err)"

text \<open>The panic handler: its lines, the stack trace, then its screen.\<close>

definition panicked :: "answers \<Rightarrow> system \<Rightarrow> ran" where
  "panicked a s =
     (case an_panic a of (info, loc, trace) \<Rightarrow>
        let ls = (''KERNEL PANIC: '' @ info)
              # (case loc of Some (file, line) \<Rightarrow> [''  at '' @ file @ '':'' @ decimal line] | None \<Rightarrow> []) @ trace
        in Stopped (put_screen (panic_screen info loc (fold print_bytes (map text_bytes ls) (sy_screen s))) s))"

section \<open>The commands\<close>

definition env_at :: "u64 \<Rightarrow> system \<Rightarrow> env" where
  "env_at now s = \<lparr>env_cfg = sy_cfg s, env_mac = nic_mac (sy_net s), env_now = now\<rparr>"

definition file_cmd :: "ramfs \<times> shell_output \<Rightarrow> system \<Rightarrow> ran" where
  "file_cmd r s = Back (show_lines (output_lines (snd r)) (s\<lparr>sy_files := fst r\<rparr>)) []"

definition send_cmd :: "string list \<times> u8 list list \<Rightarrow> system \<Rightarrow> ran" where
  "send_cmd r s = Back (show_lines (map text_bytes (fst r)) s) (snd r)"

definition conns_cmd :: "string list \<times> TcpConn list \<times> u8 list list \<Rightarrow> system \<Rightarrow> ran" where
  "conns_cmd r s = (case r of (ls, conns, out) \<Rightarrow> Back (show_lines (map text_bytes ls) (s\<lparr>sy_conns := conns\<rparr>)) out)"

definition disk_cmd :: "answers \<Rightarrow> ext3 option \<times> string list \<times> bool \<times> u8 list \<Rightarrow> system \<Rightarrow> ran" where
  "disk_cmd a r s =
     (case r of (fs, ls, stuck, d) \<Rightarrow>
        let s = show_lines (map text_bytes ls) (s\<lparr>sy_ext3 := fs, sy_disk := d\<rparr>)
        in if stuck then panicked a s else Back s [])"

definition spawn_cmd :: "u64 \<Rightarrow> system \<Rightarrow> ran" where
  "spawn_cmd task s =
     (case cmd_spawn task (sy_sched s) (sy_cells s) of
        (line, sc, mem') \<Rightarrow>
          let s' = put_sched sc (s\<lparr>sy_cells := mem'\<rparr>)
          in said [line]
               (if fst (spawn (sy_sched s) (sy_cells s) task) < 0 then logged Warn [''No free task slot''] s'
                else logged Info [line @ '', entry=0x'' @ zeros 16 (hexadecimal (unat task))] s'))"

text \<open>The editor takes its keys from the queue that it has cleared before, and writes to the files.\<close>

definition edit_key :: "KeyEvent \<Rightarrow> editor \<times> vga \<Rightarrow> editor \<times> vga" where
  "edit_key k = (\<lambda>(e, v). if closed e then (e, v) else let e' = editor_key k e in (e', key_screen k e e' v))"

definition edit_cmd :: "string \<Rightarrow> KeyEvent list \<Rightarrow> system \<Rightarrow> ran" where
  "edit_cmd p ks s =
     (let e = editor_open (sy_files s) p in
      case fold edit_key ks (e, editor_screen e (sy_screen s)) of
        (e, v) \<Rightarrow> Back (put_screen v (s\<lparr>sy_files := editor.disk e, sy_kbd := flush (sy_kbd s)\<rparr>)) [])"

definition http_cmd :: "answers \<Rightarrow> string \<Rightarrow> string \<Rightarrow> string \<Rightarrow> system \<Rightarrow> ran" where
  "http_cmd a ip port p s =
     conns_cmd (cmd_httpget (env_at (an_now a) s) (an_start a) (env_at (an_send_now a) s) (an_receive_now a)
       (env_at (an_close_now a) s) ip port p
       (map (\<lambda>(now, pkts, now2). (env_at now s, pkts, now2)) (an_rounds a)) (sy_conns s)) s"

fun run_command :: "answers \<Rightarrow> command \<Rightarrow> system \<Rightarrow> ran" where
  "run_command a Cmd_help s = said help_lines s"
| "run_command a Cmd_ls s = file_cmd (cmd_ls (sy_files s)) s"
| "run_command a (Cmd_touch p) s = file_cmd (cmd_touch (sy_files s) p) s"
| "run_command a (Cmd_write l) s = file_cmd (cmd_write (sy_files s) l) s"
| "run_command a (Cmd_cat p) s = file_cmd (cmd_cat (sy_files s) p) s"
| "run_command a (Cmd_rm p) s = file_cmd (cmd_rm (sy_files s) p) s"
| "run_command a (Cmd_cp p q) s = file_cmd (cmd_cp (sy_files s) p q) s"
| "run_command a (Cmd_mv p q) s = file_cmd (cmd_mv (sy_files s) p q) s"
| "run_command a (Cmd_mem verbose) s =
     (let h = k_heap (sy_kernel s)
      in said (heap_lines (heap_stats h) HEAP_SIZE @ (if verbose then bucket_lines h else [])) s)"
| "run_command a Cmd_free s =
     said (free_lines (heap_stats (k_heap (sy_kernel s))) HEAP_SIZE (stats_frames (k_frames (sy_kernel s)))) s"
| "run_command a Cmd_lspci s = said (cmd_lspci (an_pci a)) s"
| "run_command a Cmd_ifconfig s = said (cmd_ifconfig (sy_net s) (sy_cfg s)) s"
| "run_command a Cmd_cpuinfo s =
     (case cmd_cpuinfo (an_cpuid a) of None \<Rightarrow> panicked a s | Some ls \<Rightarrow> Back (show_lines ls s) [])"
| "run_command a Cmd_netinfo s = said (cmd_netinfo (sy_net s) (sy_cfg s) (rx_ring_pos (sy_net s) (an_ring a))) s"
| "run_command a (Cmd_calc e) s = said [calc_line e] s"
| "run_command a Cmd_arpwhois s = send_cmd (cmd_arpwhois (sy_net s) (sy_cfg s) (an_wait1 a)) s"
| "run_command a Cmd_looptest s =
     (case cmd_looptest (sy_net s) (sy_cfg s) (an_wait1 a) (rx_ring_pos (sy_net s) (an_ring a)) of (ls, out, _) \<Rightarrow> send_cmd (ls, out) s)"
| "run_command a Cmd_netdiag s =
     Back (logged Info (dump_regs (an_r8 a) (an_r16 a) (an_r32 a) (k_rtl (sy_kernel s))) s) []"
| "run_command a Cmd_panic s = panicked a s"
| "run_command a (Cmd_spawn name) s = spawn_cmd (an_task a) s"
| "run_command a Cmd_ps s = said (cmd_ps (sy_sched s)) s"
| "run_command a Cmd_shutdown s =
     (case cmd_shutdown of (ls, ws) \<Rightarrow>
        let s = show_lines (map text_bytes ls) s in Stopped (s\<lparr>sy_kernel := ports ws (sy_kernel s)\<rparr>))"
| "run_command a Cmd_clear s = Back (put_screen (clear_screen (sy_screen s)) s) []"
| "run_command a (Cmd_edit p) s = edit_cmd p (an_keys a) s"
| "run_command a (Cmd_hexdump addr len) s = said (cmd_hexdump (an_memory a) addr len) s"
| "run_command a Cmd_uptime s = said [uptime_text (unat (an_now a) div 1000, unat (an_now a) mod 1000)] s"
| "run_command a Cmd_dhcp s =
     (case cmd_dhcp (sy_net s) (sy_cfg s) (an_now a) (an_offer a) (an_ack a) of
        (cfg, ls, out) \<Rightarrow> send_cmd (ls, out) (put_cfg cfg s))"
| "run_command a Cmd_env s =
     (let h = heap_stats (k_heap (sy_kernel s)) in
      case vendor_id_text (an_cpuid a) of
        None \<Rightarrow> panicked a s
      | Some vendor \<Rightarrow>
          said (cmd_env h vendor (stats_frames (k_frames (sy_kernel s))) (unat (an_now a) div 1000, unat (an_now a) mod 1000)) s)"
| "run_command a (Cmd_ping dst) s =
     send_cmd (cmd_ping (sy_net s) (sy_cfg s) dst (an_wait1 a) (an_start a) (an_wait2 a)) s"
| "run_command a (Cmd_tcplisten port) s =
     (case cmd_tcplisten (env_at (an_now a) s) port (sy_conns s) of (ls, conns) \<Rightarrow> conns_cmd (ls, conns, []) s)"
| "run_command a (Cmd_tcpconnect ip port) s =
     conns_cmd (cmd_tcpconnect (env_at (an_now a) s) ip port (sy_conns s)) s"
| "run_command a (Cmd_tcpsend idx data) s = conns_cmd (cmd_tcpsend (env_at (an_now a) s) idx data (sy_conns s)) s"
| "run_command a (Cmd_tcprecv idx) s = (case cmd_tcprecv idx (sy_conns s) of (ls, conns) \<Rightarrow> conns_cmd (ls, conns, []) s)"
| "run_command a (Cmd_tcpclose idx) s = conns_cmd (cmd_tcpclose (env_at (an_now a) s) idx (sy_conns s)) s"
| "run_command a Cmd_tcpstat s = said (cmd_tcpstat (sy_conns s)) s"
| "run_command a (Cmd_ext3ls p) s = disk_cmd a (cmd_ext3ls p (sy_ext3 s) (sy_disk s)) s"
| "run_command a (Cmd_ext3cat p) s = disk_cmd a (cmd_ext3cat p (sy_ext3 s) (sy_disk s)) s"
| "run_command a Cmd_ext3info s = disk_cmd a (cmd_ext3info (sy_ext3 s) (sy_disk s)) s"
| "run_command a Cmd_fb s = said [cmd_fb (sy_fb s)] s"
| "run_command a (Cmd_httpget ip port p) s = http_cmd a ip port p s"
| "run_command a (Usage u) s = said [u] s"
| "run_command a (Unknown w) s = said [''unknown command: '' @ w] s"

section \<open>Interrupts and turns of the shell\<close>

text \<open>The loop over the mouse's events: the queue holds at most 31 of them.\<close>

fun mouse_drain :: "nat \<Rightarrow> mouse \<Rightarrow> MouseEvent list \<times> mouse" where
  "mouse_drain 0 m = ([], m)"
| "mouse_drain (Suc n) m =
     (case mouse_pop_event m of
        (None, m) \<Rightarrow> ([], m)
      | (Some ev, m) \<Rightarrow> (case mouse_drain n m of (evs, m) \<Rightarrow> (ev # evs, m)))"

definition shell_of :: "system \<Rightarrow> shell" where
  "shell_of s = \<lparr>s_history = sy_history s, s_line = sy_line s, s_screen = sy_screen s, s_conns = sy_conns s\<rparr>"

definition put_shell :: "shell \<Rightarrow> system \<Rightarrow> system" where
  "put_shell sh s =
     put_screen (s_screen sh) (s\<lparr>sy_history := s_history sh, sy_line := s_line sh, sy_conns := s_conns sh\<rparr>)"

definition prompt :: "system \<Rightarrow> system" where
  "prompt s = put_shell (start_line (shell_of s)) s"

text \<open>A finished line is submitted and, when it is one, its command is run; then the next line starts.\<close>

definition line_done :: "answers \<Rightarrow> system \<Rightarrow> ran" where
  "line_done a s =
     (case finish_line (shell_of s) of
        (sh, r) \<Rightarrow>
          let s = put_shell sh s in
          case (case r of Run_line line \<Rightarrow> (case dispatch line of None \<Rightarrow> Back s [] | Some c \<Rightarrow> run_command a c s)
                | _ \<Rightarrow> Back s []) of
            Back s out \<Rightarrow> Back (prompt s) out
          | Stopped s \<Rightarrow> Stopped s)"

definition run_turn :: "u8 option \<Rightarrow> u8 list list \<Rightarrow> answers \<Rightarrow> system \<Rightarrow> ran" where
  "run_turn byte pkts a s =
     (case (pop_event (sy_kbd s), mouse_drain 31 (k_mouse (sy_kernel s))) of
        ((key, kb), (moves, m)) \<Rightarrow>
          (case shell_turn (ShellLoop.turn.make key byte moves pkts (env_at (an_now a) s)) (shell_of s) of
             (sh, e, out) \<Rightarrow>
               let s = put_shell sh (s\<lparr>sy_kbd := kb\<rparr>)
               in if e = Editing then Back (put_mouse m s) out else line_done a s))"

text \<open>The timer may switch tasks; the status bytes are what the controller's port 0x64 reads.\<close>

datatype event = Shell_turn "u8 option" "u8 list list" answers | Timer u64 | Key_irq u8 u8 | Mouse_irq u8 u8

fun sys_step :: "event \<Rightarrow> system \<Rightarrow> ran" where
  "sys_step (Shell_turn byte pkts a) s = run_turn byte pkts a s"
| "sys_step (Timer sp) s = Back (put_sched (snd (schedule (sy_sched s) sp)) s) []"
| "sys_step (Key_irq status sc) s = Back (s\<lparr>sy_kbd := kbd_handle_irq (sy_kbd s) status sc\<rparr>) []"
| "sys_step (Mouse_irq status byte) s = Back (put_mouse (mouse_handle_irq (k_mouse (sy_kernel s)) status byte) s) []"

text \<open>The shell's start on what \<open>kernel_main\<close> has prepared, with the disk in the drive.\<close>

definition shell_start :: "u8 list \<Rightarrow> (u64 \<Rightarrow> u64) \<Rightarrow> kernel \<Rightarrow> system" where
  "shell_start d stacks k =
     prompt \<lparr>sy_kernel = k, sy_conns = tcp_conns_new, sy_files = ramfs_new, sy_disk = d, sy_ext3 = None, sy_fb = None,
       sy_kbd = kbd_init, sy_history = history_new, sy_line = [], sy_cells = stacks\<rparr>"

inductive reaches :: "system \<Rightarrow> u8 list list \<Rightarrow> system \<Rightarrow> bool" where
  start: "reaches s [] s"
| step: "reaches s out s' \<Longrightarrow> sys_step ev s' = Back s'' out' \<Longrightarrow> reaches s (out @ out') s''"

end
