(* ===== verification/ScreenSafety.thy ===== *)
theory ScreenSafety
  imports ShellLoop Reports KernelMain
begin

text \<open>
  Safety of the text console: whatever is printed, erased, scrolled or drawn by the editor, the
  video memory keeps its 4000 bytes, so no store is outside it, the cursor stays on the text rows,
  every row of the scrollback ring has its 160 bytes, and the view into it stays within what it
  holds. \<open>screen_mid\<close> is the invariant inside one call, when a row may still wait to be put into
  the ring, \<open>screen_safe\<close> the one between calls.
\<close>

named_theorems screen_simps

definition ring_safe :: "scrollback_buffer \<Rightarrow> bool" where
  "ring_safe sb \<longleftrightarrow> length (sb_lines sb) = SCROLLBACK_LINES \<and> (\<forall>l \<in> set (sb_lines sb). length l = 160)
     \<and> scroll_offset sb \<le> current_line sb - CONTENT_ROWS"

definition screen_mid :: "vga \<Rightarrow> bool" where
  "screen_mid v \<longleftrightarrow> length (vram v) = 4000 \<and> w_row (wr v) < 24 \<and> w_col (wr v) \<le> 80
     \<and> (\<forall>l. deferred v = Some l \<longrightarrow> length l = 160) \<and> ring_safe (scrollback v)"

definition screen_safe :: "vga \<Rightarrow> bool" where
  "screen_safe v \<longleftrightarrow> screen_mid v \<and> deferred v = None"

section \<open>Single stores\<close>

lemma mid_cursor [screen_simps]: "screen_mid (update_hardware_cursor r c v) = screen_mid v"
  by (simp add: update_hardware_cursor_def write_crtc_def Let_def screen_mid_def)

lemma mid_crtc [screen_simps]: "screen_mid (write_crtc i x v) = screen_mid v"
  by (simp add: write_crtc_def screen_mid_def)

lemma mid_write_at: "screen_mid v \<Longrightarrow> r * 80 + c < 2000 \<Longrightarrow> screen_mid (write_at r c b attr v)"
  using length_write_at [of v r c b attr] by (simp add: screen_mid_def write_at_def)

lemma mid_place: "screen_mid v \<Longrightarrow> r < 24 \<Longrightarrow> c \<le> 80 \<Longrightarrow> screen_mid (v\<lparr>wr := (wr v)\<lparr>w_row := r, w_col := c\<rparr>\<rparr>)"
  by (simp add: screen_mid_def)

lemma mid_fold:
  assumes "\<And>x v. x \<in> set xs \<Longrightarrow> screen_mid v \<Longrightarrow> screen_mid (f x v)"
  shows "screen_mid v \<Longrightarrow> screen_mid (fold f xs v)"
  using assms by (induction xs arbitrary: v) auto

lemma mid_blank_cells [screen_simps]: "r \<le> 24 \<Longrightarrow> screen_mid v \<Longrightarrow> screen_mid (blank_cells r attr v)"
  unfolding blank_cells_def by (rule mid_fold) (auto simp: WIDTH_def intro!: mid_write_at)

lemma mid_put_cells [screen_simps]: "r \<le> 24 \<Longrightarrow> screen_mid v \<Longrightarrow> screen_mid (put_cells r c s attr v)"
  unfolding put_cells_def by (rule mid_fold) (auto simp: WIDTH_def intro!: mid_write_at)

lemma mid_writer_clear [screen_simps]: "screen_mid v \<Longrightarrow> screen_mid (writer_clear v)"
proof -
  assume "screen_mid v"
  then have "screen_mid (fold (\<lambda>r v. blank_cells r (w_color (wr v)) v) [0..<CONTENT_ROWS] v)"
    by (rule mid_fold [rotated]) (auto simp: CONTENT_ROWS_def HEIGHT_def intro: mid_blank_cells)
  then show ?thesis by (simp add: writer_clear_def mid_place Let_def)
qed

section \<open>Printing\<close>

lemma mid_scroll: "screen_mid v \<Longrightarrow> screen_mid (scroll v)"
proof -
  assume v: "screen_mid v"
  let ?t = "slc (WIDTH * 2) (WIDTH * 2 + (CONTENT_ROWS - 1) * WIDTH * 2) (vram v)"
  have "length ?t = 3680" "length (slc 0 (WIDTH * 2) (vram v)) = 160" using v by (simp_all add: vga_sizes screen_mid_def)
  then have "screen_mid (v\<lparr>vram := patch (vram v) 0 ?t, deferred := Some (slc 0 (WIDTH * 2) (vram v))\<rparr>)"
    using v by (simp add: screen_mid_def)
  then show ?thesis by (simp add: scroll_def Let_def vga_sizes mid_blank_cells)
qed

lemma scroll_wr: "wr (scroll v) = wr v"
  by (simp add: scroll_def Let_def blank_cells_wr)

lemma mid_newline: "screen_mid v \<Longrightarrow> screen_mid (newline v) \<and> w_col (wr (newline v)) = 0"
proof -
  assume v: "screen_mid v"
  let ?v = "v\<lparr>wr := (wr v)\<lparr>w_col := 0\<rparr>\<rparr>"
  have m: "screen_mid ?v" using v by (simp add: screen_mid_def)
  show ?thesis
  proof (cases "w_row (wr v) + 1 \<ge> CONTENT_ROWS")
    case True
    then show ?thesis using mid_scroll [OF m] by (simp add: newline_def Let_def screen_simps scroll_wr)
  next
    case False
    then have "screen_mid (?v\<lparr>wr := (wr ?v)\<lparr>w_row := w_row (wr ?v) + 1\<rparr>\<rparr>)"
      using m by (simp add: screen_mid_def CONTENT_ROWS_def HEIGHT_def)
    then show ?thesis using False by (simp add: newline_def Let_def screen_simps)
  qed
qed

lemma mid_write_byte: "screen_mid v \<Longrightarrow> screen_mid (write_byte b v)"
proof -
  assume v: "screen_mid v"
  let ?t = "(w_col (wr v) + 8) div 8 * 8"
  have ret: "screen_mid (v\<lparr>wr := (wr v)\<lparr>w_col := 0\<rparr>\<rparr>)" using v by (simp add: screen_mid_def)
  have tab: "screen_mid (if ?t \<ge> WIDTH then newline (v\<lparr>wr := (wr v)\<lparr>w_col := ?t\<rparr>\<rparr>) else v\<lparr>wr := (wr v)\<lparr>w_col := ?t\<rparr>\<rparr>)"
  proof (cases "?t \<ge> WIDTH")
    case True
    have "newline (v\<lparr>wr := (wr v)\<lparr>w_col := ?t\<rparr>\<rparr>) = newline v" by (simp add: newline_def Let_def)
    then show ?thesis using True mid_newline [OF v] by simp
  next
    case False
    then have "?t \<le> 80" by (simp add: WIDTH_def)
    then show ?thesis using v False by (simp add: screen_mid_def)
  qed
  let ?n = "if w_col (wr v) \<ge> WIDTH then newline v else v"
  have n: "screen_mid ?n" "w_col (wr ?n) < 80" "w_row (wr ?n) < 24"
    using v mid_newline [OF v] by (auto simp: WIDTH_def screen_mid_def)
  then have "screen_mid (write_at (w_row (wr ?n)) (w_col (wr ?n)) (printable b) (w_color (wr ?n)) ?n)"
    by (intro mid_write_at) simp_all
  then have put: "screen_mid (let v = ?n; v = write_at (w_row (wr v)) (w_col (wr v)) (printable b) (w_color (wr v)) v
      in v\<lparr>wr := (wr v)\<lparr>w_col := w_col (wr v) + 1\<rparr>\<rparr>)"
    using n(2) by (simp add: screen_mid_def Let_def write_at_def)
  show ?thesis unfolding write_byte_def Let_def [of ?t] using ret tab put mid_newline [OF v] by (simp add: Let_def)
qed

lemma mid_write_str: "screen_mid v \<Longrightarrow> screen_mid (write_str s v)"
  using mid_fold [of s write_byte v] by (simp add: write_str_def Let_def screen_simps mid_write_byte)

lemma add_line_safe: "ring_safe sb \<Longrightarrow> length l = 160 \<Longrightarrow> ring_safe (add_line l sb)"
  by (auto simp: ring_safe_def add_line_def dest: set_update_subset_insert [THEN subsetD])

lemma commit_safe: "screen_mid v \<Longrightarrow> screen_safe (commit_scrollback v)"
  by (cases "deferred v") (auto simp: commit_scrollback_def screen_safe_def screen_mid_def add_line_safe)

lemma safe_mid: "screen_safe v \<Longrightarrow> screen_mid v"
  by (simp add: screen_safe_def)

section \<open>The interface of the console\<close>

named_theorems screen_intros

lemma safe_write_fmt [screen_intros]: "screen_safe v \<Longrightarrow> screen_safe (vga_write_fmt ps v)"
  unfolding vga_write_fmt_def by (rule commit_safe, rule mid_fold) (auto intro: mid_write_str safe_mid)

lemma safe_clear_screen [screen_intros]: "screen_safe v \<Longrightarrow> screen_safe (clear_screen v)"
  unfolding clear_screen_def by (intro commit_safe mid_writer_clear safe_mid)

lemma safe_set_color [screen_intros]: "screen_safe v \<Longrightarrow> screen_safe (set_color fg bg v)"
  unfolding set_color_def by (intro commit_safe) (simp add: writer_set_color_def screen_safe_def screen_mid_def)

lemma safe_set_cursor [screen_intros]: "screen_safe v \<Longrightarrow> screen_safe (set_cursor r c v)"
  unfolding set_cursor_def Let_def
  by (intro commit_safe) (simp add: screen_simps mid_place safe_mid vga_sizes)

lemma safe_write_at [screen_intros]: "screen_safe v \<Longrightarrow> screen_safe (vga_write_at r c s v)"
  unfolding vga_write_at_def by (intro commit_safe mid_put_cells safe_mid) (simp_all add: vga_sizes)

lemma safe_clear_line [screen_intros]: "screen_safe v \<Longrightarrow> screen_safe (clear_line r v)"
  unfolding clear_line_def by (intro commit_safe mid_blank_cells safe_mid) (simp_all add: vga_sizes)

lemma safe_status_line [screen_intros]: "screen_safe v \<Longrightarrow> screen_safe (status_line s v)"
  unfolding status_line_def by (intro commit_safe mid_put_cells mid_blank_cells safe_mid) (simp_all add: vga_sizes)

lemma safe_backspace [screen_intros]: "screen_safe v \<Longrightarrow> screen_safe (backspace v)"
proof -
  assume "screen_safe v"
  then have v: "screen_mid v" by (rule safe_mid)
  let ?r = "w_row (wr v)" and ?c = "w_col (wr v)"
  have b: "?r < 24" "?c \<le> 80" using v by (simp_all add: screen_mid_def)
  have "screen_mid (v\<lparr>wr := (wr v)\<lparr>w_col := ?c - 1\<rparr>\<rparr>)" "screen_mid (v\<lparr>wr := (wr v)\<lparr>w_row := ?r - 1, w_col := WIDTH - 1\<rparr>\<rparr>)"
    using v by (auto simp: screen_mid_def WIDTH_def)
  then show ?thesis
    unfolding backspace_def Let_def using v b
    by (intro commit_safe) (auto simp: screen_simps WIDTH_def intro!: mid_write_at)
qed

section \<open>The view into the scrollback\<close>

lemma safe_redraw_row: "screen_safe v \<Longrightarrow> r < 24 \<Longrightarrow> screen_safe (redraw_row r v)"
proof (cases "get_line (scrollback v) r")
  case (Some l)
  assume v: "screen_safe v" and r: "r < 24"
  have "l \<in> set (sb_lines (scrollback v))"
    using Some v by (auto simp: get_line_def Let_def screen_safe_def screen_mid_def ring_safe_def SCROLLBACK_LINES_def
        split: if_splits)
  then have "length l = 160" using v by (simp add: screen_safe_def screen_mid_def ring_safe_def)
  then show ?thesis using v r Some by (simp add: redraw_row_def screen_safe_def screen_mid_def WIDTH_def)
qed (simp add: redraw_row_def)

lemma safe_fold:
  assumes "\<And>x v. x \<in> set xs \<Longrightarrow> screen_safe v \<Longrightarrow> screen_safe (f x v)"
  shows "screen_safe v \<Longrightarrow> screen_safe (fold f xs v)"
  using assms by (induction xs arbitrary: v) auto

lemma safe_redraw: "screen_safe v \<Longrightarrow> screen_safe (redraw_from_scrollback v)"
proof -
  assume "screen_safe v"
  then have "screen_safe (fold redraw_row [0..<CONTENT_ROWS] v)"
    by (rule safe_fold [rotated]) (simp add: safe_redraw_row vga_sizes)
  then show ?thesis
    using \<open>screen_safe v\<close> by (simp add: redraw_from_scrollback_def Let_def write_crtc_def screen_safe_def screen_mid_def)
qed

lemma safe_ring: "screen_safe v \<Longrightarrow> ring_safe sb \<Longrightarrow> screen_safe (v\<lparr>scrollback := sb\<rparr>)"
  by (simp add: screen_safe_def screen_mid_def)

lemma view_safe: "ring_safe sb \<Longrightarrow> ring_safe (scroll_up n sb)" "ring_safe sb \<Longrightarrow> ring_safe (scroll_down n sb)"
  by (auto simp: ring_safe_def scroll_up_def scroll_down_def Let_def)

lemma safe_display_up [screen_intros]: "screen_safe v \<Longrightarrow> screen_safe (scroll_display_up n v)"
proof -
  assume v: "screen_safe v"
  then have "screen_safe (v\<lparr>scrollback := scroll_up n (scrollback v)\<rparr>)"
    by (intro safe_ring view_safe) (simp_all add: screen_safe_def screen_mid_def)
  then show ?thesis by (simp add: scroll_display_up_def Let_def safe_redraw safe_status_line)
qed

lemma safe_display_down [screen_intros]: "screen_safe v \<Longrightarrow> screen_safe (scroll_display_down n v)"
proof -
  assume v: "screen_safe v"
  then have "screen_safe (v\<lparr>scrollback := scroll_down n (scrollback v)\<rparr>)"
    by (intro safe_ring view_safe) (simp_all add: screen_safe_def screen_mid_def)
  then show ?thesis by (simp add: scroll_display_down_def Let_def safe_redraw safe_status_line)
qed

section \<open>What the shell and the editor show\<close>

lemma safe_print_char [screen_intros]: "screen_safe v \<Longrightarrow> screen_safe (print_char c v)"
  unfolding print_char_def by (rule safe_write_fmt)

lemma safe_print_line [screen_intros]: "screen_safe v \<Longrightarrow> screen_safe (print_line s v)"
  unfolding print_line_def by (intro safe_write_fmt)

lemma safe_erase_line [screen_intros]: "screen_safe v \<Longrightarrow> screen_safe (erase_line line v)"
  unfolding erase_line_def by (rule safe_fold) (auto intro: safe_backspace)

lemma safe_load_shown [screen_intros]: "screen_safe v \<Longrightarrow> screen_safe (load_shown line s v)"
  unfolding load_shown_def by (rule safe_fold) (auto intro: screen_intros)

lemma safe_type_shown [screen_intros]: "screen_safe v \<Longrightarrow> screen_safe (type_shown line c v)"
  by (simp add: type_shown_def screen_intros)

lemma safe_erase_shown [screen_intros]: "screen_safe v \<Longrightarrow> screen_safe (erase_shown line v)"
  by (simp add: erase_shown_def screen_intros)

lemma safe_key_shown [screen_intros]: "screen_safe v \<Longrightarrow> screen_safe (key_shown h line k v)"
  by (cases k) (auto split: option.split intro: screen_intros)

lemma safe_serial_shown [screen_intros]: "screen_safe v \<Longrightarrow> screen_safe (serial_shown line b v)"
  by (simp add: serial_shown_def screen_intros)

lemma safe_mouse_shown [screen_intros]: "screen_safe v \<Longrightarrow> screen_safe (mouse_shown ev v)"
  by (cases ev) (auto intro: screen_intros)

lemma safe_redraw_line: "screen_safe v \<Longrightarrow> screen_safe (redraw_line text r v)"
  by (simp add: redraw_line_def Let_def screen_intros)

lemma safe_redraw_text [screen_intros]: "screen_safe v \<Longrightarrow> screen_safe (redraw text name v)"
  unfolding redraw_def by (intro safe_status_line safe_fold) (rule safe_redraw_line)

lemma safe_editor_screen [screen_intros]: "screen_safe v \<Longrightarrow> screen_safe (editor_screen e v)"
  by (simp add: editor_screen_def screen_intros)

lemma safe_key_screen [screen_intros]: "screen_safe v \<Longrightarrow> screen_safe (key_screen k e e' v)"
  by (cases k) (auto simp: Let_def intro!: screen_intros)

section \<open>The screen that boot hands over\<close>

lemma safe_init: "length screen = 4000 \<Longrightarrow> screen_safe (vga_init \<lparr>vram = screen, wr = writer_new, deferred = None,
    scrollback = scrollback_new, crtc = crt\<rparr>)"
proof -
  assume l: "length screen = 4000"
  let ?v = "\<lparr>vram = screen, wr = writer_new, deferred = None, scrollback = scrollback_new, crtc = crt\<rparr>"
  have "ring_safe scrollback_new" by (simp add: ring_safe_def scrollback_new_def WIDTH_def)
  then have m: "screen_mid ?v" using l by (simp add: screen_mid_def writer_new_def)
  have d: "deferred (fold f xs v) = deferred v" if "\<And>x v. deferred (f x v) = deferred v" for f :: "'a \<Rightarrow> vga \<Rightarrow> vga" and xs v
    using that by (induction xs arbitrary: v) auto
  have b: "deferred (blank_cells r attr v) = deferred v" for r attr v
    unfolding blank_cells_def by (rule d) (simp add: write_at_def)
  have "deferred (writer_clear v) = deferred v" for v
    unfolding writer_clear_def Let_def by (simp add: d b)
  then have "deferred (vga_init ?v) = None" by (simp add: vga_init_def Let_def update_hardware_cursor_def write_crtc_def)
  moreover have "screen_mid (vga_init ?v)" unfolding vga_init_def Let_def using m by (simp only: screen_simps)
  ultimately show ?thesis by (simp add: screen_safe_def)
qed

end
