(* ===== verification/KernelRuns.thy ===== *)
theory KernelRuns
  imports Commands ScreenSafety
begin

text \<open>
  What holds of the running kernel as a whole: \<open>system_ok\<close> puts the invariants of the components
  together, and every command, interrupt and turn of the shell keeps it, so it holds in every state
  that can be reached from the one \<open>kernel_main\<close> leaves. The lemmas go component by component.
\<close>

section \<open>The invariant\<close>

definition system_ok :: "system \<Rightarrow> bool" where
  "system_ok s \<longleftrightarrow> screen_safe (sy_screen s) \<and> table_ok (sy_conns s) \<and> env_ok (env_at 0 s)
     \<and> ramfs_ok (sy_files s) \<and> sched_ok (sy_sched s) \<and> kring_ok (keybuf (sy_kbd s)) \<and> mouse_ok (k_mouse (sy_kernel s))
     \<and> length (sy_line s) \<le> LINE_BUF \<and> history_ok (sy_history s)"

definition frames_fit :: "u8 list list \<Rightarrow> bool" where
  "frames_fit out \<longleftrightarrow> (\<forall>f \<in> set out. length f \<le> 1514)"

fun ran_ok :: "ran \<Rightarrow> bool" where
  "ran_ok (Back s out) = (system_ok s \<and> frames_fit out)"
| "ran_ok (Stopped s) = system_ok s"

lemma frames_fit_simps [simp]:
  "frames_fit []" "frames_fit (f # out) \<longleftrightarrow> length f \<le> 1514 \<and> frames_fit out"
  "frames_fit (out @ out') \<longleftrightarrow> frames_fit out \<and> frames_fit out'"
  by (auto simp: frames_fit_def)

lemma frames_ok_fit: "TcpStates.frames_ok out \<Longrightarrow> frames_fit out"
  by (auto simp: TcpStates.frames_ok_def frames_fit_def MSS_def)

lemma env_ok_at: "system_ok s \<Longrightarrow> env_ok (env_at now s)"
  by (simp add: system_ok_def env_ok_def env_at_def)

lemma ok_put_screen [simp]: "screen_safe v \<Longrightarrow> system_ok s \<Longrightarrow> system_ok (put_screen v s)"
  by (simp add: system_ok_def put_screen_def env_at_def)

lemma ok_put_cfg:
  "system_ok s \<Longrightarrow> (\<forall>c. cfg = Some c \<longrightarrow> length (cfg_ip c) = 4 \<and> length (cfg_gateway c) = 4) \<Longrightarrow> system_ok (put_cfg cfg s)"
  by (simp add: system_ok_def put_cfg_def env_at_def env_ok_def split: option.split)

lemma ok_put_sched [simp]: "sched_ok sc \<Longrightarrow> system_ok s \<Longrightarrow> system_ok (put_sched sc s)"
  by (simp add: system_ok_def put_sched_def env_at_def)

lemma ok_put_mouse [simp]: "mouse_ok m \<Longrightarrow> system_ok s \<Longrightarrow> system_ok (put_mouse m s)"
  by (simp add: system_ok_def put_mouse_def env_at_def)

lemma ok_parts [simp]:
  "table_ok conns \<Longrightarrow> system_ok s \<Longrightarrow> system_ok (s\<lparr>sy_conns := conns\<rparr>)"
  "ramfs_ok fs \<Longrightarrow> system_ok s \<Longrightarrow> system_ok (s\<lparr>sy_files := fs\<rparr>)"
  "kring_ok (keybuf kb) \<Longrightarrow> system_ok s \<Longrightarrow> system_ok (s\<lparr>sy_kbd := kb\<rparr>)"
  "system_ok s \<Longrightarrow> system_ok (s\<lparr>sy_ext3 := x, sy_disk := d\<rparr>)"
  "system_ok s \<Longrightarrow> system_ok (s\<lparr>sy_cells := c\<rparr>)"
  "system_ok s \<Longrightarrow> system_ok (s\<lparr>sy_kernel := ports ws (sy_kernel s)\<rparr>)"
  by (simp_all add: system_ok_def env_at_def ports_def)

lemma ok_screen: "system_ok s \<Longrightarrow> screen_safe (sy_screen s)"
  by (simp add: system_ok_def)

lemma safe_print_bytes [screen_intros]: "screen_safe v \<Longrightarrow> screen_safe (print_bytes b v)"
  unfolding print_bytes_def by (intro safe_write_fmt)

lemma safe_printed: "screen_safe v \<Longrightarrow> screen_safe (fold print_bytes ls v)"
  by (rule safe_fold) (auto intro: safe_print_bytes)

lemma ok_show_lines [simp]: "system_ok s \<Longrightarrow> system_ok (show_lines ls s)"
  by (simp add: show_lines_def safe_printed ok_screen)

lemma ok_logged [simp]: "system_ok s \<Longrightarrow> system_ok (logged lev ls s)"
  unfolding logged_def
  by (rule ok_put_screen) (auto simp: print_log_def ok_screen intro!: safe_fold [where f = "print_log lev"] safe_write_fmt)

lemma ok_panicked: "system_ok s \<Longrightarrow> ran_ok (panicked a s)"
proof -
  assume s: "system_ok s"
  obtain info loc trace where p: "an_panic a = (info, loc, trace)" by (metis prod_cases3)
  have safe: "screen_safe v \<Longrightarrow> screen_safe (panic_screen info loc v)" for v
    by (auto simp: panic_screen_def panic_banner_def Let_def split: option.split intro!: screen_intros)
  show ?thesis
    unfolding panicked_def p prod.case Let_def ran_ok.simps by (intro ok_put_screen safe safe_printed ok_screen s)
qed

section \<open>Files\<close>

lemma ramfs_ops_ok:
  assumes "ramfs_ok fs"
  shows "ramfs_write fs p d = Inr fs' \<Longrightarrow> ramfs_ok fs'" "ramfs_create fs p = Inr fs' \<Longrightarrow> ramfs_ok fs'"
    "ramfs_delete fs p = Inr fs' \<Longrightarrow> ramfs_ok fs'"
  using ram.write_law [OF assms, of p d] ram.create_law [OF assms, of p] ram.delete_law [OF assms, of p]
  by (simp_all add: ramfs_impl_def)

lemmas ramfs_dests = ramfs_ops_ok(1) [rotated] ramfs_ops_ok(2) [rotated] ramfs_ops_ok(3) [rotated]

lemma file_commands_ok:
  assumes "ramfs_ok fs"
  shows "ramfs_ok (fst (cmd_ls fs))" "ramfs_ok (fst (cmd_touch fs p))" "ramfs_ok (fst (cmd_write fs l))"
    "ramfs_ok (fst (cmd_cat fs p))" "ramfs_ok (fst (cmd_rm fs p))" "ramfs_ok (fst (cmd_cp fs p q))" "ramfs_ok (fst (cmd_mv fs p q))"
proof -
  show "ramfs_ok (fst (cmd_ls fs))" using assms by (simp add: cmd_ls_def)
  show "ramfs_ok (fst (cmd_touch fs p))" using assms by (auto simp: cmd_touch_def split: sum.split dest: ramfs_dests)
  show "ramfs_ok (fst (cmd_write fs l))"
    using assms by (auto simp: cmd_write_def Let_def split: sum.split option.split dest: ramfs_dests)
  show "ramfs_ok (fst (cmd_cat fs p))" using assms by (simp add: cmd_cat_def split: sum.split)
  show "ramfs_ok (fst (cmd_rm fs p))" using assms by (auto simp: cmd_rm_def split: sum.split dest: ramfs_dests)
  show "ramfs_ok (fst (cmd_cp fs p q))" using assms by (auto simp: cmd_cp_def split: sum.split dest: ramfs_dests)
  show "ramfs_ok (fst (cmd_mv fs p q))" using assms by (auto simp: cmd_mv_def split: sum.split dest: ramfs_dests)
qed

lemma ok_file_cmd: "system_ok s \<Longrightarrow> ramfs_ok (fst r) \<Longrightarrow> ran_ok (file_cmd r s)"
  by (simp add: file_cmd_def)

lemma ok_files: "system_ok s \<Longrightarrow> ramfs_ok (sy_files s)"
  by (simp add: system_ok_def)

lemma editor_key_files: "ramfs_ok (editor.disk e) \<Longrightarrow> ramfs_ok (editor.disk (editor_key k e))"
  by (cases k) (auto split: sum.split dest: ramfs_dests)

lemma ok_edit_cmd: "system_ok s \<Longrightarrow> ran_ok (edit_cmd p ks s)"
proof -
  assume s: "system_ok s"
  let ?P = "\<lambda>(e, v). ramfs_ok (editor.disk e) \<and> screen_safe v"
  let ?e = "editor_open (sy_files s) p"
  have run: "?P (fold edit_key ks ev)" if "?P ev" for ev
    using that
  proof (induction ks arbitrary: ev)
    case (Cons k ks)
    have "?P (edit_key k ev)"
      using Cons.prems by (auto simp: edit_key_def Let_def editor_key_files safe_key_screen split: prod.splits)
    then show ?case using Cons.IH by simp
  qed simp
  obtain e v where r: "fold edit_key ks (?e, editor_screen ?e (sy_screen s)) = (e, v)" by (metis prod.exhaust)
  have "?P (?e, editor_screen ?e (sy_screen s))"
    using s by (simp add: editor_open_def Let_def ok_files ok_screen safe_editor_screen)
  from run [OF this] have "ramfs_ok (editor.disk e)" "screen_safe v" unfolding r by simp_all
  moreover have "kring_ok (keybuf (flush (sy_kbd s)))" using s by (simp add: flush_def ring_clear_items system_ok_def)
  ultimately show ?thesis using s by (simp add: edit_cmd_def Let_def r)
qed

section \<open>Connections\<close>

definition tcp_ok :: "tcp_io \<Rightarrow> bool" where
  "tcp_ok io \<longleftrightarrow> table_ok (fst io) \<and> TcpStates.frames_ok (snd io)"

lemma frames_ok_append [simp]: "TcpStates.frames_ok (out @ out') \<longleftrightarrow> TcpStates.frames_ok out \<and> TcpStates.frames_ok out'"
  by (auto simp: TcpStates.frames_ok_def)

lemma tcp_calls_ok:
  assumes "env_ok e" "table_ok conns"
  shows "tcp_listen e p conns = (r1, c1) \<Longrightarrow> table_ok c1"
    "length ip = 4 \<Longrightarrow> tcp_connect e lp ip rp conns = (r2, c2, o2) \<Longrightarrow> table_ok c2 \<and> TcpStates.frames_ok o2"
    "tcp_send e i d conns = (r3, c3, o3) \<Longrightarrow> table_ok c3 \<and> TcpStates.frames_ok o3"
    "tcp_recv i n conns = (r4, c4) \<Longrightarrow> table_ok c4"
    "tcp_close e i conns = (r5, c5, o5) \<Longrightarrow> table_ok c5 \<and> TcpStates.frames_ok o5"
    "length sip = 4 \<Longrightarrow> tcp_receive e sip pkt conns = (c6, o6) \<Longrightarrow> table_ok c6 \<and> TcpStates.frames_ok o6"
  using tcp_step_ok [OF assms(1) _ assms(2), of "EvListen p"] tcp_step_ok [OF assms(1) _ assms(2), of "EvConnect lp ip rp"]
    tcp_step_ok [OF assms(1) _ assms(2), of "EvSend i d"] tcp_step_ok [OF assms(1) _ assms(2), of "EvRecv i n"]
    tcp_step_ok [OF assms(1) _ assms(2), of "EvClose i"] tcp_step_ok [OF assms(1) _ assms(2), of "EvSegment sip pkt"]
  by simp_all

lemma dispatch_packet_ok:
  assumes "env_ok e" "table_ok conns" "dispatch_packet e pkt conns = (conns', out)"
  shows "table_ok conns' \<and> TcpStates.frames_ok out"
proof -
  have ip: "length (ip_src ip) = 4" if "ip_parse d = Some ip" for d ip
    using that by (auto simp: ip_parse_def Let_def split: if_splits)
  show ?thesis
    using assms(2,3) tcp_calls_ok(6) [OF assms(1,2) ip]
    by (simp add: dispatch_packet_def wf_simps split: option.splits if_splits)
qed

lemma dispatch_all_ok:
  "env_ok e \<Longrightarrow> table_ok conns \<Longrightarrow> dispatch_all e pkts conns = (conns', out) \<Longrightarrow> table_ok conns' \<and> TcpStates.frames_ok out"
proof (induction e pkts conns arbitrary: conns' out rule: dispatch_all.induct)
  case (1 e conns)
  then show ?case by (simp add: wf_simps)
next
  case (2 e pkt pkts conns)
  obtain c1 o1 where a: "dispatch_packet e pkt conns = (c1, o1)" by (metis prod.exhaust)
  obtain c2 o2 where b: "dispatch_all e pkts c1 = (c2, o2)" by (metis prod.exhaust)
  have "table_ok c1" "TcpStates.frames_ok o1" using dispatch_packet_ok [OF 2(2,3) a] by simp_all
  moreover have "table_ok c2 \<and> TcpStates.frames_ok o2" using 2(1) [OF a [symmetric]] 2(2) \<open>table_ok c1\<close> b by blast
  ultimately show ?case using 2(4) by (auto simp: a b)
qed

lemma length_poll: "length (fst (tcp_poll e conns out)) = length conns"
  by (induction conns arbitrary: out) (simp_all add: case_prod_unfold)

lemma poll_and_dispatch_ok:
  assumes "env_ok e" "table_ok conns" "poll_and_dispatch e pkts conns = (conns', out)"
  shows "table_ok conns' \<and> TcpStates.frames_ok out"
proof -
  obtain c1 o1 where a: "dispatch_all e pkts conns = (c1, o1)" by (metis prod.exhaust)
  note A = dispatch_all_ok [OF assms(1,2) a]
  have "tcp_poll e c1 o1 = (conns', out)" using assms(3) by (simp add: poll_and_dispatch_def a)
  then show ?thesis
    using A tcp_poll_ok [OF assms(1), of c1 o1] length_poll [of e c1 o1] by (simp add: table_ok_def TcpStates.frames_ok_def)
qed

lemma polled_ok: "env_ok e \<Longrightarrow> tcp_ok io \<Longrightarrow> tcp_ok (polled e pkts io)"
proof -
  assume e: "env_ok e" and io: "tcp_ok io"
  obtain c o1 where s: "io = (c, o1)" by (metis prod.exhaust)
  obtain c' o2 where p: "poll_and_dispatch e pkts c = (c', o2)" by (metis prod.exhaust)
  show ?thesis using io poll_and_dispatch_ok [OF e _ p] by (simp add: s polled_def p tcp_ok_def)
qed

lemma tcp_ok_iff: "tcp_ok (conns, out) \<longleftrightarrow> table_ok conns \<and> TcpStates.frames_ok out"
  by (simp add: tcp_ok_def)

text \<open>The loops of \<open>httpget\<close>.\<close>

lemma wait_established_ok:
  "tcp_ok io \<Longrightarrow> \<forall>(e, _) \<in> set rs. env_ok e \<Longrightarrow> wait_established deadline idx rs io = (r, rs', io') \<Longrightarrow>
   tcp_ok io' \<and> set rs' \<subseteq> set rs"
proof (induction rs arbitrary: io)
  case (Cons x rs)
  obtain e pkts now where x: "x = (e, pkts, now)" by (metis prod_cases3)
  let ?io = "polled e pkts io"
  have io: "tcp_ok ?io" using Cons.prems(1,2) x by (intro polled_ok) auto
  have rs: "\<forall>(e, _) \<in> set rs. env_ok e" using Cons.prems(2) by simp
  have "rs' = rs \<and> io' = ?io \<or> wait_established deadline idx rs ?io = (r, rs', io')"
    using Cons.prems(3) by (auto simp: x Let_def split: sum.splits TcpState.splits if_splits)
  then show ?case using io Cons.IH [OF io rs] by auto
qed simp

lemma recv_io_ok: "tcp_ok (conns, out) \<Longrightarrow> tcp_recv i n conns = (r, conns') \<Longrightarrow> tcp_ok (conns', out)"
  using tcp_step_ok [of "\<lparr>env_cfg = None, env_mac = replicate 6 0, env_now = 0\<rparr>" "EvRecv i n" conns]
  by (simp add: tcp_ok_iff env_ok_def)

lemma http_receive_ok:
  "tcp_ok io \<Longrightarrow> \<forall>(e, _) \<in> set rs. env_ok e \<Longrightarrow> http_receive deadline idx rs ls io = (r, ls', io') \<Longrightarrow> tcp_ok io'"
proof (induction rs arbitrary: ls io)
  case (Cons x rs)
  obtain e pkts now where x: "x = (e, pkts, now)" by (metis prod_cases3)
  obtain c1 o1 where p: "polled e pkts io = (c1, o1)" by (metis prod.exhaust)
  obtain r1 c2 where q: "tcp_recv idx 4096 c1 = (r1, c2)" by (metis prod.exhaust)
  have "tcp_ok (polled e pkts io)" using Cons.prems(1,2) x by (intro polled_ok) auto
  then have c2: "tcp_ok (c2, o1)" unfolding p by (rule recv_io_ok [OF _ q])
  have rs: "\<forall>(e, _) \<in> set rs. env_ok e" using Cons.prems(2) by simp
  show ?case
    using Cons.prems(3) c2 Cons.IH [OF c2 rs] by (auto simp: x p q split: sum.splits list.splits if_splits)
qed simp

lemma parse_ipv4_length: "parse_ipv4 t = Some ip \<Longrightarrow> length ip = 4"
  by (auto simp: parse_ipv4_def parse_ip_def Let_def split: if_splits)

lemma http_exchange_ok:
  assumes "env_ok e2" "env_ok e3" "\<forall>(e, _) \<in> set rs. env_ok e" "tcp_ok io"
    and r: "http_exchange e2 from2 e3 ip port url idx rs ls io = (ls', io')"
  shows "tcp_ok io'"
proof -
  have io: "table_ok (fst io)" "TcpStates.frames_ok (snd io)" using assms(4) by (simp_all add: tcp_ok_def)
  obtain r1 c1 o1 where s: "tcp_send e2 idx (bytes_of (http_request url ip port)) (fst io) = (r1, c1, o1)" by (metis prod_cases3)
  have c1: "tcp_ok (c1, snd io @ o1)" using tcp_calls_ok(3) [OF assms(1) io(1) s] io(2) by (simp add: tcp_ok_iff)
  show ?thesis
  proof (cases r1)
    case (Inl err)
    then show ?thesis using r c1 by (auto simp: http_exchange_def s)
  next
    case (Inr n)
    obtain b ls2 c2 o2 where g: "http_receive (from2 + 10000) idx rs (ls @ [''Sent '' @ decimal n @ '' bytes'']) (c1, snd io @ o1)
        = (b, ls2, (c2, o2))" by (metis prod.exhaust)
    have c2: "tcp_ok (c2, o2)" by (rule http_receive_ok [OF c1 assms(3) g])
    obtain r3 c3 o3 where cl: "tcp_close e3 idx c2 = (r3, c3, o3)" by (metis prod_cases3)
    have "tcp_ok (c3, o2 @ o3)" using tcp_calls_ok(5) [OF assms(2) _ cl] c2 by (simp add: tcp_ok_iff)
    moreover have "io' = (c2, o2) \<or> io' = (c3, o2 @ o3)"
      using r unfolding http_exchange_def s prod.case Inr sum.case g cl by (cases b) auto
    ultimately show ?thesis using c2 by auto
  qed
qed

lemma httpget_ok:
  assumes "env_ok e1" "env_ok e2" "env_ok e3" "\<forall>(e, _) \<in> set rs. env_ok e" "table_ok conns"
    and r: "cmd_httpget e1 from1 e2 from2 e3 ip port url rs conns = (ls, io)"
  shows "tcp_ok io"
proof (cases "parse_ipv4 ip = None \<or> parse_unsigned 65535 port = None")
  case True
  then show ?thesis using r assms(5) by (auto simp: cmd_httpget_def tcp_ok_iff wf_simps split: option.splits)
next
  case False
  then obtain a n where a: "parse_ipv4 ip = Some a" "parse_unsigned 65535 port = Some n" by auto
  obtain r1 c1 o1 where c: "tcp_connect e1 (http_port (env_now e1)) a (of_nat n) conns = (r1, c1, o1)" by (metis prod_cases3)
  have c1: "tcp_ok (c1, o1)" using tcp_calls_ok(2) [OF assms(1,5) parse_ipv4_length [OF a(1)] c] by (simp add: tcp_ok_iff)
  show ?thesis
  proof (cases r1)
    case (Inl err)
    then show ?thesis using r c1 by (auto simp: cmd_httpget_def a c)
  next
    case (Inr idx)
    obtain w rs' io' where w: "wait_established (from1 + 5000) idx rs (c1, o1) = (w, rs', io')" by (metis prod_cases3)
    note W = wait_established_ok [OF c1 assms(4) w]
    have rs: "\<forall>(e, _) \<in> set rs'. env_ok e" using W assms(4) by auto
    show ?thesis
    proof (cases w)
      case (Answer u)
      have "http_exchange e2 from2 e3 ip n url idx rs' ([''Connecting to '' @ ip @ '':'' @ decimal n @ ''...'']
          @ [''Connected, sending request...'']) io' = (ls, io)"
        using r unfolding cmd_httpget_def a c Inr w Answer Let_def option.case prod.case sum.case outcome.case .
      from http_exchange_ok [OF assms(2,3) rs _ this] W show ?thesis by simp
    qed (use r W in \<open>simp_all add: cmd_httpget_def a c Inr w Let_def\<close>)
  qed
qed

text \<open>The commands on connections, as they run on the system.\<close>

lemma ok_conns_cmd:
  assumes "system_ok s" "table_ok (fst (snd r))" "TcpStates.frames_ok (snd (snd r))"
  shows "ran_ok (conns_cmd r s)"
  using assms by (cases r) (simp add: conns_cmd_def frames_ok_fit)

lemma conns_commands_ok:
  assumes "env_ok e" "table_ok conns"
  shows "table_ok (snd (cmd_tcplisten e port conns))"
    "table_ok (fst (snd (cmd_tcpconnect e ip port conns))) \<and> TcpStates.frames_ok (snd (snd (cmd_tcpconnect e ip port conns)))"
    "table_ok (fst (snd (cmd_tcpsend e i d conns))) \<and> TcpStates.frames_ok (snd (snd (cmd_tcpsend e i d conns)))"
    "table_ok (snd (cmd_tcprecv i conns))"
    "table_ok (fst (snd (cmd_tcpclose e i conns))) \<and> TcpStates.frames_ok (snd (snd (cmd_tcpclose e i conns)))"
proof -
  note C = tcp_calls_ok [OF assms]
  have no: "TcpStates.frames_ok []" by (simp add: wf_simps)
  show "table_ok (snd (cmd_tcplisten e port conns))"
  proof (cases "parse_unsigned 65535 port")
    case (Some n)
    obtain r c where t: "tcp_listen e (of_nat n) conns = (r, c)" by (metis prod.exhaust)
    show ?thesis using C(1) [OF t] by (cases r) (simp_all add: cmd_tcplisten_def Some t split: unit.split)
  qed (use assms(2) in \<open>simp add: cmd_tcplisten_def\<close>)
  show "table_ok (fst (snd (cmd_tcpconnect e ip port conns))) \<and> TcpStates.frames_ok (snd (snd (cmd_tcpconnect e ip port conns)))"
  proof (cases "parse_ipv4 ip = None \<or> parse_unsigned 65535 port = None")
    case False
    then obtain a n where a: "parse_ipv4 ip = Some a" "parse_unsigned 65535 port = Some n" by auto
    obtain r c out where t: "tcp_connect e (ephemeral_port (env_now e)) a (of_nat n) conns = (r, c, out)" by (metis prod_cases3)
    show ?thesis using C(2) [OF parse_ipv4_length [OF a(1)] t] by (cases r) (simp_all add: cmd_tcpconnect_def a t Let_def)
  qed (use assms(2) no in \<open>auto simp: cmd_tcpconnect_def split: option.split\<close>)
  show "table_ok (fst (snd (cmd_tcpsend e i d conns))) \<and> TcpStates.frames_ok (snd (snd (cmd_tcpsend e i d conns)))"
  proof (cases "parse_usize i")
    case (Some n)
    obtain r c out where t: "tcp_send e n (bytes_of d) conns = (r, c, out)" by (metis prod_cases3)
    show ?thesis using C(3) [OF t] by (cases r) (simp_all add: cmd_tcpsend_def Some t)
  qed (use assms(2) no in \<open>simp add: cmd_tcpsend_def\<close>)
  show "table_ok (snd (cmd_tcprecv i conns))"
  proof (cases "parse_usize i")
    case (Some n)
    obtain r c where t: "tcp_recv n 512 conns = (r, c)" by (metis prod.exhaust)
    show ?thesis using C(4) [OF t] by (cases r) (simp_all add: cmd_tcprecv_def Some t split: list.split)
  qed (use assms(2) in \<open>simp add: cmd_tcprecv_def\<close>)
  show "table_ok (fst (snd (cmd_tcpclose e i conns))) \<and> TcpStates.frames_ok (snd (snd (cmd_tcpclose e i conns)))"
  proof (cases "parse_usize i")
    case (Some n)
    obtain r c out where t: "tcp_close e n conns = (r, c, out)" by (metis prod_cases3)
    show ?thesis using C(5) [OF t] by (cases r) (simp_all add: cmd_tcpclose_def Some t split: unit.split)
  qed (use assms(2) no in \<open>simp add: cmd_tcpclose_def\<close>)
qed

lemma ok_http_cmd: "system_ok s \<Longrightarrow> ran_ok (http_cmd a ip port url s)"
proof -
  assume s: "system_ok s"
  let ?r = "cmd_httpget (env_at (an_now a) s) (an_start a) (env_at (an_send_now a) s) (an_receive_now a)
      (env_at (an_close_now a) s) ip port url (map (\<lambda>(now, pkts, now2). (env_at now s, pkts, now2)) (an_rounds a)) (sy_conns s)"
  have "table_ok (sy_conns s)" using s by (simp add: system_ok_def)
  moreover have "\<forall>(e, _) \<in> set (map (\<lambda>(now, pkts, now2). (env_at now s, pkts, now2)) (an_rounds a)). env_ok e"
    using s by (auto simp: env_ok_at)
  ultimately have "tcp_ok (snd ?r)" using s by (intro httpget_ok [where ls = "fst ?r"]) (simp_all add: env_ok_at)
  then show ?thesis unfolding http_cmd_def using s by (intro ok_conns_cmd) (simp_all add: tcp_ok_def)
qed

section \<open>Frames of the other commands\<close>

lemma eth_build_size: "eth_build dst src ty p out = Some (n, b) \<Longrightarrow> n = 14 + length p \<and> n \<le> length out"
  by (auto simp: eth_build_def Let_def split: if_splits)

lemma arp_frame_size: "arp_frame mac ip dst room = Some f \<Longrightarrow> length f \<le> room"
  by (auto simp: arp_frame_def split: option.splits dest!: eth_build_size)

lemma ping_frame_size: "ping_frame dmac mac ip dst = Some f \<Longrightarrow> length f \<le> 98"
  by (auto simp: ping_frame_def Let_def split: option.splits dest!: eth_build_size)

lemma dhcp_frame_size: "dhcp_frame p mac = Some f \<Longrightarrow> length f \<le> 546"
  by (auto simp: dhcp_frame_def Let_def min_le_iff_disj split: option.splits dest!: eth_build_size)

lemma resolve_mac_fits: "frames_fit (snd (resolve_mac dst cfg mac w))"
  by (auto simp: resolve_mac_def split: option.split waited.split dest!: arp_frame_size)

lemma arpwhois_fits: "frames_fit (snd (cmd_arpwhois st cfg w))"
  by (auto simp: cmd_arpwhois_def Let_def split: option.split dest!: arp_frame_size)

lemma looptest_fits: "frames_fit (fst (snd (cmd_looptest st cfg w pos)))"
  by (auto simp: cmd_looptest_def Let_def split: option.split waited.split dest!: arp_frame_size)

lemma ping_fits: "frames_fit (snd (cmd_ping st cfg dst w1 start w2))"
proof (cases "nic_kind st = NicNone \<or> parse_ip dst = None \<or> cfg = None")
  case False
  then obtain ns c where p: "nic_kind st \<noteq> NicNone" "parse_ip dst = Some ns" "cfg = Some c" by auto
  obtain r f where m: "resolve_mac (map of_nat ns) c (nic_mac st) w1 = (r, f)" by (metis prod.exhaust)
  have f: "frames_fit f" using resolve_mac_fits [of "map of_nat ns" c "nic_mac st" w1] by (simp add: m)
  show ?thesis
  proof (cases r)
    case (Answer mac)
    then show ?thesis
      using f by (auto simp: cmd_ping_def p m Let_def split: option.split dest!: ping_frame_size)
  qed (use f in \<open>simp_all add: cmd_ping_def p m Let_def\<close>)
qed (auto simp: cmd_ping_def split: option.split)

lemma ok_send_cmd: "system_ok s \<Longrightarrow> frames_fit (snd r) \<Longrightarrow> ran_ok (send_cmd r s)"
  by (simp add: send_cmd_def)

text \<open>A configuration that \<open>dhcp\<close> stores has addresses of four bytes.\<close>

definition opts_ok :: "dhcp_opts \<Rightarrow> bool" where
  "opts_ok a \<longleftrightarrow> (\<forall>g. opt_gateway a = Some g \<longrightarrow> length g = 4)"

lemma opts_loop_ok: "opts_ok a \<Longrightarrow> opts_ok (opts_loop opts a)"
proof (induction opts a rule: opts_loop.induct)
  case (2 tag rest a)
  have "opts_ok (take_opt t b a)" for t b using 2(3) by (auto simp: opts_ok_def take_opt_def)
  then show ?case using 2 by (auto split: list.split)
qed simp

lemma reply_ok:
  assumes "await_reply deadline mac xid ts = Answer r"
  shows "opts_ok (reply_opts r) \<and> (\<forall>ip. yiaddr r = Some ip \<longrightarrow> length ip = 4)"
proof -
  have p: "opts_ok (reply_opts r) \<and> (\<forall>ip. yiaddr r = Some ip \<longrightarrow> length ip = 4)" if d: "parse_dhcp_reply d xid mac = Some r" for d
  proof -
    let ?yi = "slc 16 20 d"
    have "r = \<lparr>yiaddr = (if ?yi \<noteq> [0, 0, 0, 0] then Some ?yi else None), reply_opts = parse_dhcp_options (drop 240 d)\<rparr>"
      and "\<not> length d < DHCP_MSG_SIZE"
      using d unfolding parse_dhcp_reply_def Let_def by (simp_all only: option.inject option.distinct split: if_splits) simp_all
    moreover have "opts_ok no_opts" by (simp add: opts_ok_def no_opts_def)
    ultimately show ?thesis using opts_loop_ok [of no_opts "drop 240 d"] by (simp add: parse_dhcp_options_def DHCP_MSG_SIZE_def)
  qed
  have "reply_in_packet mac xid pkt = Some r \<Longrightarrow> opts_ok (reply_opts r) \<and> (\<forall>ip. yiaddr r = Some ip \<longrightarrow> length ip = 4)" for pkt
    using p by (auto simp: reply_in_packet_def split: option.splits if_splits)
  then show ?thesis using assms by (induction ts) (auto split: prod.splits if_splits option.splits)
qed

lemma send_and_recv_ok:
  assumes "send_and_recv payload mac xid x = (r, f)"
  shows "frames_fit f" "r = Answer a \<Longrightarrow> opts_ok (reply_opts a) \<and> (\<forall>ip. yiaddr a = Some ip \<longrightarrow> length ip = 4)"
  using assms by (auto simp: send_and_recv_def split: option.splits if_splits dest!: dhcp_frame_size reply_ok)

lemma dhcp_request_ok:
  assumes "dhcp_request mac xid x1 x2 = (r, f)"
  shows "frames_fit f \<and> (\<forall>c. r = Answer c \<longrightarrow> length (cfg_ip c) = 4 \<and> length (cfg_gateway c) = 4)"
proof -
  obtain r1 f1 where a: "send_and_recv (build_dhcp_msg 1 xid mac 1 None None) mac xid x1 = (r1, f1)" by (metis prod.exhaust)
  note A = send_and_recv_ok [OF a]
  show ?thesis
  proof (cases "\<exists>o1 ip. r1 = Answer o1 \<and> yiaddr o1 = Some ip")
    case True
    then obtain o1 ip where o: "r1 = Answer o1" "yiaddr o1 = Some ip" by blast
    obtain r2 f2 where b: "send_and_recv (build_dhcp_msg 1 xid mac 3 (Some ip) (opt_server (reply_opts o1))) mac xid x2 = (r2, f2)"
      by (metis prod.exhaust)
    note B = send_and_recv_ok [OF b]
    have ip: "length ip = 4" using A(2) [OF o(1)] o(2) by blast
    show ?thesis
    proof (cases r2)
      case (Answer o2)
      then have "opts_ok (reply_opts o2)" using B(2) by blast
      then show ?thesis using assms A(1) B(1) ip
        by (auto simp: dhcp_request_def a o b Answer Let_def opts_ok_def Dhcp.or_default_def split: if_splits option.splits)
    qed (use assms A(1) B(1) in \<open>auto simp: dhcp_request_def a o b\<close>)
  next
    case False
    then show ?thesis using assms A(1) by (cases r1) (auto simp: dhcp_request_def a split: option.splits)
  qed
qed

lemma ok_dhcp:
  assumes "system_ok s" "cmd_dhcp (sy_net s) (sy_cfg s) now x1 x2 = (cfg, ls, out)"
  shows "ran_ok (send_cmd (ls, out) (put_cfg cfg s))"
proof -
  obtain r f where d: "dhcp_request (nic_mac (sy_net s)) (ucast now) x1 x2 = (r, f)" by (metis prod.exhaust)
  have old: "\<forall>c. sy_cfg s = Some c \<longrightarrow> length (cfg_ip c) = 4 \<and> length (cfg_gateway c) = 4"
    using assms(1) by (auto simp: system_ok_def env_ok_def env_at_def)
  have "frames_fit out \<and> (\<forall>c. cfg = Some c \<longrightarrow> length (cfg_ip c) = 4 \<and> length (cfg_gateway c) = 4)"
    using assms(2) dhcp_request_ok [OF d] old by (cases r) (auto simp: cmd_dhcp_def d Let_def split: if_splits)
  then show ?thesis using assms(1) by (intro ok_send_cmd ok_put_cfg) simp_all
qed

section \<open>Tasks, queues and the line\<close>

lemma ok_sched: "system_ok s \<Longrightarrow> sched_ok (sy_sched s)"
  by (simp add: system_ok_def)

lemma ok_spawn_cmd: "system_ok s \<Longrightarrow> ran_ok (spawn_cmd task s)"
proof -
  assume s: "system_ok s"
  obtain n sc cells' where p: "spawn (sy_sched s) (sy_cells s) task = (n, sc, cells')" by (metis prod_cases3)
  have "sched_ok sc" by (rule spawn_ok [OF ok_sched [OF s] p])
  then show ?thesis using s by (simp add: spawn_cmd_def cmd_spawn_def p Let_def)
qed

lemma ok_timer: "system_ok s \<Longrightarrow> system_ok (put_sched (snd (schedule (sy_sched s) sp)) s)"
  by (rule ok_put_sched) (metis ok_sched tick_ok(1) prod.collapse)

lemma ok_push_event: "kring_ok (keybuf k) \<Longrightarrow> (\<forall>e. ev = Some e \<longrightarrow> event_valid e) \<Longrightarrow> kring_ok (keybuf (push_event k ev))"
  by (simp add: push_event_def ring_push_items split: option.split)

lemma ok_kbd_irq: "kring_ok (keybuf k) \<Longrightarrow> kring_ok (keybuf (kbd_handle_irq k status sc))"
proof -
  assume k: "kring_ok (keybuf k)"
  obtain ev k' where t: "Keyboard.translate k sc = (ev, k')" by (metis prod.exhaust)
  have same: "keybuf k' = keybuf k" using t by (auto simp: Keyboard.translate_def split: if_splits option.splits)
  have "kring_ok (keybuf (push_event (k\<lparr>extended := False\<rparr>) (translate_extended sc)))"
    using k kbd_events_valid(2) by (intro ok_push_event) simp_all
  moreover have "kring_ok (keybuf (push_event k' ev))"
    using k same kbd_events_valid(1) [of k sc] t by (intro ok_push_event) simp_all
  moreover have "keybuf (handle_release k b) = keybuf k" for b by (simp add: handle_release_def)
  ultimately show ?thesis using k by (simp add: kbd_handle_irq_def t)
qed

lemma ok_pop_event: "kring_ok (keybuf k) \<Longrightarrow> pop_event k = (ev, k') \<Longrightarrow> kring_ok (keybuf k')"
  using ring_pop_items(1) [of "keybuf k"] by (auto simp: pop_event_def split: prod.splits)

lemma ok_mouse_irq: "mouse_ok m \<Longrightarrow> mouse_ok (mouse_handle_irq m status b)"
proof -
  assume m: "mouse_ok m"
  define n :: u8 where "n = (if has_scroll m then 4 else 3)"
  have c: "cycle m < n" using m by (simp add: mouse_ok_def n_def)
  let ?b = "(mbytes m)[unat (cycle m) := b]"
  have "mouse_ok (parse_packet (m\<lparr>mbytes := ?b, cycle := 0\<rparr>))"
    unfolding parse_packet_eq using packet_end [of "m\<lparr>mbytes := ?b, cycle := 0\<rparr>"] m by (simp add: mouse_ok_def)
  moreover have "mouse_ok (m\<lparr>mbytes := ?b, cycle := cycle m + 1\<rparr>)" if "\<not> n \<le> cycle m + 1"
    using m that by (simp add: mouse_ok_def n_def split: if_splits)
  ultimately show ?thesis using m by (simp add: mouse_handle_irq_def Let_def n_def)
qed

lemma ok_mouse_drain: "mouse_ok m \<Longrightarrow> mouse_drain n m = (evs, m') \<Longrightarrow> mouse_ok m'"
proof (induction n arbitrary: m evs m')
  case (Suc n)
  obtain ev q where p: "mring_pop (mqueue m) = (ev, q)" by (metis prod.exhaust)
  obtain evs2 m2 where d: "mouse_drain n (m\<lparr>mqueue := q\<rparr>) = (evs2, m2)" by (metis prod.exhaust)
  have "mring_ok q" using mring_pop_items(1) [of "mqueue m"] Suc.prems(1) by (simp add: p mouse_ok_def)
  then have m1: "mouse_ok (m\<lparr>mqueue := q\<rparr>)" using Suc.prems(1) by (simp add: mouse_ok_def)
  show ?case using Suc.prems(2) m1 Suc.IH [OF m1 d] by (auto simp: mouse_pop_event_def p d split: option.splits)
qed simp

text \<open>Thirty-one turns of the drain empty the queue, so the loop over the mouse's events has ended.\<close>

lemma mouse_drain_all: "mouse_ok m \<Longrightarrow> length (mqueued (mqueue m)) \<le> n \<Longrightarrow>
   fst (mouse_drain n m) = mqueued (mqueue m) \<and> mqueued (mqueue (snd (mouse_drain n m))) = []"
proof (induction n arbitrary: m)
  case (Suc n)
  have r: "mring_ok (mqueue m)" using Suc.prems(1) by (simp add: mouse_ok_def)
  show ?case
  proof (cases "mqueued (mqueue m)")
    case Nil
    then show ?thesis using mring_pop_items(2) [OF r] by (simp add: mouse_pop_event_def)
  next
    case (Cons e es)
    obtain q where p: "mring_pop (mqueue m) = (Some e, q)" "mqueued q = es"
      using mring_pop_items(3) [OF r Cons] by (metis prod.collapse)
    have "mring_ok q" using mring_pop_items(1) [OF r] p by simp
    then have "mouse_ok (m\<lparr>mqueue := q\<rparr>)" using Suc.prems(1) by (simp add: mouse_ok_def)
    from Suc.IH [OF this] show ?thesis
      using Suc.prems(2) p Cons by (simp add: mouse_pop_event_def case_prod_unfold)
  qed
qed simp

section \<open>A turn of the shell\<close>

definition shell_ok :: "shell \<Rightarrow> bool" where
  "shell_ok sh \<longleftrightarrow> screen_safe (s_screen sh) \<and> table_ok (s_conns sh) \<and> length (s_line sh) \<le> LINE_BUF \<and> history_ok (s_history sh)"

lemma ok_shell_of: "system_ok s \<Longrightarrow> shell_ok (shell_of s)"
  by (simp add: system_ok_def shell_ok_def shell_of_def)

lemma ok_put_shell: "system_ok s \<Longrightarrow> shell_ok sh \<Longrightarrow> system_ok (put_shell sh s)"
  by (simp add: system_ok_def shell_ok_def put_shell_def put_screen_def env_at_def)

lemma line_lengths:
  "length line \<le> LINE_BUF \<Longrightarrow> length (type_char line c) \<le> LINE_BUF" "length (load_line cmd) \<le> LINE_BUF"
  by (auto simp: type_char_def load_line_def)

lemma ok_key_event: "length line \<le> LINE_BUF \<Longrightarrow> history_ok h \<Longrightarrow> key_event h line k = (h', line', e) \<Longrightarrow>
   length line' \<le> LINE_BUF \<and> history_ok h'"
  using history_keeps_lines [of h] by (cases k) (auto simp: line_lengths split: prod.splits option.splits if_splits)

lemma ok_serial_event: "length line \<le> LINE_BUF \<Longrightarrow> serial_event line b = (line', e) \<Longrightarrow> length line' \<le> LINE_BUF"
  by (auto simp: serial_event_def line_lengths split: if_splits)

lemma ok_key_turn: "shell_ok sh \<Longrightarrow> key_turn key sh = (sh', e) \<Longrightarrow> shell_ok sh'"
  using ok_key_event [of "s_line sh" "s_history sh"] safe_key_shown [of "s_screen sh"]
  by (auto simp: key_turn_def shell_ok_def split: option.splits prod.splits)

lemma ok_byte_turn: "shell_ok sh \<Longrightarrow> byte_turn byte sh = (sh', e) \<Longrightarrow> shell_ok sh'"
  using ok_serial_event [of "s_line sh"] safe_serial_shown [of "s_screen sh"]
  by (auto simp: byte_turn_def shell_ok_def split: option.splits prod.splits)

lemma safe_mouse_events: "screen_safe v \<Longrightarrow> screen_safe (fold mouse_shown evs v)"
  by (rule safe_fold) (auto intro: safe_mouse_shown)

lemma ok_shell_turn:
  assumes "shell_ok sh" "env_ok (t_env t)" "shell_turn t sh = (sh', e, out)"
  shows "shell_ok sh' \<and> frames_fit out"
proof -
  obtain s1 e1 where k: "key_turn (t_key t) sh = (s1, e1)" by (metis prod.exhaust)
  obtain s2 e2 where b: "byte_turn (t_byte t) s1 = (s2, e2)" by (metis prod.exhaust)
  obtain conns out2 where p: "poll_and_dispatch (t_env t) (t_packets t) (s_conns s2) = (conns, out2)" by (metis prod.exhaust)
  have s1: "shell_ok s1" by (rule ok_key_turn [OF assms(1) k])
  have s2: "shell_ok s2" by (rule ok_byte_turn [OF s1 b])
  then have "table_ok conns \<and> TcpStates.frames_ok out2" using poll_and_dispatch_ok [OF assms(2) _ p] by (simp add: shell_ok_def)
  then have "shell_ok (s2\<lparr>s_screen := fold mouse_shown (t_mouse t) (s_screen s2), s_conns := conns\<rparr>) \<and> frames_fit out2"
    using s2 by (simp add: shell_ok_def safe_mouse_events frames_ok_fit)
  then show ?thesis using assms(3) s1 s2 by (auto simp: shell_turn_def k b p split: if_splits)
qed

lemma ok_prompt: "system_ok s \<Longrightarrow> system_ok (prompt s)"
  unfolding prompt_def using ok_shell_of [of s]
  by (intro ok_put_shell) (auto simp: start_line_def shell_ok_def intro: screen_intros)

lemma ok_finish_line: "shell_ok sh \<Longrightarrow> finish_line sh = (sh', r) \<Longrightarrow> shell_ok sh'"
proof -
  assume sh: "shell_ok sh" and f: "finish_line sh = (sh', r)"
  obtain h q where s: "submit (s_history sh) (s_line sh) = (h, q)" by (metis prod.exhaust)
  have "history_ok h" using s sh history_keeps_lines [of "s_history sh"]
    by (auto simp: submit_def Let_def shell_ok_def split: if_splits)
  then show ?thesis using sh f by (auto simp: finish_line_def s shell_ok_def intro: screen_intros)
qed

section \<open>Every command and every step\<close>

text \<open>Commands that only print leave everything but the screen.\<close>

lemma ok_said [simp]: "system_ok s \<Longrightarrow> ran_ok (said ls s)"
  by simp

lemma ok_disk_cmd [simp]: "system_ok s \<Longrightarrow> ran_ok (disk_cmd a r s)"
  by (cases r) (simp add: disk_cmd_def Let_def ok_panicked)

lemma ok_listen: "system_ok s \<Longrightarrow> table_ok (snd r) \<Longrightarrow> ran_ok (case r of (ls, conns) \<Rightarrow> conns_cmd (ls, conns, []) s)"
  by (cases r) (simp add: conns_cmd_def)

theorem run_command_ok: "system_ok s \<Longrightarrow> ran_ok (run_command a c s)"
proof -
  assume s: "system_ok s"
  have conns: "table_ok (sy_conns s)" and files: "ramfs_ok (sy_files s)" using s by (simp_all add: system_ok_def)
  note C = conns_commands_ok [OF env_ok_at [OF s] conns] and F = file_commands_ok [OF files]
  show ?thesis
  proof (cases c)
    case Cmd_looptest
    obtain ls out pos where l: "cmd_looptest (sy_net s) (sy_cfg s) (an_wait1 a) (rx_ring_pos (sy_net s) (an_ring a)) = (ls, out, pos)" by (metis prod_cases3)
    have "frames_fit out" using looptest_fits [of "sy_net s" "sy_cfg s" "an_wait1 a" "rx_ring_pos (sy_net s) (an_ring a)"] by (simp add: l)
    then show ?thesis using s by (simp add: Cmd_looptest l ok_send_cmd)
  next
    case Cmd_dhcp
    obtain cfg ls out where d: "cmd_dhcp (sy_net s) (sy_cfg s) (an_now a) (an_offer a) (an_ack a) = (cfg, ls, out)"
      by (metis prod_cases3)
    show ?thesis using ok_dhcp [OF s d] by (simp add: Cmd_dhcp d)
  next
    case Cmd_shutdown
    then show ?thesis using s by (simp add: Let_def case_prod_unfold)
  next
    case Cmd_clear
    then show ?thesis using s by (simp add: safe_clear_screen ok_screen)
  qed (use s in \<open>simp_all add: F C ok_file_cmd ok_send_cmd ok_conns_cmd ok_listen ok_panicked ok_spawn_cmd ok_edit_cmd
      ok_http_cmd arpwhois_fits ping_fits Let_def split: option.split\<close>)
qed

lemma ran_prompt: "ran_ok r \<Longrightarrow> ran_ok (case r of Back s out \<Rightarrow> Back (prompt s) out | Stopped s \<Rightarrow> Stopped s)"
  by (cases r) (simp_all add: ok_prompt)

lemma ok_line_done: "system_ok s \<Longrightarrow> ran_ok (line_done a s)"
proof -
  assume s: "system_ok s"
  obtain sh r where f: "finish_line (shell_of s) = (sh, r)" by (metis prod.exhaust)
  have "system_ok (put_shell sh s)" by (rule ok_put_shell [OF s ok_finish_line [OF ok_shell_of [OF s] f]])
  then show ?thesis unfolding line_done_def f prod.case Let_def
    by (intro ran_prompt) (simp add: run_command_ok split: submitted.split option.split)
qed

lemma ok_run_turn: "system_ok s \<Longrightarrow> ran_ok (run_turn byte pkts a s)"
proof -
  assume s: "system_ok s"
  obtain key kb where k: "pop_event (sy_kbd s) = (key, kb)" by (metis prod.exhaust)
  obtain moves m where d: "mouse_drain 31 (k_mouse (sy_kernel s)) = (moves, m)" by (metis prod.exhaust)
  let ?t = "ShellLoop.turn.make key byte moves pkts (env_at (an_now a) s)"
  obtain sh e out where t: "shell_turn ?t (shell_of s) = (sh, e, out)" by (metis prod_cases3)
  have sh: "shell_ok sh \<and> frames_fit out"
    by (rule ok_shell_turn [OF ok_shell_of [OF s] _ t]) (simp add: ShellLoop.turn.make_def env_ok_at [OF s])
  have "kring_ok (keybuf (sy_kbd s))" "mouse_ok (k_mouse (sy_kernel s))" using s by (simp_all add: system_ok_def)
  then have "kring_ok (keybuf kb)" "mouse_ok m" using ok_pop_event [OF _ k] ok_mouse_drain [OF _ d] by blast+
  then show ?thesis using s sh by (simp add: run_turn_def k d t Let_def ok_put_shell ok_line_done)
qed

lemma sys_step_ok: "system_ok s \<Longrightarrow> ran_ok (sys_step ev s)"
proof (cases ev)
  case (Key_irq status sc)
  moreover assume "system_ok s"
  moreover from this have "kring_ok (keybuf (sy_kbd s))" by (simp add: system_ok_def)
  ultimately show ?thesis by (simp add: ok_kbd_irq)
next
  case (Mouse_irq status b)
  moreover assume "system_ok s"
  moreover from this have "mouse_ok (k_mouse (sy_kernel s))" by (simp add: system_ok_def)
  ultimately show ?thesis by (simp add: ok_mouse_irq)
qed (simp_all add: ok_run_turn ok_timer)

lemma reaches_ok: "reaches s0 out s \<Longrightarrow> system_ok s0 \<Longrightarrow> system_ok s \<and> frames_fit out"
proof (induction rule: reaches.induct)
  case (step s out s' ev s'' out')
  then show ?case using sys_step_ok [of s' ev] by simp
qed simp

section \<open>The state the kernel starts the shell in\<close>

lemma k_fields [simp]:
  "k_screen (say t k) = k_screen k" "k_mouse (say t k) = k_mouse k"
  "k_screen (ports ws k) = k_screen k" "k_mouse (ports ws k) = k_mouse k"
  "k_screen (configure_net k) = k_screen k" "k_mouse (configure_net k) = k_mouse k"
  by (simp_all add: say_def ports_def configure_net_def)

lemma before_heap_check_more:
  "k_screen (before_heap_check e k) = vga_init (k_screen k)"
  "k_mouse (before_heap_check e k) = fst (mouse_init (k_mouse k) (mouse_replies e))"
  "k_net (before_heap_check e k) = k_net k" "k_rtl (before_heap_check e k) = k_rtl k"
  by (simp_all add: before_heap_check_def Let_def start_mouse_def start_idt_def load_idt_def init_pic_def ports_def say_def
      gdt_init_def load_gdt_def reload_segments_def load_tss_def case_prod_unfold)

lemma statics_fields:
  "k_mouse (kernel_statics screen pic stacks) = mouse_new" "length (nic_mac (k_net (kernel_statics screen pic stacks))) = 6"
  "k_cfg (kernel_statics screen pic stacks) = None" "k_sched (kernel_statics screen pic stacks) = sched_new stacks"
  by (simp_all add: kernel_statics_def)

lemma ok_mouse_start: "mouse_ok (fst (mouse_init mouse_new replies))"
  by (auto simp: mouse_init_def mouse_new_def Let_def mouse_ok_def mring_ok_def mring_new_def ring_items_def ring_len_def
      split: prod.split)

lemma net_init_mac:
  "net_init pci reads low high rx capr r = Some (Some st, ws, r') \<Longrightarrow> length (nic_mac st) = 6"
  by (auto simp: net_init_def rtl_init_def e1000_default_mac_def Let_def split: option.splits if_splits)

lemma kernel_main_parts:
  assumes "kernel_main e (kernel_statics screen pic stacks) = Some k"
  shows "k_screen k = vga_init (k_screen (kernel_statics screen pic stacks))" "mouse_ok (k_mouse k)"
    "length (nic_mac (k_net k)) = 6" "k_cfg k = None \<or> k_cfg k = Some fallback_config" "k_sched k = sched_init (sched_new stacks)"
proof -
  let ?k0 = "before_heap_check e (kernel_statics screen pic stacks)"
  note F = before_heap_check_more [of e "kernel_statics screen pic stacks"] before_heap_check_fields [of e "kernel_statics screen pic stacks"]
  obtain k1 where h: "heap_check ?k0 = Some k1" and k1: "k_screen k1 = k_screen ?k0" "k_mouse k1 = k_mouse ?k0"
    "k_net k1 = k_net ?k0" "k_cfg k1 = k_cfg ?k0" "k_sched k1 = k_sched ?k0"
    using assms by (auto simp: kernel_main_def heap_check_def bind_eq_Some_conv split: option.splits prod.splits if_splits)
  obtain st ws rtl where n: "net_init (pci_space e) (cr_reads e) (mac_low e) (mac_high e) (rx_addr e) (cbr e) (k_rtl k1) = Some (st, ws, rtl)"
    using assms by (auto simp: kernel_main_def h start_net_def bind_eq_Some_conv split: option.splits prod.splits)
  have "k_screen k = k_screen k1" "k_mouse k = k_mouse k1" "k_net k = (case st of Some st \<Rightarrow> st | None \<Rightarrow> k_net k1)"
    "k_cfg k = (if nic_kind (k_net k) = NicNone then k_cfg k1 else Some fallback_config)" "k_sched k = sched_init (k_sched k1)"
    using assms by (auto simp: kernel_main_def h start_net_def n Let_def)
  note parts = this
  show "k_screen k = vga_init (k_screen (kernel_statics screen pic stacks))" by (simp only: parts(1) k1 F)
  show "mouse_ok (k_mouse k)" by (simp only: parts(2) k1 F statics_fields ok_mouse_start)
  show "length (nic_mac (k_net k)) = 6"
    using n net_init_mac by (cases st) (simp_all add: parts(3) k1 F statics_fields)
  show "k_cfg k = None \<or> k_cfg k = Some fallback_config" by (simp add: parts(4) k1 F statics_fields)
  show "k_sched k = sched_init (sched_new stacks)" by (simp only: parts(5) k1 F statics_fields)
qed

lemma shell_start_ok:
  assumes "kernel_main e (kernel_statics screen pic stacks) = Some k" "length screen = 4000"
  shows "system_ok (shell_start d cells' k)"
proof -
  note K = kernel_main_parts [OF assms(1)]
  have "screen_safe (k_screen k)" using safe_init [OF assms(2)] by (simp add: K(1) kernel_statics_def)
  moreover have "sched_ok (k_sched k)" using sched_boot_ok [of stacks cells'] by (simp add: K(5) sched_boot_def)
  moreover have "table_ok tcp_conns_new" "ramfs_ok ramfs_new" "history_ok history_new"
    by (simp_all add: tcp_conns_new_def table_ok_def tcp_new_ok ramfs_new_ok history_ok_def history_new_def)
  ultimately show ?thesis
    unfolding shell_start_def using K
    by (intro ok_prompt) (auto simp: system_ok_def kbd_init_def KEYBUF_ok env_ok_def env_at_def fallback_config_def)
qed

section \<open>The shell only reads the disk\<close>

definition reads_only :: "'a dio \<Rightarrow> bool" where
  "reads_only m \<longleftrightarrow> (\<forall>d. snd (m d) = d)"

named_theorems only_reads

lemma reads_same: "reads_only m \<Longrightarrow> m d = (r, d') \<Longrightarrow> d' = d"
  by (metis reads_only_def snd_conv)

lemma reads_bind [only_reads]:
  assumes "reads_only m" "\<And>x. reads_only (f x)"
  shows "reads_only (bindD m f)"
  unfolding reads_only_def
proof
  fix d
  obtain r d1 where m: "m d = (r, d1)" by (metis prod.exhaust)
  show "snd (bindD m f d) = d"
    using reads_same [OF assms(1) m] assms(2) by (cases r) (simp_all add: bindD_def m reads_only_def)
qed

lemma reads_leaves [only_reads]: "reads_only (okD x)" "reads_only (errD e)" "reads_only (read_block fs b)" "reads_only ext3_mount"
  by (simp_all add: reads_only_def okD_def errD_def read_block_def ext3_mount_def Let_def split: option.split)

lemma reads_if [only_reads]: "reads_only a \<Longrightarrow> reads_only b \<Longrightarrow> reads_only (if c then a else b)"
  by simp

lemma reads_let [only_reads]: "(\<And>x. reads_only (f x)) \<Longrightarrow> reads_only (Let y f)"
  by simp

lemma reads_case [only_reads]:
  "(\<And>x y. reads_only (g x y)) \<Longrightarrow> reads_only (case p of (x, y) \<Rightarrow> g x y)"
  "reads_only a \<Longrightarrow> (\<And>x. reads_only (f x)) \<Longrightarrow> reads_only (case r of None \<Rightarrow> a | Some x \<Rightarrow> f x)"
  by (simp_all split: prod.split option.split)

lemma reads_inodes [only_reads]:
  "reads_only (read_bg_desc fs grp)" "reads_only (inode_place fs n)" "reads_only (read_inode fs n)" "reads_only (inode_block fs i k)"
proof -
  show bg: "reads_only (read_bg_desc fs grp)" for grp unfolding read_bg_desc_def by (intro only_reads)
  show place: "reads_only (inode_place fs n)" unfolding inode_place_def by (intro only_reads bg)
  show "reads_only (read_inode fs n)" unfolding read_inode_def by (intro only_reads place)
  show "reads_only (inode_block fs i k)" unfolding inode_block_def by (intro only_reads)
qed

lemma reads_blocks [only_reads]: "reads_only (read_blocks fs i ks data)"
  by (induction ks arbitrary: data) (simp_all only: read_blocks.simps, (intro only_reads | assumption)+)

lemma reads_contents [only_reads]: "reads_only (read_file_inode fs i)" "reads_only (read_dir_inode fs i)"
  unfolding read_dir_inode_def read_file_inode_def by (intro only_reads)+

lemma reads_components [only_reads]: "reads_only (walk_components fs ps n i)"
  by (induction ps arbitrary: n i) (simp_all only: walk_components.simps, (intro only_reads | assumption)+)

lemma reads_paths [only_reads]: "reads_only (walk fs n p)" "reads_only (list_dir fs p)" "reads_only (read_file fs p)"
proof -
  show w: "reads_only (walk fs n p)" for n unfolding walk_def by (intro only_reads)
  show "reads_only (list_dir fs p)" "reads_only (read_file fs p)"
    unfolding list_dir_def read_file_def by (intro only_reads w)+
qed

lemma mount_reads: "mount_once fs d = (fs', ls0, stuck, d') \<Longrightarrow> d' = d"
proof -
  obtain r d1 where m: "ext3_mount d = (r, d1)" by (metis prod.exhaust)
  assume "mount_once fs d = (fs', ls0, stuck, d')"
  then show ?thesis
    using reads_same [OF reads_leaves(4) m] by (simp add: mount_once_def m split: option.splits sum.splits)
qed

lemma with_ext3_reads:
  assumes "\<And>fs. reads_only (f fs)" "with_ext3 f name fs d = (fs', ls, stuck, d')"
  shows "d' = d"
proof -
  obtain fs1 ls0 stuck1 d1 where m: "mount_once fs d = (fs1, ls0, stuck1, d1)" by (metis prod_cases4)
  show ?thesis
  proof (cases fs1)
    case (Some x)
    obtain r d2 where r: "f x d = (r, d2)" by (metis prod.exhaust)
    then have "d2 = d" by (intro reads_same [OF assms(1)])
    then show ?thesis using assms(2) mount_reads [OF m] by (simp add: with_ext3_def m Some r split: sum.splits)
  qed (use assms(2) mount_reads [OF m] in \<open>simp add: with_ext3_def m\<close>)
qed

lemma disk_commands_read:
  "cmd_ext3ls p fs d = (fs', ls, stuck, d') \<Longrightarrow> d' = d" "cmd_ext3cat p fs d = (fs', ls, stuck, d') \<Longrightarrow> d' = d"
  "cmd_ext3info fs d = (fs', ls, stuck, d') \<Longrightarrow> d' = d"
  unfolding cmd_ext3ls_def cmd_ext3cat_def cmd_ext3info_def
  by (erule with_ext3_reads [rotated], intro only_reads)+

fun left_by :: "ran \<Rightarrow> system" where
  "left_by (Back s out) = s"
| "left_by (Stopped s) = s"

lemma disk_puts [simp]:
  "sy_disk (put_screen v s) = sy_disk s" "sy_disk (put_cfg c s) = sy_disk s" "sy_disk (put_sched sc s) = sy_disk s"
  "sy_disk (put_mouse m s) = sy_disk s" "sy_disk (show_lines ls s) = sy_disk s" "sy_disk (put_shell sh s) = sy_disk s"
  "sy_disk (prompt s) = sy_disk s" "sy_disk (logged lev ms s) = sy_disk s"
  by (simp_all add: logged_def put_screen_def put_cfg_def put_sched_def put_mouse_def show_lines_def put_shell_def prompt_def)

lemma disk_panicked [simp]: "sy_disk (left_by (panicked a s)) = sy_disk s"
  by (simp add: panicked_def Let_def case_prod_unfold)

lemma disk_cmds [simp]:
  "sy_disk (left_by (file_cmd r s)) = sy_disk s" "sy_disk (left_by (send_cmd q s)) = sy_disk s"
  "sy_disk (left_by (conns_cmd t s)) = sy_disk s" "sy_disk (left_by (spawn_cmd task s)) = sy_disk s"
  "sy_disk (left_by (edit_cmd p ks s)) = sy_disk s" "sy_disk (left_by (http_cmd a ip port u s)) = sy_disk s"
  by (simp_all add: file_cmd_def send_cmd_def conns_cmd_def spawn_cmd_def edit_cmd_def http_cmd_def Let_def case_prod_unfold)

lemma disk_disk_cmd: "(\<And>fs ls stuck d. r = (fs, ls, stuck, d) \<Longrightarrow> d = sy_disk s) \<Longrightarrow> sy_disk (left_by (disk_cmd a r s)) = sy_disk s"
  by (cases r) (simp add: disk_cmd_def Let_def)

lemma run_command_disk: "sy_disk (left_by (run_command a c s)) = sy_disk s"
  by (cases c) (simp_all add: disk_disk_cmd disk_commands_read Let_def case_prod_unfold split: option.split)

lemma sys_step_disk: "sy_disk (left_by (sys_step ev s)) = sy_disk s"
proof -
  have prompted: "sy_disk (left_by (case r of Back s out \<Rightarrow> Back (prompt s) out | Stopped s \<Rightarrow> Stopped s)) = sy_disk (left_by r)" for r
    by (cases r) simp_all
  have "sy_disk (left_by (line_done a s)) = sy_disk s" for a s
    unfolding line_done_def Let_def case_prod_unfold prompted
    by (simp add: run_command_disk split: submitted.split option.split)
  then show ?thesis by (cases ev) (simp_all add: run_turn_def Let_def case_prod_unfold)
qed

lemma shell_start_disk: "sy_disk (shell_start d stacks k) = d"
  by (simp add: shell_start_def)

section \<open>What holds in every reachable state\<close>

lemma kernel_boots:
  assumes "heap_placed (heap_base e)" "\<exists>r \<in> set (cr_reads e). r AND 0x10 = 0"
  shows "\<exists>k. kernel_main e k0 = Some k"
proof -
  obtain h where h: "heap_check (before_heap_check e k0) = Some h"
    using heap_check_ok [OF assms(1) before_heap_check_fields(1)] by blast
  obtain k where "start_net e h = Some k" using start_net_some [OF assms(2)] by blast
  then show ?thesis by (simp add: kernel_main_def h Let_def)
qed

lemma sample_boots: "\<exists>k. kernel_main sample_devices (kernel_statics screen pic stacks) = Some k"
  by (rule kernel_boots) (simp_all add: sample_devices_def heap_placed_def HEAP_SIZE_def)

text \<open>C1. However the kernel runs, from \<open>kernel_main\<close> on and through any order of shell turns with
  any keys, bytes, packets and commands, timer ticks and keyboard and mouse interrupts: the video
  memory keeps its size with the cursor above the status row; the line, the history and the event
  queues stay within their arrays; the files stay in the order of their names; the four connections
  keep their fill levels inside their buffers; at most one task is marked as running, the current
  one, and the boot task's slot is never given away; and no frame handed to the network card is
  longer than its transmit buffer.\<close>

theorem system_stays_sound:
  assumes "kernel_main e (kernel_statics screen pic stacks) = Some k" "length screen = 4000"
    and "reaches (shell_start d cells' k) out s"
  shows "length (vram (sy_screen s)) = 4000 \<and> w_row (wr (sy_screen s)) < 24 \<and> w_col (wr (sy_screen s)) \<le> 80
    \<and> length (sy_line s) \<le> LINE_BUF \<and> length (items (sy_history s)) \<le> MAX_HISTORY
    \<and> length (queued (keybuf (sy_kbd s))) < BUF_SIZE \<and> length (mqueued (mqueue (k_mouse (sy_kernel s)))) < 32
    \<and> sorted_wrt (<) (map fst (files (sy_files s)))
    \<and> length (sy_conns s) = MAX_CONNS
    \<and> (\<forall>c \<in> set (sy_conns s). send_len c \<le> length (send_buf c) \<and> recv_len c \<le> length (recv_buf c)
         \<and> last_tx_len c \<le> length (last_tx_payload c) \<and> retries c \<le> MAX_RETRIES)
    \<and> (\<forall>i < MAX_TASKS. tstate (tasks (sy_sched s) ! i) = Running \<longrightarrow> i = current (sy_sched s))
    \<and> tstate (tasks (sy_sched s) ! 0) \<noteq> Free
    \<and> (\<forall>f \<in> set out. length f \<le> 1514)"
proof -
  have "system_ok s" and out: "frames_fit out" using reaches_ok [OF assms(3) shell_start_ok [OF assms(1,2)]] by simp_all
  then have ok: "screen_safe (sy_screen s)" "table_ok (sy_conns s)" "ramfs_ok (sy_files s)" "sched_ok (sy_sched s)"
    "kring_ok (keybuf (sy_kbd s))" "mouse_ok (k_mouse (sy_kernel s))" "length (sy_line s) \<le> LINE_BUF" "history_ok (sy_history s)"
    by (simp_all add: system_ok_def)
  have "length (queued (keybuf (sy_kbd s))) < BUF_SIZE" using keys.items_limit [OF ok(5)] by (simp add: BUF_SIZE_def)
  moreover have "length (mqueued (mqueue (k_mouse (sy_kernel s)))) < 32"
    using ok(6) mice.items_limit [of "mqueue (k_mouse (sy_kernel s))"] by (simp add: mouse_ok_def)
  moreover have "conn_ok c" if "c \<in> set (sy_conns s)" for c using ok(2) that by (simp add: table_ok_def)
  ultimately show ?thesis
    using ok out
    by (simp add: screen_safe_def screen_mid_def table_ok_def conn_ok_def ramfs_ok_def btree_ok_def sched_ok_def history_ok_def
        frames_fit_def)
qed

theorem system_stays_sound_witness:
  "\<exists>k. kernel_main sample_devices (kernel_statics (replicate 4000 0) (\<lparr>pic_words = 0, pic_base = 0, pic_mask = 0\<rparr>,
        \<lparr>pic_words = 0, pic_base = 0, pic_mask = 0\<rparr>) (\<lambda>i. of_nat i * STACK_SIZE)) = Some k
    \<and> length (sy_conns (left_by (sys_step (Key_irq 0 0x1E) (shell_start [] (\<lambda>_. 0) k)))) = MAX_CONNS"
proof -
  let ?k0 = "kernel_statics (replicate 4000 0) (\<lparr>pic_words = 0, pic_base = 0, pic_mask = 0\<rparr>,
        \<lparr>pic_words = 0, pic_base = 0, pic_mask = 0\<rparr>) (\<lambda>i. of_nat i * STACK_SIZE)"
  obtain k where k: "kernel_main sample_devices ?k0 = Some k" using sample_boots by blast
  let ?s = "shell_start [] (\<lambda>_. 0) k"
  have "reaches ?s ([] @ []) (left_by (sys_step (Key_irq 0 0x1E) ?s))" by (rule reaches.step [OF reaches.start, where ev = "Key_irq 0 0x1E"]) simp
  from system_stays_sound [OF k _ this] k show ?thesis by auto
qed

text \<open>C3. The shell never changes the disk: whatever commands are run, in every reachable state the
  disk holds what it held when the kernel started.\<close>

theorem disk_never_written:
  assumes "reaches (shell_start d cells' k) out s"
  shows "sy_disk s = d"
proof -
  have "sy_disk s = sy_disk s0" if "reaches s0 out s" for s0
    using that
  proof (induction rule: reaches.induct)
    case (step s out s' ev s'' out')
    then show ?case using sys_step_disk [of ev s'] by simp
  qed simp
  from this [OF assms] show ?thesis by (simp add: shell_start_disk)
qed

theorem disk_never_written_witness:
  "\<exists>k. kernel_main sample_devices (kernel_statics (replicate 4000 0) (\<lparr>pic_words = 0, pic_base = 0, pic_mask = 0\<rparr>,
        \<lparr>pic_words = 0, pic_base = 0, pic_mask = 0\<rparr>) (\<lambda>i. of_nat i * STACK_SIZE)) = Some k
    \<and> sy_disk (left_by (sys_step (Key_irq 0 0x1E) (shell_start [1, 2, 3] (\<lambda>_. 0) k))) = [1, 2, 3]"
proof -
  let ?k0 = "kernel_statics (replicate 4000 0) (\<lparr>pic_words = 0, pic_base = 0, pic_mask = 0\<rparr>,
        \<lparr>pic_words = 0, pic_base = 0, pic_mask = 0\<rparr>) (\<lambda>i. of_nat i * STACK_SIZE)"
  obtain k where k: "kernel_main sample_devices ?k0 = Some k" using sample_boots by blast
  let ?s = "shell_start [1, 2, 3] (\<lambda>_. 0) k"
  have "reaches ?s ([] @ []) (left_by (sys_step (Key_irq 0 0x1E) ?s))" by (rule reaches.step [OF reaches.start, where ev = "Key_irq 0 0x1E"]) simp
  from disk_never_written [OF this] k show ?thesis by blast
qed

end
