(* ===== verification/TypedLine.thy ===== *)
theory TypedLine
  imports KernelRuns
begin

text \<open>
  From the keyboard's scancodes to the file system: a line typed on the keyboard, one character per
  turn of the shell's loop, passes the interrupt handler, the key queue, the line editor, the
  history and the dispatcher, and its command changes the files and prints on the screen.
\<close>

section \<open>Runs\<close>

fun sys_run :: "event list \<Rightarrow> system \<Rightarrow> ran" where
  "sys_run [] s = Back s []"
| "sys_run (ev # evs) s =
     (case sys_step ev s of
        Stopped s \<Rightarrow> Stopped s
      | Back s out \<Rightarrow> (case sys_run evs s of Back s out' \<Rightarrow> Back s (out @ out') | Stopped s \<Rightarrow> Stopped s))"

lemma sys_run_append:
  "sys_run evs s = Back s1 out1 \<Longrightarrow> sys_run evs' s1 = Back s2 out2 \<Longrightarrow> sys_run (evs @ evs') s = Back s2 (out1 @ out2)"
  by (induction evs arbitrary: s out1) (auto split: ran.splits)

lemma sys_run_ok: "system_ok s \<Longrightarrow> sys_run evs s = Back s' out \<Longrightarrow> system_ok s'"
proof (induction evs arbitrary: s out)
  case (Cons ev evs)
  have "ran_ok (sys_step ev s)" by (rule sys_step_ok [OF Cons.prems(1)])
  then show ?case using Cons.prems(2) Cons.IH by (auto split: ran.splits)
qed simp

section \<open>Keystrokes\<close>

text \<open>The scancodes of pressing and releasing the key for a character, with the shift key around it
  when the character is on the upper half of the keyboard's table.\<close>

fun place_in :: "u8 list \<Rightarrow> u8 \<Rightarrow> nat option" where
  "place_in [] c = None"
| "place_in (x # xs) c = (if x = c then Some 0 else map_option Suc (place_in xs c))"

definition strokes :: "u8 \<Rightarrow> u8 list" where
  "strokes c =
     (case place_in LOWER c of
        Some n \<Rightarrow> [of_nat n, of_nat n OR 0x80]
      | None \<Rightarrow> (case place_in UPPER c of Some n \<Rightarrow> [0x2A, of_nat n, of_nat n OR 0x80, 0xAA] | None \<Rightarrow> []))"

definition pressed :: "u8 list \<Rightarrow> kbd \<Rightarrow> kbd" where
  "pressed scs k = fold (\<lambda>sc k. kbd_handle_irq k 0 sc) scs k"

definition kbd_idle :: "kbd \<Rightarrow> bool" where
  "kbd_idle k \<longleftrightarrow> kring_ok (keybuf k) \<and> queued (keybuf k) = [] \<and> \<not> shift k \<and> \<not> ctrl k \<and> \<not> extended k"

text \<open>A scancode that makes the character c, and its release code.\<close>

definition makes :: "u8 \<Rightarrow> bool \<Rightarrow> u8 \<Rightarrow> bool" where
  "makes sc up c \<longleftrightarrow> sc \<notin> {0xE0, 0x2A, 0x36, 0x1D, 0x0E, 0x1C, 0x01} \<and> sc AND 0x80 = 0
     \<and> scancode_to_ascii sc up = Some c \<and> (sc OR 0x80) \<noteq> 0xE0 \<and> (sc OR 0x80) AND 0x80 \<noteq> 0 \<and> (sc OR 0x80) AND 0x7F = sc"

definition stroke_ok :: "u8 \<Rightarrow> bool" where
  "stroke_ok c \<longleftrightarrow>
     (case place_in LOWER c of
        Some n \<Rightarrow> makes (of_nat n) False c
      | None \<Rightarrow> (case place_in UPPER c of Some n \<Rightarrow> makes (of_nat n) True c | None \<Rightarrow> False))"

lemma strokes_table: "list_all (\<lambda>n. stroke_ok (of_nat n)) [0x20..<0x7F]"
  by code_simp

definition typeable :: "char \<Rightarrow> bool" where
  "typeable c \<longleftrightarrow> 0x20 \<le> (of_char c :: nat) \<and> (of_char c :: nat) < 0x7F"

lemma typeable_stroke: "typeable c \<Longrightarrow> stroke_ok (of_char c)"
proof -
  assume "typeable c"
  then have "of_char c \<in> set [0x20..<0x7F]" by (simp add: typeable_def del: upt_rec_numeral)
  with strokes_table have "stroke_ok (of_nat (of_char c))" unfolding list_all_iff by (rule bspec)
  then show ?thesis by (simp only: of_nat_of_char)
qed

lemma press_char:
  assumes "makes sc (shift k) c" "\<not> ctrl k" "\<not> extended k"
  shows "pressed [sc, sc OR 0x80] k = push_event k (Some (Char_key c))"
proof -
  have t: "Keyboard.translate k sc = (Some (Char_key c), k)" using assms by (simp add: makes_def Keyboard.translate_def)
  have 1: "kbd_handle_irq k 0 sc = push_event k (Some (Char_key c))"
    using assms t by (simp add: kbd_handle_irq_def makes_def)
  have "kbd_handle_irq k' 0 (sc OR 0x80) = k'" if "\<not> extended k'" for k'
    using assms(1) that by (simp add: kbd_handle_irq_def makes_def handle_release_def)
  then show ?thesis using assms(3) by (simp add: pressed_def 1 push_event_def)
qed

lemma idle_push:
  assumes "kbd_idle k" "event_valid ev"
  shows "kring_ok (keybuf (push_event k (Some ev))) \<and> queued (keybuf (push_event k (Some ev))) = [ev]"
  using assms ring_push_items [of "keybuf k" ev] by (simp add: kbd_idle_def push_event_def BUF_SIZE_def)

text \<open>Typing a character puts just its event into the queue, and taking it leaves the keyboard idle.\<close>

definition holds_event :: "kbd \<Rightarrow> KeyEvent \<Rightarrow> bool" where
  "holds_event k ev \<longleftrightarrow> kring_ok (keybuf k) \<and> queued (keybuf k) = [ev] \<and> \<not> shift k \<and> \<not> ctrl k \<and> \<not> extended k"

lemma typed_char:
  assumes "typeable c" "kbd_idle k"
  shows "holds_event (pressed (strokes (of_char c)) k) (Char_key (of_char c))"
proof -
  let ?c = "of_char c :: u8" and ?ev = "Char_key (of_char c)"
  have k: "\<not> shift k" "\<not> ctrl k" "\<not> extended k" using assms(2) by (simp_all add: kbd_idle_def)
  note ok = typeable_stroke [OF assms(1)]
  show ?thesis
  proof (cases "place_in LOWER ?c")
    case (Some n)
    have "makes (of_nat n) (shift k) ?c" using ok k by (simp add: stroke_ok_def Some)
    from press_char [OF this k(2,3)] show ?thesis
      using idle_push [OF assms(2), of ?ev] k by (simp add: strokes_def Some holds_event_def push_event_def)
  next
    case None
    then obtain n where n: "place_in UPPER ?c = Some n" "makes (of_nat n) True ?c"
      using ok by (auto simp: stroke_ok_def split: option.splits)
    let ?k = "k\<lparr>shift := True\<rparr>"
    have "kbd_handle_irq k 0 0x2A = ?k" using k by (simp add: kbd_handle_irq_def Keyboard.translate_def push_event_def)
    moreover have "pressed [of_nat n, of_nat n OR 0x80] ?k = push_event ?k (Some ?ev)"
      using n(2) k by (intro press_char) simp_all
    moreover have "kbd_handle_irq (push_event ?k (Some ?ev)) 0 0xAA = (push_event ?k (Some ?ev))\<lparr>shift := False\<rparr>"
      using k by (simp add: kbd_handle_irq_def handle_release_def push_event_def)
    ultimately have "pressed (strokes ?c) k = (push_event ?k (Some ?ev))\<lparr>shift := False\<rparr>"
      by (simp add: strokes_def None n(1) pressed_def)
    then show ?thesis
      using idle_push [OF assms(2), of ?ev] k by (simp add: holds_event_def push_event_def)
  qed
qed

lemma pressed_return: "kbd_idle k \<Longrightarrow> holds_event (pressed [0x1C, 0x9C] k) Enter"
  using idle_push [of k Enter]
  by (simp add: pressed_def kbd_handle_irq_def Keyboard.translate_def handle_release_def push_event_def holds_event_def kbd_idle_def)

lemma take_event: "holds_event k ev \<Longrightarrow> \<exists>k'. pop_event k = (Some ev, k') \<and> kbd_idle k'"
proof -
  assume k: "holds_event k ev"
  obtain r q where p: "ring_pop (keybuf k) = (r, q)" by (metis prod.exhaust)
  have "r = Some ev \<and> kring_ok q \<and> queued q = []"
    using k ring_pop_items(1,3) [of "keybuf k"] by (simp add: holds_event_def p)
  then show ?thesis using k by (simp add: pop_event_def p kbd_idle_def holds_event_def)
qed

lemma run_presses: "sys_run (map (Key_irq 0) scs) s = Back (s\<lparr>sy_kbd := pressed scs (sy_kbd s)\<rparr>) []"
  by (induction scs arbitrary: s) (simp_all add: pressed_def)

section \<open>Typing a line\<close>

text \<open>What is typed: characters, each with the packets and answers its turn of the loop finds.\<close>

type_synonym typed = "(char \<times> u8 list list \<times> answers) list"

definition type_events :: "typed \<Rightarrow> event list" where
  "type_events w = concat (map (\<lambda>(c, pkts, a). map (Key_irq 0) (strokes (of_char c)) @ [Shell_turn None pkts a]) w)"

definition return_events :: "u8 list list \<Rightarrow> answers \<Rightarrow> event list" where
  "return_events pkts a = map (Key_irq 0) [0x1C, 0x9C] @ [Shell_turn None pkts a]"

lemma char_turn:
  assumes "holds_event (sy_kbd s) (Char_key b)" "length (sy_line s) < LINE_BUF"
  shows "\<exists>s' out. run_turn None pkts a s = Back s' out \<and> sy_line s' = sy_line s @ [byte_char b]
    \<and> sy_files s' = sy_files s \<and> kbd_idle (sy_kbd s')"
proof -
  obtain kb where k: "pop_event (sy_kbd s) = (Some (Char_key b), kb)" "kbd_idle kb" using take_event [OF assms(1)] by blast
  obtain moves m where d: "mouse_drain 31 (k_mouse (sy_kernel s)) = (moves, m)" by (metis prod.exhaust)
  obtain conns out where p: "poll_and_dispatch (env_at (an_now a) s) pkts (sy_conns s) = (conns, out)" by (metis prod.exhaust)
  show ?thesis using assms(2) k(2)
    by (simp add: run_turn_def k(1) d shell_turn_def ShellLoop.turn.make_def key_turn_def byte_turn_def p shell_of_def type_char_def
        Let_def put_mouse_def put_shell_def put_screen_def)
qed

lemma typed_chars:
  assumes "list_all typeable (map fst w)" "kbd_idle (sy_kbd s)" "length (sy_line s) + length w \<le> LINE_BUF"
  shows "\<exists>s' out. sys_run (type_events w) s = Back s' out \<and> sy_line s' = sy_line s @ map fst w
    \<and> sy_files s' = sy_files s \<and> kbd_idle (sy_kbd s')"
  using assms
proof (induction w arbitrary: s)
  case Nil
  then show ?case by (simp add: type_events_def)
next
  case (Cons x w)
  obtain c pkts a where x: "x = (c, pkts, a)" by (metis prod_cases3)
  let ?s = "s\<lparr>sy_kbd := pressed (strokes (of_char c)) (sy_kbd s)\<rparr>"
  have "holds_event (sy_kbd ?s) (Char_key (of_char c))" using typed_char [of c "sy_kbd s"] Cons.prems(1,2) x by simp
  from char_turn [OF this] obtain s1 out1 where t: "run_turn None pkts a ?s = Back s1 out1"
    "sy_line s1 = sy_line s @ [c]" "sy_files s1 = sy_files s" "kbd_idle (sy_kbd s1)"
    using Cons.prems(3) by (fastforce simp: byte_of_char)
  obtain s2 out2 where w: "sys_run (type_events w) s1 = Back s2 out2" "sy_line s2 = sy_line s1 @ map fst w"
    "sy_files s2 = sy_files s1" "kbd_idle (sy_kbd s2)" using Cons.IH [of s1] Cons.prems t by auto
  have "sys_run (map (Key_irq 0) (strokes (of_char c)) @ [Shell_turn None pkts a]) s = Back s1 ([] @ out1)"
    by (rule sys_run_append [OF run_presses]) (simp add: t(1))
  from sys_run_append [OF this w(1)] show ?case using t w by (simp add: x type_events_def)
qed

section \<open>Running a file command\<close>

lemma file_line_runs:
  "run_file_command (sy_files s) line = Some r \<Longrightarrow> \<exists>c. dispatch line = Some c \<and> run_command a c s = file_cmd r s"
  by (auto simp: run_file_command_def split: option.splits command.splits)

definition proper_line :: "string \<Rightarrow> bool" where
  "proper_line line \<longleftrightarrow> list_all typeable line \<and> line \<noteq> [] \<and> trim line = line \<and> length line \<le> LINE_BUF"

lemma submit_proper: "proper_line line \<Longrightarrow> submit h line = (history_push h line, Run_line line)"
proof -
  assume line: "proper_line line"
  have "c \<noteq> CHR 0x00 \<and> \<not> is_control c" if "typeable c" for c
    using that by (auto simp: typeable_def is_control_def)
  then show ?thesis using line by (auto simp: submit_def proper_line_def Let_def list_all_iff)
qed

definition answered :: "system \<Rightarrow> ramfs \<times> shell_output \<Rightarrow> bool" where
  "answered s r \<longleftrightarrow> sy_files s = fst r \<and> sy_line s = [] \<and> kbd_idle (sy_kbd s)
     \<and> (\<exists>v. sy_screen s = vga_write_fmt [text_bytes ''kernel> ''] (fold print_bytes (output_lines (snd r)) v))"

lemma return_turn:
  assumes "holds_event (sy_kbd s) Enter" "proper_line (sy_line s)" "run_file_command (sy_files s) (sy_line s) = Some r"
  shows "\<exists>s'. run_turn None pkts a s = Back s' [] \<and> answered s' r"
proof -
  obtain kb where k: "pop_event (sy_kbd s) = (Some Enter, kb)" "kbd_idle kb" using take_event [OF assms(1)] by blast
  obtain moves m where d: "mouse_drain 31 (k_mouse (sy_kernel s)) = (moves, m)" by (metis prod.exhaust)
  let ?sh = "(shell_of s)\<lparr>s_screen := vga_write_fmt [[10]] (sy_screen s)\<rparr>"
  let ?s = "put_shell ?sh (s\<lparr>sy_kbd := kb\<rparr>)"
  have t: "run_turn None pkts a s = line_done a ?s"
    by (simp add: run_turn_def k(1) d shell_turn_def ShellLoop.turn.make_def key_turn_def shell_of_def Let_def)
  let ?sh2 = "(shell_of ?s)\<lparr>s_history := history_push (sy_history s) (sy_line s)\<rparr>"
  let ?s2 = "put_shell ?sh2 ?s"
  have f: "finish_line (shell_of ?s) = (?sh2, Run_line (sy_line s))"
    using submit_proper [OF assms(2)] by (simp add: finish_line_def shell_of_def put_shell_def put_screen_def)
  have "sy_files ?s2 = sy_files s" by (simp add: put_shell_def put_screen_def)
  with assms(3) obtain c where c: "dispatch (sy_line s) = Some c" "run_command a c ?s2 = file_cmd r ?s2"
    using file_line_runs [of ?s2 "sy_line s" r a] by auto
  have "run_turn None pkts a s = Back (prompt (show_lines (output_lines (snd r)) (?s2\<lparr>sy_files := fst r\<rparr>))) []"
    unfolding t line_done_def f by (simp add: c file_cmd_def Let_def)
  moreover have "answered (prompt (show_lines (output_lines (snd r)) (?s2\<lparr>sy_files := fst r\<rparr>))) r"
    using k(2) by (auto simp: answered_def prompt_def show_lines_def put_shell_def put_screen_def start_line_def shell_of_def)
  ultimately show ?thesis by blast
qed

lemma typed_file_line:
  assumes "kbd_idle (sy_kbd s)" "sy_line s = []" "proper_line (map fst w)" "run_file_command (sy_files s) (map fst w) = Some r"
  shows "\<exists>s' out. sys_run (type_events w @ return_events pkts a) s = Back s' out \<and> answered s' r"
proof -
  obtain s1 out1 where 1: "sys_run (type_events w) s = Back s1 out1" "sy_line s1 = map fst w" "sy_files s1 = sy_files s"
    "kbd_idle (sy_kbd s1)" using typed_chars [of w s] assms(1-3) by (auto simp: proper_line_def)
  let ?s1 = "s1\<lparr>sy_kbd := pressed [0x1C, 0x9C] (sy_kbd s1)\<rparr>"
  have "holds_event (sy_kbd ?s1) Enter" using pressed_return [OF 1(4)] by simp
  from return_turn [OF this, of r pkts a] obtain s2 where 2: "run_turn None pkts a ?s1 = Back s2 []" "answered s2 r"
    using 1 assms(3,4) by auto
  have "sys_run (return_events pkts a) s1 = Back s2 ([] @ [])"
    unfolding return_events_def by (rule sys_run_append [OF run_presses]) (simp add: 2(1))
  from sys_run_append [OF 1(1) this] 2(2) show ?thesis by blast
qed

lemma utf8_typeable: "list_all typeable body \<Longrightarrow> utf8_ok (bytes_of body)"
proof (induction body)
  case (Cons c body)
  have "(word_of_nat (of_char c) :: u8) < 0x80"
    using Cons.prems by (simp add: typeable_def word_less_nat_alt unat_of_nat take_bit_nat_eq_self)
  then show ?case using Cons by (simp add: bytes_of_def)
qed (simp add: bytes_of_def)

lemma proper_lines:
  assumes "word_ok f" "list_all typeable (f @ body)" "length (''write '' @ f @ [CHR 0x20, CHR 0x22] @ body @ [CHR 0x22]) \<le> LINE_BUF"
  shows "proper_line (''write '' @ f @ [CHR 0x20, CHR 0x22] @ body @ [CHR 0x22])" "proper_line (''cat '' @ f)"
proof -
  have t: "typeable c" if "c \<in> set ''write cat'' \<union> {CHR 0x20, CHR 0x22}" for c using that by (auto simp: typeable_def)
  have f: "f \<noteq> []" "\<not> is_space (last f)" using assms(1) by (auto simp: word_ok_def list_all_iff)
  have sp: "\<not> is_space CHR 0x22" "\<not> is_space CHR ''w''" "\<not> is_space CHR ''c''" by (simp_all add: is_space_def)
  have "trim (''write '' @ f @ [CHR 0x20, CHR 0x22] @ body @ [CHR 0x22]) = ''write '' @ f @ [CHR 0x20, CHR 0x22] @ body @ [CHR 0x22]"
    "trim (''cat '' @ f) = ''cat '' @ f"
    using f sp by (intro trim_id; simp)+
  then show "proper_line (''write '' @ f @ [CHR 0x20, CHR 0x22] @ body @ [CHR 0x22])" "proper_line (''cat '' @ f)"
    using assms(2,3) t by (simp_all add: proper_line_def list_all_iff)
qed



end
