(* ===== verification/Spec2Isabelle.thy ===== *)
theory Spec2Isabelle
  imports FrameBitmap HeapSafety Scheduler Mouse Shell Editor NetDispatch Dhcp
    Ext3Dirs Framebuffer VgaSheet Clock SystemInfo Boot Descriptors BootEntry KernelMain
    ShellLoop Reports TypedLine
begin

text \<open>
  Verification library of the x86_64 kernel in \<^verbatim>\<open>src/\<close>: a bare-metal Rust program
  with a heap, a preemptive scheduler, drivers for keyboard, mouse, disk, screen, serial line and
  network card, a TCP/IP stack, two file systems and a shell. Every component is a theory or a
  group of theories whose definitions are translated from the code, with the theorems that make it
  correct. The numbered texts are the main properties; where the code does not do
  what it means to, the property states what it does.

  \<^bold>\<open>How the program hangs together.\<close> The boot loader jumps to \<open>bootstrap\<close> (\<^verbatim>\<open>asm.rs\<close>),
  which checks the processor, builds page tables, enters long mode and calls \<open>kernel_main\<close>
  (\<^verbatim>\<open>main.rs\<close>). That starts the components in a fixed order and ends in the loop of the
  shell (\<^verbatim>\<open>shell/mod.rs\<close>). Interrupts enter through the stubs of \<^verbatim>\<open>asm.rs\<close>: the timer
  calls the scheduler, which may switch tasks; keyboard and mouse push events into queues. Each
  turn of the shell's loop takes one key event, one serial byte, all mouse events and all received
  packets; a finished line is dispatched to a command, which uses the file systems, the network,
  the allocators or the scheduler and prints on the text console.

  \<^bold>\<open>Conventions.\<close> An integer of the code is a word of its width when its wrap-around or its bits
  matter, and a natural number when the code keeps it in range, as it does for indices and
  lengths. Statics are records that are passed and returned. A panic, and a call that does not
  return because a device never answers, is \<open>None\<close>; an error value is the left side of a sum.
  What devices answer is an argument (a list of polled values, the configuration space of the PCI
  bus, the replies of the mouse, the packets that arrive); what is sent to them is returned (port
  writes, frames, bytes). Locks appear as the order of operations; where the code has no lock,
  the single atomic steps are modelled and interleaved.

  \<^bold>\<open>Foundations.\<close>
  \<^item> \<open>Prelude\<close>: word types, byte orders, slices and patches of lists, their simplification rules.
  \<^item> \<open>Interfaces\<close>: the contracts as locales. \<open>bit_store\<close> and its extension \<open>first_fit\<close> describe an
    allocator on a bit map, interpreted by the frame bitmap (\<open>FrameBitmap\<close>) and by the block bitmap of
    the disk (\<open>Ext3Blocks\<close>); \<open>bounded_fifo\<close> an event queue, interpreted by the rings of keyboard and
    mouse; \<open>file_store\<close> a store of files, interpreted by the RAM file system, which the
    file commands of the shell rest on.
  \<^item> \<open>EventRings\<close>: the arithmetic of a circular buffer, shared by the two rings.
  \<^item> \<open>Format\<close>: the number formats of Rust's \<^verbatim>\<open>format!\<close>.

  \<^bold>\<open>Memory.\<close>
  \<^item> \<open>FrameBitmap\<close> (\<^verbatim>\<open>memory/paging.rs\<close>): the bitmap of page frames. First fit, exhaustion
    after exactly \<open>FRAME_COUNT\<close> frames, and exclusiveness under interleaved single steps.
  \<^item> \<open>BucketAlloc\<close>, \<open>HeapSafety\<close> (\<^verbatim>\<open>memory/bucket_allocator.rs\<close>, \<^verbatim>\<open>memory/mod.rs\<close>): the
    heap with its intrusive lists in an explicit store of nodes. The invariant over all reachable
    states (blocks aligned, inside, disjoint, accounted for), termination of every call, the
    round trip of a large block, and the overlap that follows when a small request was served
    from the large list, which is why reachable states exclude that case.

  \<^bold>\<open>Processor, boot and interrupts.\<close>
  \<^item> \<open>Boot\<close>, \<open>BootEntry\<close> (\<^verbatim>\<open>asm.rs\<close>): page tables with the processor's translation, and the entry
    code as instruction lists. Either long mode with the identity mapping or an orderly halt.
  \<^item> \<open>Descriptors\<close> (\<^verbatim>\<open>gdt.rs\<close>, \<^verbatim>\<open>idt.rs\<close>, \<^verbatim>\<open>interrupts.rs\<close>, \<^verbatim>\<open>timer.rs\<close>, \<^verbatim>\<open>serial.rs\<close>): tables as
    bytes, controllers and timer as port writes, and what the processor reads from them.
  \<^item> \<open>Scheduler\<close> (\<^verbatim>\<open>scheduler.rs\<close>, the stubs of \<^verbatim>\<open>asm.rs\<close>, the handlers of \<^verbatim>\<open>interrupts.rs\<close>,
    \<^verbatim>\<open>arch.rs\<close>, \<^verbatim>\<open>timer.rs\<close>): stubs run as instruction lists on a machine with registers and
    memory. Round robin, one running task, no starvation, and the complete context switch.
  \<^item> \<open>KernelMain\<close> (\<^verbatim>\<open>main.rs\<close>): the start of all components and what the shell then finds;
    the screens of panics and of allocation errors.

  \<^bold>\<open>Devices.\<close>
  \<^item> \<open>Keyboard\<close> (\<^verbatim>\<open>keyboard.rs\<close>) and \<open>Mouse\<close> (\<^verbatim>\<open>mouse.rs\<close>): event encodings, queues, the lock-free
    ring under every interleaving of its loads and stores, packets of the mouse.
  \<^item> \<open>Vga\<close>, \<open>VgaSheet\<close> (\<^verbatim>\<open>vga.rs\<close>): the text console on its video memory; printing refines
    appending to an endless sheet. \<open>Framebuffer\<close> (\<^verbatim>\<open>framebuffer.rs\<close>): font, pixels, bounds of all
    stores. \<open>Clock\<close> (\<^verbatim>\<open>rtc.rs\<close>, \<^verbatim>\<open>log.rs\<close>): reading the clock chip, lines of the log.
  \<^item> \<open>Ata\<close> (\<^verbatim>\<open>drivers/ata.rs\<close>): the transfer protocol, and a drive as the bytes it holds.
  \<^item> \<open>Nic\<close> (\<^verbatim>\<open>drivers/pci.rs\<close>, \<^verbatim>\<open>drivers/net/rtl8139.rs\<close>, \<^verbatim>\<open>drivers/net/mod.rs\<close>): discovery,
    set-up, transmission, and the circular receive buffer.

  \<^bold>\<open>Network.\<close>
  \<^item> \<open>NetHeaders\<close>: Ethernet, IPv4, UDP and ARP packets, parsers against builders.
  \<^item> \<open>Tcp\<close>, \<open>TcpStates\<close>, \<open>TcpTransfer\<close> (\<^verbatim>\<open>drivers/net/tcp.rs\<close>): the connection table as a state
    machine over all its events, with its diagram and its well-formedness; the stream that is
    received; retransmission; and why an active open never completes.
  \<^item> \<open>NetDispatch\<close>: from received frames to connections. \<open>Dhcp\<close> (\<^verbatim>\<open>drivers/net/dhcp.rs\<close>): the
    transaction with a server and its messages.

  \<^bold>\<open>Files.\<close>
  \<^item> \<open>RamFs\<close> (\<^verbatim>\<open>fs/ramfs.rs\<close>, \<^verbatim>\<open>fs/vfs.rs\<close>): the file store as a finite map.
  \<^item> \<open>Ext3\<close>, \<open>Ext3Blocks\<close>, \<open>Ext3Files\<close>, \<open>Ext3Dirs\<close> (\<^verbatim>\<open>fs/ext3.rs\<close>): every operation on the bytes of
    the disk, including the state it is left in by an error; bitmaps, contents, directories.

  \<^bold>\<open>Shell.\<close>
  \<^item> \<open>Shell\<close> (\<^verbatim>\<open>shell/mod.rs\<close>): history, line editing, dispatch, the commands on files. \<open>ShellLoop\<close>: a
    turn of the loop with the display, which follows the line. \<open>Calc\<close> (\<^verbatim>\<open>shell/calc.rs\<close>): the
    calculator against the value of expression trees. \<open>Editor\<close> (\<^verbatim>\<open>shell/editor.rs\<close>): a
    state machine on keys.
  \<^item> \<open>NetCommands\<close>, \<open>SystemInfo\<close>, \<open>Reports\<close>: what the other commands send, wait for, change and print, and
    the argument filter of \<^verbatim>\<open>tools/rustc-filter.rs\<close>. \<open>SmallDrivers\<close>: the waits of the mouse driver, the
    \<^verbatim>\<open>e1000\<close> skeleton, the \<open>main\<close> of the filter.

  \<^bold>\<open>The running kernel.\<close>
  \<^item> \<open>Commands\<close>: the state \<open>system\<close> of all components together, every command of \<open>dispatch\<close> as a step
    on it (\<open>run_command\<close>), turns of the shell's loop and the three interrupts (\<open>sys_step\<close>), and what they
    reach from the state \<open>kernel_main\<close> leaves (\<open>reaches\<close>). What a command learns from outside is an
    argument, the \<open>answers\<close>.
  \<^item> \<open>ScreenSafety\<close>, \<open>KernelRuns\<close>: the invariant \<open>system_ok\<close>, which puts those of the components
    together, is kept by every command, turn and interrupt; and the disk is never written.
  \<^item> \<open>TypedLine\<close>: a line from its scancodes through the key queue, the line editor and the dispatcher to
    the files and the screen, whatever arrives from network and mouse meanwhile.

  \<^bold>\<open>Bounds and fuel.\<close> Loops that wait for a device run over the list of values the device gives;
  \<open>None\<close> stands for a list that ends before the awaited value. The only recursion without a bound in
  the code is that of \<open>write_file\<close> of \<^verbatim>\<open>fs/ext3.rs\<close>, which calls itself after it has created the
  file; its fuel counts these calls, and two are enough whenever the created name is found again. It
  is not after the last entry of the directory was removed, and then the code creates it again until
  the disk refuses. The clock stands still within one call of the TCP code, which reads it
  more than once per call. All other recursion is structural or has a proved measure.

  \<^bold>\<open>Simplifications of the running kernel.\<close> A turn of the shell and a command are single steps: interrupts
  fall between them, although the keys an editor session takes are given to it. Of the heap only
  what \<open>kernel_main\<close> leaves is kept: the strings and vectors that commands allocate and drop are not
  followed, so \<open>mem\<close>, \<open>free\<close> and \<open>env\<close> report that heap. What \<open>println!\<close> copies to the serial line
  is not kept either, and the clock the commands read is an answer, not a count of the timer's ticks.

  \<^bold>\<open>Not modelled.\<close> The instructions \<open>hlt\<close> and \<open>cpuid\<close> themselves, whose results are arguments; the log lines
  that drivers and the TCP code emit while they work, beyond the format of such a line; the locks, as said
  above; the macros of \<^verbatim>\<open>vga.rs\<close> and \<^verbatim>\<open>log.rs\<close> beyond the calls they expand to; and the starting of
  a process by \<^verbatim>\<open>rustc-filter.rs\<close>, which is a parameter.
\<close>

end
